(* ===== verification/Prelude.thy ===== *)
theory Prelude
  imports Main
begin

text \<open>
  Shared vocabulary of the development: Go's 64-bit integers, the instants and durations of
  Go's \<^verbatim>\<open>time\<close> package, byte strings and the operations of Go's \<^verbatim>\<open>strings\<close>,
  \<^verbatim>\<open>strconv\<close> and \<^verbatim>\<open>unicode/utf8\<close> packages that the modelled code calls, together
  with the generic lemmas the component theories rest on.

  Go strings are byte strings, so a model string is a \<^typ>\<open>string\<close> whose characters are
  bytes, and \<^const>\<open>length\<close> counts bytes as Go's \<^verbatim>\<open>len\<close> does.
\<close>

section \<open>Automation collections\<close>

named_theorems go_arith \<open>rewrite rules for wrapping integers and saturating time\<close>
named_theorems go_str \<open>rewrite rules for the string operations\<close>

section \<open>64-bit integers\<close>

text \<open>Two's complement wrap-around of Go's \<^verbatim>\<open>int\<close>, \<^verbatim>\<open>int64\<close> and \<^verbatim>\<open>time.Duration\<close>.\<close>

definition wrap64 :: "int \<Rightarrow> int" where
  "wrap64 x = (x + 2 ^ 63) mod 2 ^ 64 - 2 ^ 63"

definition max_int64 :: int where
  "max_int64 = 2 ^ 63 - 1"

definition min_int64 :: int where
  "min_int64 = - (2 ^ 63)"

lemma wrap64_range: "min_int64 \<le> wrap64 x \<and> wrap64 x \<le> max_int64"
proof -
  have "(x + 2 ^ 63) mod 2 ^ 64 < (2 ^ 64 :: int)" by simp
  moreover have "0 \<le> (x + 2 ^ 63) mod (2 ^ 64 :: int)" by simp
  ultimately show ?thesis by (simp add: wrap64_def min_int64_def max_int64_def)
qed

lemma wrap64_id [go_arith]:
  "min_int64 \<le> x \<Longrightarrow> x \<le> max_int64 \<Longrightarrow> wrap64 x = x"
  by (simp add: wrap64_def min_int64_def max_int64_def)

section \<open>Instants and durations\<close>

text \<open>
  An instant is the number of nanoseconds since Go's zero time (January 1, year 1, UTC), so
  \<^verbatim>\<open>t.IsZero()\<close> is \<open>t = 0\<close>. A duration is a number of nanoseconds in the int64 range.
  \<^verbatim>\<open>Time.Sub\<close> saturates; \<^verbatim>\<open>Duration\<close> arithmetic wraps.
\<close>

type_synonym gtime = int
type_synonym duration = int

abbreviation (input) zero_time :: gtime where
  "zero_time \<equiv> 0"

definition second :: duration where
  "second = 1000000000"

definition minute :: duration where
  "minute = 60 * second"

definition hour :: duration where
  "hour = 60 * minute"

definition time_sub :: "gtime \<Rightarrow> gtime \<Rightarrow> duration" where
  "time_sub t u = max min_int64 (min max_int64 (t - u))"

lemma time_sub_mono: "u \<le> u' \<Longrightarrow> time_sub t u' \<le> time_sub t u"
  by (auto simp: time_sub_def)

lemma time_sub_mono_left: "t \<le> t' \<Longrightarrow> time_sub t u \<le> time_sub t' u"
  by (auto simp: time_sub_def)

lemma time_sub_self [simp]: "time_sub t t = 0"
  by (simp add: time_sub_def min_int64_def max_int64_def)

lemma time_sub_ge_0_iff [simp]: "0 \<le> time_sub t u \<longleftrightarrow> u \<le> t"
  by (auto simp: time_sub_def min_int64_def max_int64_def)

lemma time_sub_le_diff: "u \<le> t \<Longrightarrow> time_sub t u \<le> t - u"
  by (auto simp: time_sub_def min_int64_def)

section \<open>Association of sums\<close>

text \<open>Error results: \<open>Inl\<close> carries the error, \<open>Inr\<close> the value.\<close>

definition bind_sum :: "'e + 'a \<Rightarrow> ('a \<Rightarrow> 'e + 'b) \<Rightarrow> 'e + 'b" where
  "bind_sum r f = (case r of Inl e \<Rightarrow> Inl e | Inr x \<Rightarrow> f x)"

lemma bind_sum_simps [simp]:
  "bind_sum (Inl e) f = Inl e"
  "bind_sum (Inr x) f = f x"
  by (simp_all add: bind_sum_def)

lemma bind_sum_Inr_iff:
  "bind_sum r f = Inr y \<longleftrightarrow> (\<exists>x. r = Inr x \<and> f x = Inr y)"
  by (cases r) simp_all

lemma bind_sum_Inl_iff:
  "bind_sum r f = Inl e \<longleftrightarrow> r = Inl e \<or> (\<exists>x. r = Inr x \<and> f x = Inl e)"
  by (cases r) simp_all

end
