(* ===== verification/GoStrings.thy ===== *)
theory GoStrings
  imports Prelude
begin

text \<open>
  Byte strings: the operations of Go's \<^verbatim>\<open>strings\<close>, \<^verbatim>\<open>strconv\<close> and
  \<^verbatim>\<open>unicode/utf8\<close> packages used by the modelled code. A separator that the code
  always passes as a one-byte literal is a character here.
\<close>

section \<open>Bytes\<close>

abbreviation byte :: "char \<Rightarrow> nat" where
  "byte c \<equiv> of_char c"

definition is_digit :: "char \<Rightarrow> bool" where
  "is_digit c \<longleftrightarrow> 48 \<le> byte c \<and> byte c \<le> 57"

definition is_lower :: "char \<Rightarrow> bool" where
  "is_lower c \<longleftrightarrow> 97 \<le> byte c \<and> byte c \<le> 122"

definition is_upper :: "char \<Rightarrow> bool" where
  "is_upper c \<longleftrightarrow> 65 \<le> byte c \<and> byte c \<le> 90"

text \<open>ASCII case mapping, which is what \<^verbatim>\<open>strings.ToLower\<close> and \<^verbatim>\<open>ToUpper\<close> do on ASCII text.\<close>

definition lower_char :: "char \<Rightarrow> char" where
  "lower_char c = (if is_upper c then char_of (byte c + 32) else c)"

definition upper_char :: "char \<Rightarrow> char" where
  "upper_char c = (if is_lower c then char_of (byte c - 32) else c)"

definition to_lower :: "string \<Rightarrow> string" where
  "to_lower s = map lower_char s"

definition to_upper :: "string \<Rightarrow> string" where
  "to_upper s = map upper_char s"

lemma length_to_lower [simp]: "length (to_lower s) = length s"
  by (simp add: to_lower_def)

lemma length_to_upper [simp]: "length (to_upper s) = length s"
  by (simp add: to_upper_def)

section \<open>Prefixes, suffixes and searching\<close>

definition has_prefix :: "string \<Rightarrow> string \<Rightarrow> bool" where
  "has_prefix s p \<longleftrightarrow> take (length p) s = p"

definition trim_prefix :: "string \<Rightarrow> string \<Rightarrow> string" where
  "trim_prefix s p = (if has_prefix s p then drop (length p) s else s)"

definition has_suffix :: "string \<Rightarrow> string \<Rightarrow> bool" where
  "has_suffix s p \<longleftrightarrow> has_prefix (rev s) (rev p)"

lemma has_prefix_iff: "has_prefix s p \<longleftrightarrow> (\<exists>r. s = p @ r)"
  unfolding has_prefix_def by (metis append_eq_conv_conj append_take_drop_id)

lemma has_prefix_append [simp, go_str]: "has_prefix (p @ r) p"
  by (simp add: has_prefix_def)

lemma trim_prefix_append [simp, go_str]: "trim_prefix (p @ r) p = r"
  by (simp add: trim_prefix_def)

lemma has_prefix_length: "has_prefix s p \<Longrightarrow> length p \<le> length s"
  by (auto simp: has_prefix_iff)

text \<open>\<^verbatim>\<open>strings.IndexByte\<close>: the first position of a byte, \<open>None\<close> for \<open>-1\<close>.\<close>

fun index_byte :: "string \<Rightarrow> char \<Rightarrow> nat option" where
  "index_byte [] c = None"
| "index_byte (x # xs) c = (if x = c then Some 0 else map_option Suc (index_byte xs c))"

lemma index_byte_None_iff [go_str]: "index_byte s c = None \<longleftrightarrow> c \<notin> set s"
  by (induction s) auto

lemma index_byte_Some:
  "index_byte s c = Some i \<Longrightarrow> i < length s \<and> s ! i = c \<and> c \<notin> set (take i s)"
  by (induction s arbitrary: i) (auto split: if_splits)

lemma index_byte_append [go_str]: "c \<notin> set p \<Longrightarrow> index_byte (p @ c # r) c = Some (length p)"
  by (induction p) auto

text \<open>\<^verbatim>\<open>strings.Index\<close> for a general needle.\<close>

fun index_str :: "string \<Rightarrow> string \<Rightarrow> nat option" where
  "index_str [] p = (if p = [] then Some 0 else None)"
| "index_str (x # xs) p =
     (if has_prefix (x # xs) p then Some 0 else map_option Suc (index_str xs p))"

lemma index_str_Some: "index_str s p = Some i \<Longrightarrow> i + length p \<le> length s"
  by (induction s arbitrary: i) (auto split: if_splits dest: has_prefix_length)

lemma index_str_prefix: "index_str s p = Some i \<Longrightarrow> has_prefix (drop i s) p"
  by (induction s arbitrary: i) (auto split: if_splits simp: has_prefix_def)

definition str_contains :: "string \<Rightarrow> string \<Rightarrow> bool" where
  "str_contains s p \<longleftrightarrow> index_str s p \<noteq> None"

text \<open>\<^verbatim>\<open>strings.Cut\<close> at a one-byte separator: before, after and whether it was found.\<close>

definition cut_byte :: "string \<Rightarrow> char \<Rightarrow> string \<times> string \<times> bool" where
  "cut_byte s c =
     (case index_byte s c of
        None \<Rightarrow> (s, [], False)
      | Some i \<Rightarrow> (take i s, drop (Suc i) s, True))"

section \<open>Splitting and joining\<close>

fun split_on :: "char \<Rightarrow> string \<Rightarrow> string list" where
  "split_on c [] = [[]]"
| "split_on c (x # xs) =
     (if x = c then [] # split_on c xs
      else (case split_on c xs of [] \<Rightarrow> [[x]] | y # ys \<Rightarrow> (x # y) # ys))"

fun join_with :: "string \<Rightarrow> string list \<Rightarrow> string" where
  "join_with sep [] = []"
| "join_with sep [x] = x"
| "join_with sep (x # y # ys) = x @ sep @ join_with sep (y # ys)"

lemma split_on_not_Nil [simp]: "split_on c s \<noteq> []"
  by (induction s) (auto split: list.splits)

lemma split_on_parts: "p \<in> set (split_on c s) \<Longrightarrow> c \<notin> set p"
  by (induction s arbitrary: p) (auto split: list.splits if_splits)

lemma join_with_Cons: "ys \<noteq> [] \<Longrightarrow> join_with sep (x # ys) = x @ sep @ join_with sep ys"
  by (cases ys) auto

theorem join_split [simp]: "join_with [c] (split_on c s) = s"
proof (induction s)
  case Nil
  then show ?case by simp
next
  case (Cons x xs)
  show ?case
  proof (cases "x = c")
    case True
    then show ?thesis using Cons by (simp add: join_with_Cons)
  next
    case False
    obtain y ys where ys: "split_on c xs = y # ys"
      by (cases "split_on c xs") auto
    then have "join_with [c] ((x # y) # ys) = x # join_with [c] (y # ys)"
      by (cases ys) auto
    then show ?thesis using False ys Cons by simp
  qed
qed

lemma split_on_plain: "c \<notin> set s \<Longrightarrow> split_on c s = [s]"
  by (induction s) auto

lemma split_on_append: "c \<notin> set p \<Longrightarrow> split_on c (p @ c # r) = p # split_on c r"
  by (induction p) auto

theorem split_join:
  "xs \<noteq> [] \<Longrightarrow> (\<And>x. x \<in> set xs \<Longrightarrow> c \<notin> set x) \<Longrightarrow> split_on c (join_with [c] xs) = xs"
proof (induction xs)
  case Nil
  then show ?case by simp
next
  case (Cons x xs)
  show ?case
  proof (cases xs)
    case Nil
    then show ?thesis using Cons.prems by (simp add: split_on_plain)
  next
    case (Cons y ys)
    then show ?thesis using Cons.IH Cons.prems by (simp add: split_on_append)
  qed
qed

lemma set_join_with: "set (join_with sep xs) \<subseteq> (\<Union>x \<in> set xs. set x) \<union> set sep"
proof (induction xs)
  case (Cons x xs)
  then show ?case by (cases xs) auto
qed simp

section \<open>Decimal and hexadecimal numbers\<close>

fun digits_val :: "nat \<Rightarrow> string \<Rightarrow> nat" where
  "digits_val acc [] = acc"
| "digits_val acc (c # cs) = digits_val (10 * acc + (byte c - 48)) cs"

text \<open>\<^verbatim>\<open>strconv.ParseUint(s, 10, 64)\<close> without the error kinds: \<open>None\<close> is any error.\<close>

definition parse_uint64 :: "string \<Rightarrow> nat option" where
  "parse_uint64 s =
     (if s = [] \<or> \<not> list_all is_digit s then None
      else let n = digits_val 0 s in if n < 2 ^ 64 then Some n else None)"

text \<open>\<^verbatim>\<open>strconv.Atoi\<close>: an optional sign and decimal digits in the int64 range.\<close>

definition parse_int64 :: "string \<Rightarrow> int option" where
  "parse_int64 s =
     (let neg = has_prefix s ''-'';
          ds = (if neg \<or> has_prefix s ''+'' then drop 1 s else s)
      in if ds = [] \<or> \<not> list_all is_digit ds then None
         else let n = (if neg then - int (digits_val 0 ds) else int (digits_val 0 ds))
              in if min_int64 \<le> n \<and> n \<le> max_int64 then Some n else None)"

definition digit_char :: "nat \<Rightarrow> char" where
  "digit_char d = char_of (48 + d)"

text \<open>\<^verbatim>\<open>fmt.Sprintf("%d")\<close> of a non-negative number.\<close>

fun show_nat :: "nat \<Rightarrow> string" where
  "show_nat n = (if n < 10 then [digit_char n] else show_nat (n div 10) @ [digit_char (n mod 10)])"

declare show_nat.simps [simp del]

lemma byte_digit_char [simp]: "d < 10 \<Longrightarrow> byte (digit_char d) = 48 + d"
  by (simp add: digit_char_def)

lemma is_digit_digit_char [simp]: "d < 10 \<Longrightarrow> is_digit (digit_char d)"
  by (simp add: is_digit_def)

lemma digits_val_append: "digits_val acc (xs @ ys) = digits_val (digits_val acc xs) ys"
  by (induction xs arbitrary: acc) auto

lemma show_nat_not_Nil [simp]: "show_nat n \<noteq> []"
  by (subst show_nat.simps) simp

lemma show_nat_digits: "list_all is_digit (show_nat n)"
proof (induction n rule: show_nat.induct)
  case (1 n)
  then show ?case
    by (cases "n < 10") (simp_all add: show_nat.simps [of n])
qed

theorem digits_val_show_nat [simp]: "digits_val 0 (show_nat n) = n"
proof (induction n rule: show_nat.induct)
  case (1 n)
  then show ?case
    by (cases "n < 10") (simp_all add: show_nat.simps [of n] digits_val_append)
qed

lemma show_nat_no_leading_zero: "1 < length (show_nat n) \<Longrightarrow> hd (show_nat n) \<noteq> CHR ''0''"
proof (induction n rule: show_nat.induct)
  case (1 n)
  show ?case
  proof (cases "n < 10")
    case True
    then show ?thesis using "1.prems" by (simp add: show_nat.simps [of n])
  next
    case False
    have eq: "show_nat n = show_nat (n div 10) @ [digit_char (n mod 10)]"
      using False by (simp add: show_nat.simps [of n])
    show ?thesis
    proof (cases "n div 10 < 10")
      case True
      then have h: "show_nat (n div 10) = [digit_char (n div 10)]"
        by (simp add: show_nat.simps [of "n div 10"])
      have "byte (digit_char (n div 10)) \<noteq> byte (CHR ''0'')"
        using True False by simp
      then show ?thesis using eq h by auto
    next
      case False
      then have "1 < length (show_nat (n div 10))"
        by (simp add: show_nat.simps [of "n div 10"])
      then have "hd (show_nat (n div 10)) \<noteq> CHR ''0''"
        using "1.IH" \<open>\<not> n < 10\<close> by blast
      then show ?thesis using eq by (simp add: hd_append)
    qed
  qed
qed

lemma parse_uint64_show_nat: "n < 2 ^ 64 \<Longrightarrow> parse_uint64 (show_nat n) = Some n"
  by (simp add: parse_uint64_def show_nat_digits Let_def)

end
