(* ===== verification/GoFloat.thy ===== *)
theory GoFloat
  imports GoStrings "HOL-Library.Log_Nat"
begin

text \<open>
  IEEE 754 binary64, the \<^verbatim>\<open>float64\<close> of Go. A finite value is a sign and a non-negative
  rational magnitude (so negative zero exists); every operation computes the exact rational
  result and rounds it once, to nearest with ties to even, with gradual underflow below
  \<open>2 powi -1022\<close> and overflow to infinity at \<open>2 ^ 1024\<close>.
\<close>

section \<open>Values and rounding\<close>

datatype f64 = FNaN | FInf bool | FNum bool rat

definition ilog2 :: "rat \<Rightarrow> int" where
  "ilog2 r =
     (let (p, q) = quotient_of r;
          e = int (floorlog 2 (nat p)) - int (floorlog 2 (nat q))
      in if 2 powi e \<le> r then e else e - 1)"

definition round_half_even :: "rat \<Rightarrow> int" where
  "round_half_even r =
     (let f = \<lfloor>r\<rfloor>; d = r - of_int f
      in if d < 1 / 2 then f else if 1 / 2 < d then f + 1 else if even f then f else f + 1)"

definition ulp_exp :: "rat \<Rightarrow> int" where
  "ulp_exp r = max (ilog2 r - 52) (- 1074)"

definition round_mag :: "rat \<Rightarrow> rat" where
  "round_mag r =
     (if r \<le> 0 then 0
      else of_int (round_half_even (r / 2 powi ulp_exp r)) * 2 powi ulp_exp r)"

definition round64 :: "bool \<Rightarrow> rat \<Rightarrow> f64" where
  "round64 neg r = (let v = round_mag r in if 2 ^ 1024 \<le> v then FInf neg else FNum neg v)"

fun fval :: "f64 \<Rightarrow> rat" where
  "fval (FNum neg m) = (if neg then - m else m)"
| "fval _ = 0"

fun is_nan :: "f64 \<Rightarrow> bool" where
  "is_nan FNaN = True"
| "is_nan _ = False"

fun is_inf :: "f64 \<Rightarrow> bool" where
  "is_inf (FInf _) = True"
| "is_inf _ = False"

text \<open>The result of an exact computation: \<open>zneg\<close> is the sign an exact zero takes.\<close>

definition of_exact :: "bool \<Rightarrow> rat \<Rightarrow> f64" where
  "of_exact zneg x = (if x = 0 then FNum zneg 0 else round64 (x < 0) \<bar>x\<bar>)"

definition f_of_int :: "int \<Rightarrow> f64" where
  "f_of_int n = of_exact False (of_int n)"

section \<open>Comparison\<close>

text \<open>Comparisons with NaN are false, and the two zeros are equal.\<close>

fun f_lt :: "f64 \<Rightarrow> f64 \<Rightarrow> bool" where
  "f_lt FNaN _ = False"
| "f_lt _ FNaN = False"
| "f_lt (FInf s) (FInf t) = (s \<and> \<not> t)"
| "f_lt (FInf s) (FNum _ _) = s"
| "f_lt (FNum _ _) (FInf t) = (\<not> t)"
| "f_lt (FNum s a) (FNum t b) = (fval (FNum s a) < fval (FNum t b))"

fun f_eq :: "f64 \<Rightarrow> f64 \<Rightarrow> bool" where
  "f_eq (FInf s) (FInf t) = (s = t)"
| "f_eq (FNum s a) (FNum t b) = (fval (FNum s a) = fval (FNum t b))"
| "f_eq _ _ = False"

definition f_le :: "f64 \<Rightarrow> f64 \<Rightarrow> bool" where
  "f_le a b \<longleftrightarrow> f_lt a b \<or> f_eq a b"

abbreviation f_gt :: "f64 \<Rightarrow> f64 \<Rightarrow> bool" where
  "f_gt a b \<equiv> f_lt b a"

abbreviation f_ge :: "f64 \<Rightarrow> f64 \<Rightarrow> bool" where
  "f_ge a b \<equiv> f_le b a"

lemma f_lt_nan [simp]: "\<not> f_lt FNaN x" "\<not> f_lt x FNaN"
  by (cases x; simp)+

lemma f_le_nan [simp]: "\<not> f_le FNaN x" "\<not> f_le x FNaN"
  by (cases x; simp add: f_le_def)+

lemma f_lt_irrefl [simp]: "\<not> f_lt x x"
  by (cases x) auto

lemma f_eq_refl: "\<not> is_nan x \<Longrightarrow> f_eq x x"
  by (cases x) auto

lemma f_lt_trans: "f_lt x y \<Longrightarrow> f_lt y z \<Longrightarrow> f_lt x z"
  by (cases x; cases y; cases z) (auto split: if_splits)

lemma f_le_trans: "f_le x y \<Longrightarrow> f_le y z \<Longrightarrow> f_le x z"
  by (cases x; cases y; cases z) (auto simp: f_le_def split: if_splits)

lemma f_lt_le_trans: "f_lt x y \<Longrightarrow> f_le y z \<Longrightarrow> f_lt x z"
  by (cases x; cases y; cases z) (auto simp: f_le_def split: if_splits)

lemma f_le_lt_trans: "f_le x y \<Longrightarrow> f_lt y z \<Longrightarrow> f_lt x z"
  by (cases x; cases y; cases z) (auto simp: f_le_def split: if_splits)

lemma not_f_lt_le: "\<not> is_nan x \<Longrightarrow> \<not> is_nan y \<Longrightarrow> \<not> f_lt x y \<longleftrightarrow> f_le y x"
  by (cases x; cases y) (auto simp: f_le_def)

lemma f_lt_not_nan: "f_lt x y \<Longrightarrow> \<not> is_nan x \<and> \<not> is_nan y"
  by (cases x; cases y) auto

lemma f_le_not_nan: "f_le x y \<Longrightarrow> \<not> is_nan x \<and> \<not> is_nan y"
  by (cases x; cases y) (auto simp: f_le_def)

lemma f_le_fval: "f_le (FNum s a) (FNum t b) \<longleftrightarrow> fval (FNum s a) \<le> fval (FNum t b)"
  by (auto simp: f_le_def simp del: fval.simps)

lemma f_between_finite:
  assumes "f_le (FNum s a) x" and "f_le x (FNum t b)"
  obtains u m where "x = FNum u m" and "fval (FNum s a) \<le> fval x" and "fval x \<le> fval (FNum t b)"
proof (cases x)
  case (FNum u m)
  with assms show ?thesis by (intro that [of u m]) (simp_all add: f_le_fval del: fval.simps)
qed (use assms in \<open>auto simp: f_le_def\<close>)

section \<open>Arithmetic\<close>

fun f_neg :: "f64 \<Rightarrow> f64" where
  "f_neg FNaN = FNaN"
| "f_neg (FInf s) = FInf (\<not> s)"
| "f_neg (FNum s m) = FNum (\<not> s) m"

fun f_add :: "f64 \<Rightarrow> f64 \<Rightarrow> f64" where
  "f_add FNaN _ = FNaN"
| "f_add _ FNaN = FNaN"
| "f_add (FInf s) (FInf t) = (if s = t then FInf s else FNaN)"
| "f_add (FInf s) (FNum _ _) = FInf s"
| "f_add (FNum _ _) (FInf t) = FInf t"
| "f_add (FNum s a) (FNum t b) = of_exact (s \<and> t) (fval (FNum s a) + fval (FNum t b))"

definition f_sub :: "f64 \<Rightarrow> f64 \<Rightarrow> f64" where
  "f_sub a b = f_add a (f_neg b)"

fun f_mul :: "f64 \<Rightarrow> f64 \<Rightarrow> f64" where
  "f_mul FNaN _ = FNaN"
| "f_mul _ FNaN = FNaN"
| "f_mul (FInf s) (FInf t) = FInf (s \<noteq> t)"
| "f_mul (FInf s) (FNum t b) = (if b = 0 then FNaN else FInf (s \<noteq> t))"
| "f_mul (FNum s a) (FInf t) = (if a = 0 then FNaN else FInf (s \<noteq> t))"
| "f_mul (FNum s a) (FNum t b) = round64 (s \<noteq> t) (a * b)"

fun f_div :: "f64 \<Rightarrow> f64 \<Rightarrow> f64" where
  "f_div FNaN _ = FNaN"
| "f_div _ FNaN = FNaN"
| "f_div (FInf s) (FInf t) = FNaN"
| "f_div (FInf s) (FNum t b) = FInf (s \<noteq> t)"
| "f_div (FNum s a) (FInf t) = FNum (s \<noteq> t) 0"
| "f_div (FNum s a) (FNum t b) =
     (if b = 0 then (if a = 0 then FNaN else FInf (s \<noteq> t)) else round64 (s \<noteq> t) (a / b))"

text \<open>\<^verbatim>\<open>math.Trunc\<close>, and the conversion \<^verbatim>\<open>int(f)\<close> of a value in the int64 range.\<close>

fun f_trunc :: "f64 \<Rightarrow> f64" where
  "f_trunc (FNum s m) = FNum s (of_int \<lfloor>m\<rfloor>)"
| "f_trunc x = x"

fun f_to_int :: "f64 \<Rightarrow> int" where
  "f_to_int (FNum s m) = (if s then - \<lfloor>m\<rfloor> else \<lfloor>m\<rfloor>)"
| "f_to_int _ = min_int64"

lemma f_to_int_bounds:
  assumes "of_int a \<le> fval x" and "fval x \<le> of_int b" and "x = FNum s m" and "0 \<le> a"
    and "0 \<le> m"
  shows "a \<le> f_to_int x \<and> f_to_int x \<le> b"
proof (cases s)
  case True
  with assms have "m = 0" by simp
  with True assms show ?thesis by simp
next
  case False
  with assms show ?thesis by (simp add: le_floor_iff floor_le_iff)
qed

section \<open>Integers up to 53 bits are exact\<close>

lemma round_half_even_of_int [simp]: "round_half_even (of_int n) = n"
  by (simp add: round_half_even_def Let_def)

lemma round_mag_exact:
  assumes "0 < r" and "r = of_int k * 2 powi ulp_exp r"
  shows "round_mag r = r"
proof -
  have "r / 2 powi ulp_exp r = of_int k"
    using assms(2) by (metis nonzero_mult_div_cancel_right power_int_eq_0_iff zero_neq_numeral)
  then show ?thesis using assms by (simp add: round_mag_def)
qed

lemma ilog2_of_int:
  assumes "0 < n" and "n < 2 ^ 53"
  shows "ilog2 (of_int n) \<le> 52"
proof -
  have "floorlog 2 (nat n) \<le> 53"
    using assms by (intro floorlog_leI) (auto simp: nat_less_iff)
  moreover have "floorlog 2 (nat 1) = 1" by (simp add: floorlog_def)
  ultimately show ?thesis
    by (simp add: ilog2_def quotient_of_int Let_def)
qed

theorem round_mag_of_int:
  assumes "0 \<le> n" and "n < 2 ^ 53"
  shows "round_mag (of_int n) = of_int n"
proof (cases "n = 0")
  case False
  with assms have pos: "0 < n" by simp
  define u where "u = ulp_exp (of_int n)"
  have u: "u \<le> 0"
    using ilog2_of_int [OF pos assms(2)] by (simp add: u_def ulp_exp_def)
  have p: "(2 :: rat) powi u = 1 / 2 ^ nat (- u)"
    using u by (simp add: power_int_def field_simps power_divide)
  have eq: "of_int n = (of_int (n * 2 ^ nat (- u)) :: rat) * 2 powi u"
    by (simp add: p)
  show ?thesis
    by (rule round_mag_exact [OF _ eq [unfolded u_def]]) (simp add: pos)
qed (simp add: round_mag_def)

lemma f_of_int_exact:
  assumes "\<bar>n\<bar> < 2 ^ 53"
  shows "f_of_int n = FNum (n < 0) (of_int \<bar>n\<bar>)"
proof -
  have "round_mag \<bar>of_int n\<bar> = \<bar>of_int n\<bar>"
    using round_mag_of_int [of "\<bar>n\<bar>"] assms by simp
  moreover have "\<not> (2 ^ 1024 \<le> (of_int \<bar>n\<bar> :: rat))"
  proof -
    have "(of_int \<bar>n\<bar> :: rat) < of_int (2 ^ 53)" using assms by (simp only: of_int_less_iff)
    also have "\<dots> \<le> 2 ^ 1024" by simp
    finally show ?thesis by simp
  qed
  ultimately show ?thesis by (auto simp: f_of_int_def of_exact_def round64_def)
qed

section \<open>Decimal text\<close>

text \<open>
  \<^verbatim>\<open>strconv.ParseFloat(s, 64)\<close> on decimal text \<open>digits [. digits] [e [sign] digits]\<close>: the
  correctly rounded value, or \<open>None\<close> when it overflows (Go's range error) or the text is
  not of that form.
\<close>

definition split_exp :: "string \<Rightarrow> string \<times> int option" where
  "split_exp s =
     (let m = takeWhile (\<lambda>c. c \<noteq> CHR ''e'' \<and> c \<noteq> CHR ''E'') s;
          r = dropWhile (\<lambda>c. c \<noteq> CHR ''e'' \<and> c \<noteq> CHR ''E'') s
      in case r of
           [] \<Rightarrow> (m, Some 0)
         | _ # e \<Rightarrow>
             let neg = has_prefix e ''-'';
                 ds = (if neg \<or> has_prefix e ''+'' then drop 1 e else e)
             in (m, if ds = [] \<or> \<not> list_all is_digit ds then None
                    else Some (if neg then - int (digits_val 0 ds) else int (digits_val 0 ds))))"

definition parse_decimal :: "string \<Rightarrow> rat option" where
  "parse_decimal s =
     (let (m, ex) = split_exp s;
          ip = takeWhile is_digit m;
          rest = dropWhile is_digit m;
          fp = (case rest of [] \<Rightarrow> Some [] | c # f \<Rightarrow>
                  if c = CHR ''.'' \<and> list_all is_digit f then Some f else None)
      in case (ex, fp) of
           (Some e, Some f) \<Rightarrow>
             if ip @ f = [] then None
             else Some (of_nat (digits_val 0 (ip @ f)) * 10 powi (e - int (length f)))
         | _ \<Rightarrow> None)"

definition parse_float :: "string \<Rightarrow> f64 option" where
  "parse_float s =
     (case parse_decimal s of
        None \<Rightarrow> None
      | Some r \<Rightarrow> (case round64 False r of FNum t m \<Rightarrow> Some (FNum t m) | _ \<Rightarrow> None))"

lemma parse_float_finite: "parse_float s = Some x \<Longrightarrow> \<exists>m. x = FNum False m"
  by (auto simp: parse_float_def round64_def Let_def split: option.splits f64.splits if_splits)

end
