(* ===== verification/AlertState.thy ===== *)
theory AlertState
  imports GoFloat
begin

text \<open>
  The alert state machine of \<^verbatim>\<open>internal/alert\<close>: \<^verbatim>\<open>Judge\<close> of \<^verbatim>\<open>ruletype.go\<close> and
  \<^verbatim>\<open>Step\<close> of \<^verbatim>\<open>state.go\<close> with its helpers. One call of \<open>Step\<close> advances one
  series by one evaluation; the row the store keeps for the series is written, deleted or left
  alone as the outcome says.
\<close>

section \<open>Judging a value\<close>

record judge =
  jd_operator :: string
  jd_threshold :: f64
  jd_recovery :: f64

definition compare_op :: "string \<Rightarrow> f64 \<Rightarrow> f64 \<Rightarrow> bool" where
  "compare_op opr v t =
     (if opr = ''gt'' then f_gt v t
      else if opr = ''gte'' then f_ge v t
      else if opr = ''lt'' then f_lt v t
      else if opr = ''lte'' then f_le v t
      else False)"

definition Breach :: "judge \<Rightarrow> f64 \<Rightarrow> bool" where
  "Breach j v \<longleftrightarrow> \<not> is_nan v \<and> compare_op (jd_operator j) v (jd_threshold j)"

definition Recovered :: "judge \<Rightarrow> f64 \<Rightarrow> bool" where
  "Recovered j v \<longleftrightarrow> \<not> is_nan v \<and> \<not> compare_op (jd_operator j) v (jd_recovery j)"

section \<open>Series state\<close>

abbreviation (input) StateOK :: string where "StateOK \<equiv> ''ok''"
abbreviation (input) StatePending :: string where "StatePending \<equiv> ''pending''"
abbreviation (input) StateFiring :: string where "StateFiring \<equiv> ''firing''"
abbreviation (input) ReasonRecovered :: string where "ReasonRecovered \<equiv> ''recovered''"
abbreviation (input) ReasonNoData :: string where "ReasonNoData \<equiv> ''no_data''"
abbreviation (input) ReasonExpired :: string where "ReasonExpired \<equiv> ''expired''"

text \<open>The incident object that is loaded with the row is opaque to the state machine: \<open>'i\<close>.\<close>

record 'i series_state =
  ss_key :: string
  ss_labels :: "string \<rightharpoonup> string"
  ss_state :: string
  ss_pending_since :: gtime
  ss_firing_since :: gtime
  ss_recovering_since :: gtime
  ss_last_value :: f64
  ss_last_seen_at :: gtime
  ss_incident_id :: string
  ss_transitions :: "gtime list"
  ss_last_notified_at :: gtime
  ss_renotify_count :: int
  ss_incident :: "'i option"

definition state_of :: "'i series_state \<Rightarrow> string" where
  "state_of s = (if ss_state s = '''' then StateOK else ss_state s)"

record flapping =
  fl_enabled :: bool
  fl_transitions :: int
  fl_window_seconds :: int
  fl_hold_seconds :: int

definition DefaultFlapping :: flapping where
  "DefaultFlapping =
     \<lparr>fl_enabled = True, fl_transitions = 4, fl_window_seconds = 3600, fl_hold_seconds = 600\<rparr>"

record step_config =
  sc_judge :: judge
  sc_for :: duration
  sc_recovery_for :: duration
  sc_interval :: duration
  sc_delay :: duration
  sc_flapping :: flapping
  sc_missing :: string
  sc_expire_after :: duration

record step_input =
  si_end :: gtime
  si_prev_eval_end :: gtime
  si_present :: bool
  si_value :: f64

record 'i step_outcome =
  so_next :: "'i series_state"
  so_transition :: string
  so_open :: bool
  so_resolve :: string
  so_flapping :: bool
  so_persist :: bool
  so_delete :: bool

section \<open>Helpers\<close>

abbreviation (input) maxTransitions :: nat where "maxTransitions \<equiv> 10"

definition seconds :: "int \<Rightarrow> duration" where
  "seconds n = wrap64 (n * second)"

definition resetToOK :: "'i series_state \<Rightarrow> 'i series_state" where
  "resetToOK s = s\<lparr>ss_state := StateOK, ss_pending_since := zero_time,
     ss_firing_since := zero_time, ss_recovering_since := zero_time, ss_incident_id := '''',
     ss_incident := None, ss_last_notified_at := zero_time, ss_renotify_count := 0\<rparr>"

definition flap_window :: "flapping \<Rightarrow> duration" where
  "flap_window f =
     (if seconds (fl_window_seconds f) \<le> 0 then seconds (fl_window_seconds DefaultFlapping)
      else seconds (fl_window_seconds f))"

definition pruneTransitions :: "gtime list \<Rightarrow> gtime \<Rightarrow> flapping \<Rightarrow> gtime list" where
  "pruneTransitions ts e f = filter (\<lambda>t. time_sub e t \<le> flap_window f) ts"

definition isFlapping :: "gtime list \<Rightarrow> gtime \<Rightarrow> flapping \<Rightarrow> bool" where
  "isFlapping ts e f =
     (if \<not> fl_enabled f \<or> fl_transitions f \<le> 0 then False
      else fl_transitions f \<le> int (length (pruneTransitions ts e f)))"

section \<open>One step\<close>

text \<open>
  The beginning of \<open>Step\<close>: normalise the state, prune the transitions and restart a pending
  timer after a gap in evaluation.
\<close>

definition step_begin :: "'i series_state \<Rightarrow> step_input \<Rightarrow> step_config \<Rightarrow> 'i series_state" where
  "step_begin prev inp cfg =
     (let s = prev\<lparr>ss_state := state_of prev,
                   ss_transitions := pruneTransitions (ss_transitions prev) (si_end inp)
                                       (sc_flapping cfg)\<rparr>
      in if ss_state s = StatePending \<and> si_prev_eval_end inp \<noteq> zero_time \<and>
            time_sub (si_end inp) (si_prev_eval_end inp) > wrap64 (2 * sc_interval cfg + sc_delay cfg)
         then s\<lparr>ss_pending_since := si_end inp\<rparr> else s)"

text \<open>
  What the evaluation says about the series: either nothing is known and the state is kept
  (\<open>Keep\<close>, the early return), or a breach flag, a recovery flag and, when the data is
  missing, the reason an incident would resolve with.
\<close>

datatype verdict = Keep | Verdict bool bool string

definition observe ::
    "'i series_state \<Rightarrow> step_input \<Rightarrow> step_config \<Rightarrow> 'i series_state \<times> verdict" where
  "observe s inp cfg =
     (let e = si_end inp; j = sc_judge cfg; m = sc_missing cfg; z = FNum False 0
      in if si_present inp then
           (s\<lparr>ss_last_value := si_value inp, ss_last_seen_at := e\<rparr>,
            Verdict (Breach j (si_value inp)) (Recovered j (si_value inp)) '''')
         else if m = ''breach'' then (s, Verdict True False '''')
         else if m = ''zero'' then
           (s\<lparr>ss_last_value := z, ss_last_seen_at := e\<rparr>,
            Verdict (Breach j z) (Recovered j z) '''')
         else if m = ''ok'' then (s, Verdict False True ReasonNoData)
         else if m = ''expire'' then (s, Verdict False True ReasonExpired)
         else if ss_state s \<noteq> StateOK \<and> ss_last_seen_at s \<noteq> zero_time \<and>
                 sc_expire_after cfg > 0 \<and>
                 time_sub e (ss_last_seen_at s) > sc_expire_after cfg
           then (s, Verdict False True ReasonExpired)
         else (s, Keep))"

text \<open>The local closure \<^verbatim>\<open>fire\<close>: enter firing and open an incident.\<close>

definition fire_state :: "gtime \<Rightarrow> 'i series_state \<Rightarrow> 'i series_state" where
  "fire_state e s =
     (let ts = ss_transitions s @ [e];
          ts' = (if length ts > maxTransitions then drop (length ts - maxTransitions) ts else ts)
      in s\<lparr>ss_state := StateFiring, ss_firing_since := e, ss_pending_since := zero_time,
           ss_recovering_since := zero_time, ss_transitions := ts',
           ss_last_notified_at := e, ss_renotify_count := 0\<rparr>)"

definition quiet :: "'i series_state \<Rightarrow> 'i step_outcome" where
  "quiet s = \<lparr>so_next = s, so_transition = '''', so_open = False, so_resolve = '''',
              so_flapping = False, so_persist = False, so_delete = False\<rparr>"

definition fired :: "gtime \<Rightarrow> 'i series_state \<Rightarrow> 'i step_outcome" where
  "fired e s = (quiet (fire_state e s))\<lparr>so_open := True, so_transition := StateFiring\<rparr>"

text \<open>A firing series whose value has recovered: the recovery hold, extended while flapping.\<close>

definition recover_step ::
    "gtime \<Rightarrow> step_config \<Rightarrow> string \<Rightarrow> 'i series_state \<Rightarrow> 'i step_outcome" where
  "recover_step e cfg missingResolve s =
     (let fh = seconds (fl_hold_seconds (sc_flapping cfg));
          flap = (missingResolve = '''' \<and> isFlapping (ss_transitions s) e (sc_flapping cfg) \<and>
                  fh > sc_recovery_for cfg);
          hold = (if missingResolve \<noteq> '''' then 0 else if flap then fh else sc_recovery_for cfg);
          s1 = (if ss_recovering_since s = zero_time then s\<lparr>ss_recovering_since := e\<rparr> else s)
      in if time_sub e (ss_recovering_since s1) \<ge> hold
         then (quiet (resetToOK s1))\<lparr>so_flapping := flap, so_transition := ''resolved'',
                so_resolve := (if missingResolve \<noteq> '''' then missingResolve else ReasonRecovered)\<rparr>
         else (quiet s1)\<lparr>so_flapping := flap\<rparr>)"

definition step_switch ::
    "gtime \<Rightarrow> step_config \<Rightarrow> bool \<Rightarrow> bool \<Rightarrow> string \<Rightarrow> 'i series_state \<Rightarrow> 'i step_outcome" where
  "step_switch e cfg breach recovered missingResolve s =
     (if ss_state s = StateOK then
        (if breach then
           (if sc_for cfg \<le> 0 then fired e s
            else (quiet (s\<lparr>ss_state := StatePending, ss_pending_since := e\<rparr>))
                   \<lparr>so_transition := StatePending\<rparr>)
         else quiet s)
      else if ss_state s = StatePending then
        (if breach \<and> time_sub e (ss_pending_since s) \<ge> sc_for cfg then fired e s
         else if breach then quiet s
         else (quiet (s\<lparr>ss_state := StateOK, ss_pending_since := zero_time\<rparr>))
                \<lparr>so_transition := StateOK\<rparr>)
      else if ss_state s = StateFiring then
        (if breach then quiet (s\<lparr>ss_recovering_since := zero_time\<rparr>)
         else if recovered then recover_step e cfg missingResolve s
         else quiet (s\<lparr>ss_recovering_since := zero_time\<rparr>))
      else quiet s)"

definition step_end ::
    "'i series_state \<Rightarrow> step_config \<Rightarrow> 'i step_outcome \<Rightarrow> 'i step_outcome" where
  "step_end prev cfg out =
     (let s = (if fl_enabled (sc_flapping cfg) then so_next out
               else (so_next out)\<lparr>ss_transitions := []\<rparr>);
          out1 = out\<lparr>so_next := s\<rparr>
      in if ss_state s \<noteq> StateOK then out1\<lparr>so_persist := True\<rparr>
         else if ss_transitions s \<noteq> [] then out1\<lparr>so_persist := True\<rparr>
         else out1\<lparr>so_delete := (ss_state prev \<noteq> '''' \<or> ss_incident_id prev \<noteq> '''')\<rparr>)"

definition Step ::
    "'i series_state \<Rightarrow> step_input \<Rightarrow> step_config \<Rightarrow> 'i step_outcome" where
  "Step prev inp cfg =
     (case observe (step_begin prev inp cfg) inp cfg of
        (s, Keep) \<Rightarrow> (quiet s)\<lparr>so_persist := (ss_state s \<noteq> StateOK)\<rparr>
      | (s, Verdict breach recovered missingResolve) \<Rightarrow>
          step_end prev cfg (step_switch (si_end inp) cfg breach recovered missingResolve s))"

lemmas step_defs = Step_def step_begin_def observe_def step_switch_def step_end_def fired_def
  fire_state_def quiet_def recover_step_def resetToOK_def Let_def

section \<open>Basic facts\<close>

lemma step_begin_frame [simp]:
  "ss_state (step_begin p i c) = state_of p"
  "ss_firing_since (step_begin p i c) = ss_firing_since p"
  "ss_recovering_since (step_begin p i c) = ss_recovering_since p"
  "ss_last_seen_at (step_begin p i c) = ss_last_seen_at p"
  "ss_last_notified_at (step_begin p i c) = ss_last_notified_at p"
  "ss_renotify_count (step_begin p i c) = ss_renotify_count p"
  "ss_transitions (step_begin p i c) = pruneTransitions (ss_transitions p) (si_end i) (sc_flapping c)"
  by (simp_all add: step_begin_def Let_def)

lemma observe_frame [simp]:
  "ss_state (fst (observe s i c)) = ss_state s"
  "ss_pending_since (fst (observe s i c)) = ss_pending_since s"
  "ss_firing_since (fst (observe s i c)) = ss_firing_since s"
  "ss_recovering_since (fst (observe s i c)) = ss_recovering_since s"
  "ss_transitions (fst (observe s i c)) = ss_transitions s"
  "ss_last_notified_at (fst (observe s i c)) = ss_last_notified_at s"
  "ss_renotify_count (fst (observe s i c)) = ss_renotify_count s"
  by (simp_all add: observe_def Let_def)

lemma step_end_frame [simp]:
  "so_open (step_end p c x) = so_open x"
  "so_transition (step_end p c x) = so_transition x"
  "so_resolve (step_end p c x) = so_resolve x"
  "so_flapping (step_end p c x) = so_flapping x"
  "ss_state (so_next (step_end p c x)) = ss_state (so_next x)"
  "ss_pending_since (so_next (step_end p c x)) = ss_pending_since (so_next x)"
  "ss_firing_since (so_next (step_end p c x)) = ss_firing_since (so_next x)"
  "ss_recovering_since (so_next (step_end p c x)) = ss_recovering_since (so_next x)"
  "ss_last_seen_at (so_next (step_end p c x)) = ss_last_seen_at (so_next x)"
  "ss_last_notified_at (so_next (step_end p c x)) = ss_last_notified_at (so_next x)"
  "ss_renotify_count (so_next (step_end p c x)) = ss_renotify_count (so_next x)"
  by (simp_all add: step_end_def Let_def)

text \<open>
  The pivotal case distinction: a step either keeps the series (early return) or runs the switch on
  the observed state.
\<close>

lemma Step_cases:
  obtains (keep) s where "observe (step_begin prev inp cfg) inp cfg = (s, Keep)"
      and "Step prev inp cfg = (quiet s)\<lparr>so_persist := (ss_state s \<noteq> StateOK)\<rparr>"
  | (switch) s breach recovered missing where
      "observe (step_begin prev inp cfg) inp cfg = (s, Verdict breach recovered missing)"
      and "Step prev inp cfg =
             step_end prev cfg (step_switch (si_end inp) cfg breach recovered missing s)"
proof -
  obtain s v where o: "observe (step_begin prev inp cfg) inp cfg = (s, v)" by fastforce
  show ?thesis
  proof (cases v)
    case Keep
    with o show ?thesis by (intro keep [of s]) (simp_all add: Step_def)
  next
    case (Verdict b r m)
    with o show ?thesis by (intro switch [of s b r m]) (simp_all add: Step_def)
  qed
qed

lemma observed_state: "observe (step_begin p i c) i c = (s, v) \<Longrightarrow> ss_state s = state_of p"
  by (metis fst_conv observe_frame(1) step_begin_frame(1))

section \<open>Opening and resolving\<close>

lemma recover_step_open [simp]: "\<not> so_open (recover_step e c m s)"
  by (simp add: recover_step_def quiet_def Let_def)

lemma recover_step_state:
  "ss_state s = StateFiring \<Longrightarrow>
     (if so_resolve (recover_step e c m s) = ''''
      then ss_state (so_next (recover_step e c m s)) = StateFiring
      else ss_state (so_next (recover_step e c m s)) = StateOK)"
  by (simp add: recover_step_def quiet_def resetToOK_def Let_def)

lemma step_switch_open:
  "so_open (step_switch e c b r m s) \<longleftrightarrow>
     ss_state s \<noteq> StateFiring \<and> ss_state (so_next (step_switch e c b r m s)) = StateFiring"
  using recover_step_state [of s e c m]
  by (auto simp: step_switch_def fired_def fire_state_def quiet_def Let_def)

lemma step_switch_resolve:
  "so_resolve (step_switch e c b r m s) \<noteq> '''' \<longleftrightarrow>
     ss_state s = StateFiring \<and> ss_state (so_next (step_switch e c b r m s)) = StateOK"
  using recover_step_state [of s e c m]
  by (auto simp: step_switch_def fired_def fire_state_def quiet_def Let_def split: if_splits)

text \<open>
  C29: an incident is opened by exactly the steps that take a series into firing, and resolved by
  exactly the steps that take a firing series back to ok.
\<close>

theorem Step_open_resolve:
  "(so_open (Step prev inp cfg) \<longleftrightarrow>
      state_of prev \<noteq> StateFiring \<and> ss_state (so_next (Step prev inp cfg)) = StateFiring) \<and>
   (so_resolve (Step prev inp cfg) \<noteq> '''' \<longleftrightarrow>
      state_of prev = StateFiring \<and> ss_state (so_next (Step prev inp cfg)) = StateOK)"
proof (cases rule: Step_cases [of prev inp cfg])
  case (keep s)
  then show ?thesis by (auto simp: quiet_def dest: observed_state)
next
  case (switch s b r m)
  have "ss_state s = state_of prev" using switch(1) by (rule observed_state)
  then show ?thesis
    unfolding switch(2) using step_switch_open step_switch_resolve by (metis step_end_frame(1,3,5))
qed

section \<open>Well-formed series\<close>

text \<open>
  The timers agree with the state: a pending timer runs exactly while pending, a firing series knows
  since when, only a firing series is recovering, and at most ten transitions are remembered.
\<close>

definition series_wf :: "'i series_state \<Rightarrow> bool" where
  "series_wf s \<longleftrightarrow>
     state_of s \<in> {StateOK, StatePending, StateFiring} \<and>
     (ss_pending_since s \<noteq> zero_time \<longleftrightarrow> state_of s = StatePending) \<and>
     (ss_firing_since s \<noteq> zero_time \<longleftrightarrow> state_of s = StateFiring) \<and>
     (ss_recovering_since s \<noteq> zero_time \<longrightarrow> state_of s = StateFiring) \<and>
     length (ss_transitions s) \<le> maxTransitions"

lemma state_of_nonempty: "ss_state s \<noteq> '''' \<Longrightarrow> state_of s = ss_state s"
  by (simp add: state_of_def)

lemma state_of_not_empty [simp]: "state_of s \<noteq> ''''"
  by (simp add: state_of_def)

lemma state_of_frame [simp]:
  "state_of (s\<lparr>ss_transitions := ts\<rparr>) = state_of s"
  "state_of (s\<lparr>ss_pending_since := t\<rparr>) = state_of s"
  "state_of (s\<lparr>ss_recovering_since := t\<rparr>) = state_of s"
  "state_of (fst (observe s i c)) = state_of s"
  by (simp_all add: state_of_def)

lemma state_of_set_state [simp]:
  "v \<noteq> '''' \<Longrightarrow> state_of (s\<lparr>ss_state := v\<rparr>) = v"
  by (simp add: state_of_def)

lemma length_prune: "length (pruneTransitions ts e f) \<le> length ts"
  by (simp add: pruneTransitions_def)

lemma series_wf_begin: "si_end i \<noteq> 0 \<Longrightarrow> series_wf p \<Longrightarrow> series_wf (step_begin p i c)"
  using length_prune [of "ss_transitions p" "si_end i" "sc_flapping c"]
  by (auto simp: series_wf_def step_begin_def Let_def state_of_def)

lemma series_wf_observe: "series_wf s \<Longrightarrow> series_wf (fst (observe s i c))"
  by (simp add: series_wf_def)

lemma series_wf_fire: "e \<noteq> 0 \<Longrightarrow> series_wf s \<Longrightarrow> series_wf (fire_state e s)"
  by (auto simp: series_wf_def fire_state_def state_of_def Let_def)

lemma series_wf_reset: "series_wf s \<Longrightarrow> series_wf (resetToOK s)"
  by (simp add: series_wf_def resetToOK_def state_of_def)

lemma series_wf_recovering:
  "series_wf s \<Longrightarrow> ss_state s = StateFiring \<Longrightarrow> series_wf (s\<lparr>ss_recovering_since := t\<rparr>)"
  by (simp add: series_wf_def state_of_def)

lemma series_wf_recover:
  "series_wf s \<Longrightarrow> ss_state s = StateFiring \<Longrightarrow> series_wf (so_next (recover_step e c m s))"
  by (simp add: recover_step_def quiet_def Let_def series_wf_reset series_wf_recovering)

lemma series_wf_to_pending:
  "e \<noteq> 0 \<Longrightarrow> series_wf s \<Longrightarrow> ss_state s = StateOK \<Longrightarrow>
     series_wf (s\<lparr>ss_state := StatePending, ss_pending_since := e\<rparr>)"
  by (simp add: series_wf_def state_of_def)

lemma series_wf_from_pending:
  "series_wf s \<Longrightarrow> ss_state s = StatePending \<Longrightarrow>
     series_wf (s\<lparr>ss_state := StateOK, ss_pending_since := zero_time\<rparr>)"
  by (simp add: series_wf_def state_of_def)

lemmas series_wf_intros = series_wf_fire series_wf_recover series_wf_to_pending
  series_wf_from_pending series_wf_recovering

lemma series_wf_switch:
  assumes "e \<noteq> 0" and "series_wf s"
  shows "series_wf (so_next (step_switch e c b r m s))"
  using assms by (simp add: step_switch_def fired_def quiet_def series_wf_intros)

lemma series_wf_no_transitions: "series_wf s \<Longrightarrow> series_wf (s\<lparr>ss_transitions := []\<rparr>)"
  by (simp add: series_wf_def)

lemma series_wf_end: "series_wf (so_next x) \<Longrightarrow> series_wf (so_next (step_end p c x))"
  by (simp add: step_end_def Let_def series_wf_no_transitions)

text \<open>
  C30: every evaluation keeps a series well-formed, whatever the value, the missing-data behaviour
  and the rule settings are.
\<close>

theorem Step_preserves_wf:
  assumes "si_end inp \<noteq> zero_time" and "series_wf prev"
  shows "series_wf (so_next (Step prev inp cfg))"
proof (cases rule: Step_cases [of prev inp cfg])
  case (keep s)
  then have "s = fst (observe (step_begin prev inp cfg) inp cfg)" by simp
  then show ?thesis
    using keep(2) series_wf_observe [OF series_wf_begin [OF assms]] by (simp add: quiet_def)
next
  case (switch s b r m)
  then have "s = fst (observe (step_begin prev inp cfg) inp cfg)" by simp
  then have "series_wf s"
    using series_wf_observe [OF series_wf_begin [OF assms]] by simp
  then show ?thesis
    unfolding switch(2) by (intro series_wf_end series_wf_switch assms(1))
qed

section \<open>Runs of evaluations\<close>

fun run_steps :: "'i series_state \<Rightarrow> step_config \<Rightarrow> step_input list \<Rightarrow> 'i series_state" where
  "run_steps s c [] = s"
| "run_steps s c (i # is) = run_steps (so_next (Step s i c)) c is"

lemma run_steps_snoc: "run_steps s c (xs @ [i]) = so_next (Step (run_steps s c xs) i c)"
  by (induction xs arbitrary: s) auto

definition breaching :: "step_config \<Rightarrow> step_input \<Rightarrow> bool" where
  "breaching c i \<longleftrightarrow>
     (if si_present i then Breach (sc_judge c) (si_value i)
      else sc_missing c = ''breach'' \<or>
           sc_missing c = ''zero'' \<and> Breach (sc_judge c) (FNum False 0))"

definition kept_missing :: "step_config \<Rightarrow> step_input \<Rightarrow> bool" where
  "kept_missing c i \<longleftrightarrow>
     \<not> si_present i \<and> sc_missing c \<notin> {''breach'', ''zero'', ''ok'', ''expire''}"

definition recovering_input :: "step_config \<Rightarrow> step_input \<Rightarrow> bool" where
  "recovering_input c i \<longleftrightarrow>
     (if si_present i then Recovered (sc_judge c) (si_value i)
      else sc_missing c = ''zero'' \<and> Recovered (sc_judge c) (FNum False 0))"

definition continuous :: "step_config \<Rightarrow> step_input \<Rightarrow> bool" where
  "continuous c i \<longleftrightarrow>
     si_prev_eval_end i = zero_time \<or>
     time_sub (si_end i) (si_prev_eval_end i) \<le> wrap64 (2 * sc_interval c + sc_delay c)"

lemma observe_verdict:
  "observe s i c = (s', Verdict b r m) \<Longrightarrow> b = breaching c i"
  by (auto simp: observe_def breaching_def Let_def split: if_splits)

lemma observe_recovered:
  "observe s i c = (s', Verdict b True '''') \<Longrightarrow> recovering_input c i"
  by (auto simp: observe_def recovering_input_def Let_def split: if_splits)

lemma observe_keep: "observe s i c = (s', Keep) \<Longrightarrow> kept_missing c i"
  by (auto simp: observe_def kept_missing_def Let_def split: if_splits)

lemma observe_reason:
  "observe s i c = (s', Verdict b r m) \<Longrightarrow> m \<noteq> '''' \<Longrightarrow> r \<and> \<not> b \<and> m \<noteq> ReasonRecovered"
  by (auto simp: observe_def Let_def split: if_splits)

lemma step_begin_pending:
  "ss_pending_since (step_begin p i c) =
     (if state_of p = StatePending \<and> \<not> continuous c i then si_end i else ss_pending_since p)"
  by (auto simp: step_begin_def continuous_def Let_def)

lemma observed_pending:
  "observe (step_begin p i c) i c = (s, v) \<Longrightarrow>
     ss_pending_since s =
       (if state_of p = StatePending \<and> \<not> continuous c i then si_end i else ss_pending_since p)"
  by (metis fst_conv observe_frame(2) step_begin_pending)

lemma switch_to_pending:
  assumes "ss_state (so_next (step_switch e c b r m s)) = StatePending"
  shows "b \<and> (ss_state s = StateOK \<and> ss_pending_since (so_next (step_switch e c b r m s)) = e \<or>
              ss_state s = StatePending \<and>
              ss_pending_since (so_next (step_switch e c b r m s)) = ss_pending_since s)"
  using assms recover_step_state [of s e c m]
  by (auto simp: step_switch_def fired_def fire_state_def quiet_def Let_def split: if_splits)

text \<open>How a series is pending after a step: it just started, it went on, or the timer restarted.\<close>

lemma Step_pending:
  assumes "ss_state (so_next (Step p i c)) = StatePending"
  shows "(breaching c i \<or> kept_missing c i) \<and>
         (if state_of p = StatePending \<and> continuous c i
          then ss_pending_since (so_next (Step p i c)) = ss_pending_since p
          else ss_pending_since (so_next (Step p i c)) = si_end i)"
proof (cases rule: Step_cases [of p i c])
  case (keep s)
  have "ss_state s = StatePending" using assms keep(2) by (simp add: quiet_def)
  then have "state_of p = StatePending" using observed_state [OF keep(1)] by simp
  then show ?thesis
    using observe_keep [OF keep(1)] observed_pending [OF keep(1)] keep(2) by (simp add: quiet_def)
next
  case (switch s b r m)
  have st: "ss_state (so_next (step_switch (si_end i) c b r m s)) = StatePending"
    using assms unfolding switch(2) by simp
  show ?thesis
    using switch_to_pending [OF st] observe_verdict [OF switch(1)] observed_state [OF switch(1)]
      observed_pending [OF switch(1)]
    unfolding switch(2) by auto
qed

lemma switch_opens:
  assumes "so_open (step_switch e c b r m s)"
  shows "b \<and> (ss_state s = StateOK \<and> sc_for c \<le> 0 \<or>
              ss_state s = StatePending \<and> sc_for c \<le> time_sub e (ss_pending_since s))"
  using assms by (auto simp: step_switch_def fired_def quiet_def split: if_splits)

lemma Step_opens:
  assumes "so_open (Step p i c)" and "0 < sc_for c"
  shows "breaching c i \<and> state_of p = StatePending \<and> continuous c i \<and>
         sc_for c \<le> time_sub (si_end i) (ss_pending_since p)"
proof (cases rule: Step_cases [of p i c])
  case (keep s)
  then show ?thesis using assms by (simp add: quiet_def)
next
  case (switch s b r m)
  have "so_open (step_switch (si_end i) c b r m s)" using assms unfolding switch(2) by simp
  from switch_opens [OF this] show ?thesis
    using assms(2) observe_verdict [OF switch(1)] observed_state [OF switch(1)]
      observed_pending [OF switch(1)] by (auto split: if_splits)
qed

definition sustained :: "(step_input \<Rightarrow> bool) \<Rightarrow> (step_input \<Rightarrow> bool) \<Rightarrow> step_input list \<Rightarrow> gtime \<Rightarrow> bool" where
  "sustained P Q ins t \<longleftrightarrow>
     (\<exists>pre mid. ins = pre @ mid \<and> mid \<noteq> [] \<and> t = si_end (hd mid) \<and>
        list_all P mid \<and> list_all Q (tl mid))"

lemma sustained_start: "P i \<Longrightarrow> t = si_end i \<Longrightarrow> sustained P Q (ins @ [i]) t"
  unfolding sustained_def by (intro exI [of _ ins] exI [of _ "[i]"]) simp

lemma sustained_extend:
  assumes "sustained P Q ins t" and "P i" and "Q i"
  shows "sustained P Q (ins @ [i]) t"
proof -
  from assms(1) obtain pre mid where
    "ins = pre @ mid" "mid \<noteq> []" "t = si_end (hd mid)" "list_all P mid" "list_all Q (tl mid)"
    unfolding sustained_def by blast
  with assms(2,3) show ?thesis
    unfolding sustained_def by (intro exI [of _ pre] exI [of _ "mid @ [i]"]) simp
qed

lemma pending_sustained:
  assumes "state_of s0 \<noteq> StatePending" and "state_of (run_steps s0 c ins) = StatePending"
  shows "sustained (\<lambda>i. breaching c i \<or> kept_missing c i) (continuous c) ins
           (ss_pending_since (run_steps s0 c ins))"
  using assms(2)
proof (induction ins rule: rev_induct)
  case Nil
  then show ?case using assms(1) by simp
next
  case (snoc i ins)
  let ?p = "run_steps s0 c ins"
  have "ss_state (so_next (Step ?p i c)) = StatePending"
    using snoc.prems by (simp add: run_steps_snoc state_of_def split: if_splits)
  from Step_pending [OF this] show ?case
    using snoc.IH by (auto simp: run_steps_snoc intro: sustained_start sustained_extend split: if_splits)
qed

text \<open>
  C4: with a positive \<^verbatim>\<open>for\<close> duration, an incident only opens at an evaluation that
  breaches, after a run of evaluations that started at least \<^verbatim>\<open>for\<close> earlier, in which no
  evaluation was healthy and no evaluation gap was longer than twice the interval plus the delay.
\<close>

theorem fires_after_sustained_breach:
  assumes "0 < sc_for cfg" and "state_of s0 \<noteq> StatePending"
    and "so_open (Step (run_steps s0 cfg ins) x cfg)"
  shows "\<exists>pre mid. ins = pre @ mid \<and> mid \<noteq> [] \<and>
           sc_for cfg \<le> time_sub (si_end x) (si_end (hd mid)) \<and>
           breaching cfg x \<and> list_all (\<lambda>i. breaching cfg i \<or> kept_missing cfg i) mid \<and>
           list_all (continuous cfg) (tl mid @ [x])"
proof -
  have o: "breaching cfg x \<and> state_of (run_steps s0 cfg ins) = StatePending \<and> continuous cfg x \<and>
        sc_for cfg \<le> time_sub (si_end x) (ss_pending_since (run_steps s0 cfg ins))"
    by (rule Step_opens [OF assms(3,1)])
  then have "sustained (\<lambda>i. breaching cfg i \<or> kept_missing cfg i) (continuous cfg) ins
               (ss_pending_since (run_steps s0 cfg ins))"
    using pending_sustained assms(2) by blast
  then obtain pre mid where "ins = pre @ mid" "mid \<noteq> []"
    "ss_pending_since (run_steps s0 cfg ins) = si_end (hd mid)"
    "list_all (\<lambda>i. breaching cfg i \<or> kept_missing cfg i) mid" "list_all (continuous cfg) (tl mid)"
    unfolding sustained_def by blast
  with o show ?thesis by (intro exI [of _ pre] exI [of _ mid]) simp
qed

section \<open>Recovery is sustained too\<close>

text \<open>An evaluation that lets a running recovery hold go on: it does not breach, and it recovers or has no data.\<close>

definition holding :: "step_config \<Rightarrow> step_input \<Rightarrow> bool" where
  "holding c i \<longleftrightarrow> \<not> breaching c i \<and> (recovering_input c i \<or> \<not> si_present i)"

lemma kept_holding: "kept_missing c i \<Longrightarrow> holding c i"
  by (auto simp: kept_missing_def holding_def breaching_def)

lemma observe_holding: "observe s i c = (s', Verdict False True m) \<Longrightarrow> holding c i"
  using observe_verdict [of s i c s' False True m] observe_recovered [of s i c s' False]
  by (auto simp: holding_def observe_def Let_def split: if_splits)

lemma switch_recovering:
  assumes "ss_recovering_since (so_next (step_switch e c b r m s)) \<noteq> 0"
    and "ss_recovering_since s \<noteq> 0 \<Longrightarrow> ss_state s = StateFiring"
  shows "ss_state s = StateFiring \<and> \<not> b \<and> r \<and>
         ss_recovering_since (so_next (step_switch e c b r m s)) =
           (if ss_recovering_since s = 0 then e else ss_recovering_since s)"
  using assms
  by (auto simp: step_switch_def fired_def fire_state_def recover_step_def quiet_def resetToOK_def
      Let_def split: if_splits)

lemma observed_recovering:
  "observe (step_begin p i c) i c = (s, v) \<Longrightarrow> ss_recovering_since s = ss_recovering_since p"
  by (metis fst_conv observe_frame(4) step_begin_frame(3))

lemma Step_recovering:
  assumes "series_wf p" and "ss_recovering_since (so_next (Step p i c)) \<noteq> 0"
  shows "holding c i \<and>
         (ss_recovering_since (so_next (Step p i c)) = ss_recovering_since p \<or>
          ss_recovering_since p = 0 \<and> ss_recovering_since (so_next (Step p i c)) = si_end i)"
proof (cases rule: Step_cases [of p i c])
  case (keep s)
  then show ?thesis
    using kept_holding [OF observe_keep [OF keep(1)]] observed_recovering [OF keep(1)]
    by (simp add: quiet_def)
next
  case (switch s b r m)
  have rs: "ss_recovering_since s = ss_recovering_since p"
    using switch(1) by (rule observed_recovering)
  have ne: "ss_recovering_since (so_next (step_switch (si_end i) c b r m s)) \<noteq> 0"
    using assms(2) unfolding switch(2) by simp
  have "ss_recovering_since s \<noteq> 0 \<Longrightarrow> ss_state s = StateFiring"
    using assms(1) rs observed_state [OF switch(1)] by (simp add: series_wf_def)
  from switch_recovering [OF ne this] show ?thesis
    using observe_holding switch(1) rs unfolding switch(2) by (auto split: if_splits)
qed

lemma run_steps_wf:
  "series_wf s \<Longrightarrow> list_all (\<lambda>i. si_end i \<noteq> 0) ins \<Longrightarrow> series_wf (run_steps s c ins)"
  by (induction ins arbitrary: s) (auto intro: Step_preserves_wf)

lemma recovering_sustained:
  assumes "series_wf s0" and "ss_recovering_since s0 = 0"
    and "list_all (\<lambda>i. si_end i \<noteq> 0) ins"
    and "ss_recovering_since (run_steps s0 c ins) \<noteq> 0"
  shows "sustained (holding c) (\<lambda>_. True) ins (ss_recovering_since (run_steps s0 c ins))"
  using assms(3,4)
proof (induction ins rule: rev_induct)
  case Nil
  then show ?case using assms(2) by simp
next
  case (snoc i ins)
  let ?p = "run_steps s0 c ins"
  have "series_wf ?p" using snoc.prems(1) assms(1) by (intro run_steps_wf) simp_all
  moreover have "ss_recovering_since (so_next (Step ?p i c)) \<noteq> 0"
    using snoc.prems(2) by (simp add: run_steps_snoc)
  ultimately have "holding c i \<and>
         (ss_recovering_since (so_next (Step ?p i c)) = ss_recovering_since ?p \<or>
          ss_recovering_since ?p = 0 \<and> ss_recovering_since (so_next (Step ?p i c)) = si_end i)"
    by (rule Step_recovering)
  then show ?case
    using snoc.IH snoc.prems
    by (auto simp: run_steps_snoc intro: sustained_start sustained_extend)
qed

lemma switch_resolves_recovered:
  assumes "so_resolve (step_switch e c b r m s) = ReasonRecovered" and "m \<noteq> ReasonRecovered"
  shows "\<not> b \<and> r \<and> m = '''' \<and>
         sc_recovery_for c \<le> time_sub e (if ss_recovering_since s = 0 then e else ss_recovering_since s)"
  using assms
  by (auto simp: step_switch_def fired_def recover_step_def quiet_def Let_def split: if_splits)

lemma Step_resolves_recovered:
  assumes "so_resolve (Step p i c) = ReasonRecovered"
  shows "\<not> breaching c i \<and> recovering_input c i \<and>
         sc_recovery_for c \<le> time_sub (si_end i)
           (if ss_recovering_since p = 0 then si_end i else ss_recovering_since p)"
proof (cases rule: Step_cases [of p i c])
  case (keep s)
  then show ?thesis using assms by (simp add: quiet_def)
next
  case (switch s b r m)
  have "so_resolve (step_switch (si_end i) c b r m s) = ReasonRecovered"
    using assms unfolding switch(2) by simp
  moreover have "m \<noteq> ReasonRecovered" using observe_reason [OF switch(1)] by blast
  ultimately have "\<not> b \<and> r \<and> m = '''' \<and> sc_recovery_for c \<le> time_sub (si_end i)
       (if ss_recovering_since s = 0 then si_end i else ss_recovering_since s)"
    by (rule switch_resolves_recovered)
  then show ?thesis
    using observe_verdict [OF switch(1)] observe_recovered [of _ i c s b] switch(1)
      observed_recovering [OF switch(1)] by auto
qed

text \<open>
  C14: an incident resolves as recovered only at an evaluation whose value recovered, after a run of
  evaluations that started at least the recovery duration earlier and in which no evaluation
  breached or fell back into the hysteresis band.
\<close>

theorem resolves_after_sustained_recovery:
  assumes "series_wf s0" and "ss_recovering_since s0 = zero_time"
    and "list_all (\<lambda>i. si_end i \<noteq> zero_time) ins"
    and "so_resolve (Step (run_steps s0 cfg ins) x cfg) = ReasonRecovered"
  shows "\<exists>pre mid. ins @ [x] = pre @ mid \<and> mid \<noteq> [] \<and>
           sc_recovery_for cfg \<le> time_sub (si_end x) (si_end (hd mid)) \<and>
           recovering_input cfg x \<and> list_all (holding cfg) mid"
proof -
  let ?p = "run_steps s0 cfg ins"
  have r: "\<not> breaching cfg x \<and> recovering_input cfg x \<and>
         sc_recovery_for cfg \<le> time_sub (si_end x)
           (if ss_recovering_since ?p = 0 then si_end x else ss_recovering_since ?p)"
    by (rule Step_resolves_recovered [OF assms(4)])
  then have hx: "holding cfg x" by (simp add: holding_def)
  have "sustained (holding cfg) (\<lambda>_. True) (ins @ [x])
          (if ss_recovering_since ?p = 0 then si_end x else ss_recovering_since ?p)"
    using recovering_sustained [OF assms(1-3)] hx
    by (auto intro: sustained_start sustained_extend)
  then obtain pre mid where "ins @ [x] = pre @ mid" "mid \<noteq> []" "list_all (holding cfg) mid"
    "(if ss_recovering_since ?p = 0 then si_end x else ss_recovering_since ?p) = si_end (hd mid)"
    unfolding sustained_def by blast
  with r show ?thesis by (intro exI [of _ pre] exI [of _ mid]) simp
qed

section \<open>The stored row is a faithful abstraction of the series\<close>

text \<open>
  Between two evaluations only the stored row survives: \<^verbatim>\<open>BuildPlan\<close> starts from the row, or
  from a fresh state when there is none, and afterwards upserts the row (\<open>Persist\<close>), deletes it
  (\<open>Delete\<close>) or leaves it alone.
\<close>

definition fresh_series :: "string \<Rightarrow> (string \<rightharpoonup> string) \<Rightarrow> 'i series_state" where
  "fresh_series k ls =
     \<lparr>ss_key = k, ss_labels = ls, ss_state = '''', ss_pending_since = zero_time,
      ss_firing_since = zero_time, ss_recovering_since = zero_time, ss_last_value = FNaN,
      ss_last_seen_at = zero_time, ss_incident_id = '''', ss_transitions = [],
      ss_last_notified_at = zero_time, ss_renotify_count = 0, ss_incident = None\<rparr>"

definition load_row ::
    "string \<Rightarrow> (string \<rightharpoonup> string) \<Rightarrow> 'i series_state option \<Rightarrow> 'i series_state" where
  "load_row k ls row = (case row of None \<Rightarrow> fresh_series k ls | Some s \<Rightarrow> s)"

definition store_row ::
    "'i series_state option \<Rightarrow> 'i step_outcome \<Rightarrow> 'i series_state option" where
  "store_row row out =
     (if so_persist out then Some (so_next out)
      else if so_delete out \<and> row \<noteq> None then None else row)"

type_synonym observation = "string \<times> bool \<times> string \<times> bool \<times> string"

definition obs :: "'i step_outcome \<Rightarrow> observation" where
  "obs out = (so_transition out, so_open out, so_resolve out, so_flapping out,
              state_of (so_next out))"

fun outcomes_mem :: "'i series_state \<Rightarrow> step_config \<Rightarrow> step_input list \<Rightarrow> observation list" where
  "outcomes_mem s c [] = []"
| "outcomes_mem s c (i # is) = obs (Step s i c) # outcomes_mem (so_next (Step s i c)) c is"

fun outcomes_store ::
    "string \<Rightarrow> (string \<rightharpoonup> string) \<Rightarrow> 'i series_state option \<Rightarrow> step_config \<Rightarrow> step_input list \<Rightarrow>
     observation list" where
  "outcomes_store k ls row c [] = []"
| "outcomes_store k ls row c (i # is) =
     obs (Step (load_row k ls row) i c) #
     outcomes_store k ls (store_row row (Step (load_row k ls row) i c)) c is"

text \<open>What the switch reads and writes, and the simulation between memory and row at time \<open>e\<close>.\<close>

definition core :: "'i series_state \<Rightarrow> string \<times> gtime \<times> gtime \<times> gtime \<times> gtime list" where
  "core s = (ss_state s, ss_pending_since s, ss_firing_since s, ss_recovering_since s,
             ss_transitions s)"

definition sim :: "step_config \<Rightarrow> gtime \<Rightarrow> 'i series_state \<Rightarrow> 'j series_state \<Rightarrow> bool" where
  "sim c e a b \<longleftrightarrow>
     state_of a = state_of b \<and> ss_pending_since a = ss_pending_since b \<and>
     ss_firing_since a = ss_firing_since b \<and> ss_recovering_since a = ss_recovering_since b \<and>
     (state_of a \<noteq> StateOK \<longrightarrow> sc_missing c \<notin> {''breach'', ''zero'', ''ok'', ''expire''} \<longrightarrow>
        ss_last_seen_at a = ss_last_seen_at b) \<and>
     (\<forall>e' \<ge> e. pruneTransitions (ss_transitions a) e' (sc_flapping c) =
               pruneTransitions (ss_transitions b) e' (sc_flapping c))"

lemma begin_core: "sim c e a b \<Longrightarrow> e \<le> si_end i \<Longrightarrow> core (step_begin a i c) = core (step_begin b i c)"
  by (auto simp: sim_def core_def step_begin_def Let_def)

lemma observe_core: "core (fst (observe s i c)) = core s"
  by (simp add: core_def)

lemma observe_same_verdict:
  assumes "sim c e a b" and "ss_state s = state_of a" and "ss_state t = state_of b"
    and "ss_last_seen_at s = ss_last_seen_at a" and "ss_last_seen_at t = ss_last_seen_at b"
  shows "snd (observe s i c) = snd (observe t i c)"
  using assms by (auto simp: observe_def sim_def Let_def)

lemma recover_core:
  assumes "core s = core t"
  shows "core (so_next (recover_step e c m s)) = core (so_next (recover_step e c m t)) \<and>
         so_transition (recover_step e c m s) = so_transition (recover_step e c m t) \<and>
         so_resolve (recover_step e c m s) = so_resolve (recover_step e c m t) \<and>
         so_flapping (recover_step e c m s) = so_flapping (recover_step e c m t)"
  using assms by (auto simp: core_def recover_step_def quiet_def resetToOK_def Let_def)

lemma fire_core: "core s = core t \<Longrightarrow> core (fire_state e s) = core (fire_state e t)"
  by (auto simp: core_def fire_state_def Let_def)

lemma switch_core:
  assumes "core s = core t"
  shows "core (so_next (step_switch e c b r m s)) = core (so_next (step_switch e c b r m t))"
    and "so_transition (step_switch e c b r m s) = so_transition (step_switch e c b r m t)"
    and "so_open (step_switch e c b r m s) = so_open (step_switch e c b r m t)"
    and "so_resolve (step_switch e c b r m s) = so_resolve (step_switch e c b r m t)"
    and "so_flapping (step_switch e c b r m s) = so_flapping (step_switch e c b r m t)"
  using assms recover_core [OF assms, of e c m] fire_core [OF assms, of e]
  by (auto simp: core_def step_switch_def fired_def quiet_def)

lemma end_core: "core (so_next x) = core (so_next y) \<Longrightarrow>
    core (so_next (step_end p c x)) = core (so_next (step_end q c y))"
  by (auto simp: core_def step_end_def Let_def)

lemma core_state_of: "core s = core t \<Longrightarrow> state_of s = state_of t"
  by (simp add: core_def state_of_def)

text \<open>Which part of the last-seen time a step keeps.\<close>

lemma switch_last_seen [simp]:
  "ss_last_seen_at (so_next (step_switch e c b r m s)) = ss_last_seen_at s"
  by (simp add: step_switch_def fired_def fire_state_def recover_step_def quiet_def resetToOK_def Let_def)

lemma Step_core:
  assumes "sim c e a b" and "e \<le> si_end i"
  shows "obs (Step a i c) = obs (Step b i c) \<and> core (so_next (Step a i c)) = core (so_next (Step b i c))"
proof -
  let ?a = "step_begin a i c" and ?b = "step_begin b i c"
  have co: "core (fst (observe ?a i c)) = core (fst (observe ?b i c))"
    using begin_core [OF assms] by (simp only: observe_core)
  have v: "snd (observe ?a i c) = snd (observe ?b i c)"
    using observe_same_verdict [OF assms(1), of ?a ?b i] by simp
  obtain s t w where oa: "observe ?a i c = (s, w)" and ob: "observe ?b i c = (t, w)"
    using v by (metis prod.collapse)
  have st: "core s = core t" using co oa ob by simp
  show ?thesis
  proof (cases w)
    case Keep
    then show ?thesis
      using oa ob st core_state_of [OF st] by (simp add: Step_def obs_def quiet_def)
  next
    case (Verdict br r m)
    have ea: "Step a i c = step_end a c (step_switch (si_end i) c br r m s)"
      and eb: "Step b i c = step_end b c (step_switch (si_end i) c br r m t)"
      using oa ob Verdict by (simp_all add: Step_def)
    have ec: "core (so_next (Step a i c)) = core (so_next (Step b i c))"
      unfolding ea eb by (intro end_core switch_core st)
    then show ?thesis
      using switch_core [OF st, of "si_end i" c br r m] core_state_of [OF ec]
      by (simp add: obs_def ea eb)
  qed
qed

lemma Step_last_seen:
  "ss_last_seen_at (so_next (Step p i c)) =
     (if si_present i \<or> sc_missing c = ''zero'' then si_end i else ss_last_seen_at p)"
proof -
  have "ss_last_seen_at (fst (observe (step_begin p i c) i c)) =
     (if si_present i \<or> sc_missing c = ''zero'' then si_end i else ss_last_seen_at p)"
    by (simp add: observe_def Let_def)
  then show ?thesis
    by (cases rule: Step_cases [of p i c]) (simp_all add: quiet_def)
qed

lemma Step_not_ok:
  assumes "state_of (so_next (Step p i c)) \<noteq> StateOK" and "\<not> breaching c i"
  shows "state_of p \<noteq> StateOK"
proof (cases rule: Step_cases [of p i c])
  case (keep s)
  then show ?thesis
    using assms observed_state [OF keep(1)] by (auto simp: quiet_def state_of_def split: if_splits)
next
  case (switch s b r m)
  have "\<not> b" using assms(2) observe_verdict [OF switch(1)] by simp
  moreover have "ss_state (so_next (step_switch (si_end i) c b r m s)) \<noteq> StateOK"
    using assms(1) unfolding switch(2) by (auto simp: state_of_def split: if_splits)
  ultimately have "ss_state s \<noteq> StateOK" by (auto simp: step_switch_def quiet_def)
  then show ?thesis using observed_state [OF switch(1)] by simp
qed

lemma Step_sim:
  assumes "sim c e a b" and "e \<le> si_end i"
  shows "sim c (si_end i) (so_next (Step a i c)) (so_next (Step b i c))"
proof -
  have co: "core (so_next (Step a i c)) = core (so_next (Step b i c))"
    using Step_core [OF assms] by simp
  have "ss_last_seen_at (so_next (Step a i c)) = ss_last_seen_at (so_next (Step b i c))"
    if "state_of (so_next (Step a i c)) \<noteq> StateOK"
      and k: "sc_missing c \<notin> {''breach'', ''zero'', ''ok'', ''expire''}"
  proof (cases "si_present i")
    case False
    then have "\<not> breaching c i" using k by (simp add: breaching_def)
    then have "state_of a \<noteq> StateOK" using Step_not_ok that(1) by blast
    then show ?thesis using assms(1) k by (simp add: Step_last_seen sim_def)
  qed (simp add: Step_last_seen)
  then show ?thesis
    using co core_state_of [OF co] by (simp add: sim_def core_def)
qed

lemma sim_refl: "sim c e a a"
  by (simp add: sim_def)

lemma sim_trans: "sim c e a b \<Longrightarrow> sim c e b d \<Longrightarrow> sim c e a d"
  by (auto simp: sim_def)

lemma sim_fresh:
  "series_wf s \<Longrightarrow> state_of s = StateOK \<Longrightarrow> ss_transitions s = [] \<Longrightarrow> sim c e s (fresh_series k ls)"
  by (auto simp: sim_def series_wf_def fresh_series_def state_of_def)

lemma prune_prune:
  "e \<le> e' \<Longrightarrow> pruneTransitions (pruneTransitions ts e f) e' f = pruneTransitions ts e' f"
  unfolding pruneTransitions_def filter_filter
  by (rule filter_cong) (auto dest: order_trans [OF time_sub_mono_left])

definition row_ok :: "'i series_state option \<Rightarrow> bool" where
  "row_ok row \<longleftrightarrow> (case row of None \<Rightarrow> True | Some r \<Rightarrow> ss_state r \<noteq> '''' \<and> series_wf r)"

lemma fresh_wf: "series_wf (fresh_series k ls)"
  by (simp add: series_wf_def fresh_series_def state_of_def)

lemma load_row_wf: "row_ok row \<Longrightarrow> series_wf (load_row k ls row)"
  by (auto simp: row_ok_def load_row_def fresh_wf split: option.splits)

lemma observe_keep_id: "observe s i c = (s', Keep) \<Longrightarrow> s' = s"
  by (auto simp: observe_def Let_def split: if_splits)

lemma keep_sim:
  assumes "ss_state s = StateOK" and "observe (step_begin b i c) i c = (s, Keep)"
  shows "sim c (si_end i) s b"
proof -
  have "s = step_begin b i c" using observe_keep_id [OF assms(2)] .
  moreover have "state_of b = StateOK" using assms observed_state by metis
  ultimately show ?thesis
    by (simp add: sim_def step_begin_pending prune_prune) (simp add: state_of_def)
qed

lemma step_end_not_persist:
  assumes "\<not> so_persist (step_end p c x)"
  shows "ss_state (so_next (step_end p c x)) = StateOK \<and>
         ss_transitions (so_next (step_end p c x)) = [] \<and>
         so_delete (step_end p c x) = (ss_state p \<noteq> '''' \<or> ss_incident_id p \<noteq> '''')"
  using assms by (auto simp: step_end_def Let_def split: if_splits)

lemma Step_state_nonempty: "ss_state (so_next (Step p i c)) \<noteq> ''''"
proof (cases rule: Step_cases [of p i c])
  case (keep s)
  then show ?thesis using observed_state [OF keep(1)] by (simp add: quiet_def)
next
  case (switch s b r m)
  then have "ss_state s \<noteq> ''''" using observed_state [OF switch(1)] by simp
  then show ?thesis
    unfolding switch(2)
    by (simp add: step_switch_def fired_def fire_state_def recover_step_def quiet_def
        resetToOK_def Let_def)
qed

text \<open>Writing the row after a step loses nothing a later step could see.\<close>

lemma store_sim:
  assumes ok: "row_ok row" and e: "si_end i \<noteq> 0"
  shows "sim c (si_end i) (so_next (Step (load_row k ls row) i c))
           (load_row k ls (store_row row (Step (load_row k ls row) i c))) \<and>
         row_ok (store_row row (Step (load_row k ls row) i c))"
proof -
  let ?b = "load_row k ls row"
  let ?out = "Step ?b i c"
  have wf: "series_wf (so_next ?out)"
    by (rule Step_preserves_wf [OF e load_row_wf [OF ok]])
  show ?thesis
  proof (cases "so_persist ?out")
    case True
    then show ?thesis
      using wf Step_state_nonempty [of ?b i c]
      by (simp add: store_row_def load_row_def row_ok_def sim_refl)
  next
    case np: False
    show ?thesis
    proof (cases rule: Step_cases [of ?b i c])
      case (keep s)
      then have "store_row row ?out = row" and "ss_state s = StateOK"
        using np by (auto simp: store_row_def quiet_def)
      then show ?thesis
        using keep_sim [OF _ keep(1)] ok keep(2) by (simp add: quiet_def)
    next
      case (switch s b r m)
      have fin: "state_of (so_next ?out) = StateOK" "ss_transitions (so_next ?out) = []"
        "so_delete ?out = (ss_state ?b \<noteq> '''' \<or> ss_incident_id ?b \<noteq> '''')"
        using np step_end_not_persist [of ?b c] unfolding switch(2) by (auto simp: state_of_def)
      have "store_row row ?out = None"
        using np fin(3) ok
        by (auto simp: store_row_def load_row_def row_ok_def split: option.splits)
      then show ?thesis
        using sim_fresh [OF wf fin(1,2)] by (simp add: load_row_def row_ok_def)
    qed
  qed
qed

lemma outcomes_sim:
  assumes "sim c e a (load_row k ls row)" and "row_ok row"
    and "sorted (e # map si_end ins)" and "list_all (\<lambda>i. si_end i \<noteq> 0) ins"
  shows "outcomes_mem a c ins = outcomes_store k ls row c ins"
  using assms
proof (induction ins arbitrary: a row e)
  case (Cons i ins)
  let ?b = "load_row k ls row"
  have le: "e \<le> si_end i" using Cons.prems(3) by simp
  have "sim c (si_end i) (so_next (Step a i c)) (so_next (Step ?b i c))"
    using Cons.prems(1) le by (rule Step_sim)
  moreover have "sim c (si_end i) (so_next (Step ?b i c)) (load_row k ls (store_row row (Step ?b i c)))"
    and "row_ok (store_row row (Step ?b i c))"
    using store_sim [OF Cons.prems(2)] Cons.prems(4) by auto
  ultimately have "outcomes_mem (so_next (Step a i c)) c ins =
      outcomes_store k ls (store_row row (Step ?b i c)) c ins"
    using Cons.prems(3,4) by (intro Cons.IH [of "si_end i"]) (auto intro: sim_trans)
  then show ?case using Step_core [OF Cons.prems(1) le] by simp
qed simp


section \<open>Concrete runs\<close>

text \<open>
  A rule \<open>value > 5\<close> with \<^verbatim>\<open>for\<close> and recovery durations of one minute, evaluated every
  30 seconds, and evaluations of it at the given second.
\<close>

definition demo_cfg :: step_config where
  "demo_cfg =
     \<lparr>sc_judge = \<lparr>jd_operator = ''gt'', jd_threshold = FNum False 5, jd_recovery = FNum False 5\<rparr>,
      sc_for = 60 * 1000000000, sc_recovery_for = 60 * 1000000000,
      sc_interval = 30 * 1000000000, sc_delay = 0,
      sc_flapping = DefaultFlapping, sc_missing = ''keep'', sc_expire_after = 0\<rparr>"

definition demo_input :: "int \<Rightarrow> rat \<Rightarrow> step_input" where
  "demo_input t v =
     \<lparr>si_end = t * 1000000000, si_prev_eval_end = (t - 30) * 1000000000, si_present = True,
      si_value = FNum False v\<rparr>"

definition demo_series :: "nat series_state" where
  "demo_series = fresh_series ''cpu'' Map.empty"

lemmas demo_defs = demo_cfg_def demo_input_def demo_series_def fresh_series_def DefaultFlapping_def
  Breach_def Recovered_def compare_op_def pruneTransitions_def flap_window_def seconds_def
  isFlapping_def wrap64_def time_sub_def min_int64_def max_int64_def second_def state_of_def
  step_defs

lemma demo_pending:
  "Step demo_series (demo_input 300 9) demo_cfg =
     \<lparr>so_next = demo_series\<lparr>ss_state := ''pending'', ss_pending_since := 300000000000,
        ss_last_value := FNum False 9, ss_last_seen_at := 300000000000\<rparr>,
      so_transition = ''pending'', so_open = False, so_resolve = '''', so_flapping = False,
      so_persist = True, so_delete = False\<rparr>"
  by (simp add: demo_defs)

theorem Step_preserves_wf_witness:
  "series_wf (so_next (Step demo_series (demo_input 300 9) demo_cfg))"
  by (rule Step_preserves_wf) (simp_all add: demo_input_def demo_series_def fresh_wf)

lemma demo_opens:
  "so_open (Step (run_steps demo_series demo_cfg [demo_input 300 9, demo_input 330 8])
     (demo_input 360 7) demo_cfg)"
  by (simp add: demo_pending) (simp add: demo_defs)

theorem fires_after_sustained_breach_witness:
  "\<exists>pre mid. [demo_input 300 9, demo_input 330 8] = pre @ mid \<and> mid \<noteq> [] \<and>
     sc_for demo_cfg \<le> time_sub (si_end (demo_input 360 7)) (si_end (hd mid)) \<and>
     breaching demo_cfg (demo_input 360 7) \<and>
     list_all (\<lambda>i. breaching demo_cfg i \<or> kept_missing demo_cfg i) mid \<and>
     list_all (continuous demo_cfg) (tl mid @ [demo_input 360 7])"
proof (rule fires_after_sustained_breach [OF _ _ demo_opens])
  show "0 < sc_for demo_cfg" by (simp add: demo_cfg_def)
  show "state_of demo_series \<noteq> StatePending" by (simp add: demo_series_def fresh_series_def state_of_def)
qed

definition demo_firing :: "nat series_state" where
  "demo_firing = demo_series\<lparr>ss_state := ''firing'', ss_firing_since := 300000000000,
     ss_last_notified_at := 300000000000\<rparr>"

lemma demo_resolves:
  "so_resolve (Step (run_steps demo_firing demo_cfg [demo_input 330 3, demo_input 360 2])
     (demo_input 390 1) demo_cfg) = ''recovered''"
  by (simp add: demo_firing_def demo_defs)

theorem resolves_after_sustained_recovery_witness:
  "\<exists>pre mid. [demo_input 330 3, demo_input 360 2] @ [demo_input 390 1] = pre @ mid \<and> mid \<noteq> [] \<and>
     sc_recovery_for demo_cfg \<le> time_sub (si_end (demo_input 390 1)) (si_end (hd mid)) \<and>
     recovering_input demo_cfg (demo_input 390 1) \<and> list_all (holding demo_cfg) mid"
proof (rule resolves_after_sustained_recovery [OF _ _ _ demo_resolves])
  show "series_wf demo_firing" and "ss_recovering_since demo_firing = 0"
    by (simp_all add: demo_firing_def demo_series_def fresh_series_def series_wf_def state_of_def)
  show "list_all (\<lambda>i. si_end i \<noteq> 0) [demo_input 330 3, demo_input 360 2]"
    by (simp add: demo_input_def)
qed


end
