(* ===== verification/GoTime.thy ===== *)
theory GoTime
  imports GoStrings
begin

text \<open>
  The part of Go's \<^verbatim>\<open>time\<close> package the query language uses: the proleptic Gregorian calendar,
  Unix times, and \<^verbatim>\<open>time.Parse\<close> for layouts made of the elements
  \<^verbatim>\<open>2006 01 02 15 04 05 .999999999 Z07:00\<close>.
\<close>

section \<open>Calendar\<close>

definition is_leap :: "int \<Rightarrow> bool" where
  "is_leap y \<longleftrightarrow> y mod 4 = 0 \<and> (y mod 100 \<noteq> 0 \<or> y mod 400 = 0)"

definition days_in :: "int \<Rightarrow> int \<Rightarrow> int" where
  "days_in m y =
     (if m = 2 then (if is_leap y then 29 else 28)
      else if m = 4 \<or> m = 6 \<or> m = 9 \<or> m = 11 then 30 else 31)"

text \<open>Days from January 1 of year 1 to January 1 of year \<open>y\<close>.\<close>

definition days_before_year :: "int \<Rightarrow> int" where
  "days_before_year y = (let p = y - 1 in 365 * p + p div 4 - p div 100 + p div 400)"

definition days_before_month :: "int \<Rightarrow> int \<Rightarrow> int" where
  "days_before_month m y = (\<Sum>k \<leftarrow> [1 .. m - 1]. days_in k y)"

definition date_instant :: "int \<Rightarrow> int \<Rightarrow> int \<Rightarrow> int \<Rightarrow> int \<Rightarrow> int \<Rightarrow> int \<Rightarrow> gtime" where
  "date_instant y mo d h mi s ns =
     ((days_before_year y + days_before_month mo y + (d - 1)) * 86400 + h * 3600 + mi * 60 + s) * second + ns"

definition unix_epoch :: gtime where
  "unix_epoch = 62135596800 * second"

lemma unix_epoch_date: "date_instant 1970 1 1 0 0 0 0 = unix_epoch"
  by (simp add: date_instant_def unix_epoch_def days_before_year_def days_before_month_def Let_def second_def)

definition unix_milli :: "int \<Rightarrow> gtime" where
  "unix_milli ms = unix_epoch + ms * 1000000"

text \<open>\<^verbatim>\<open>UnixMilli\<close> and \<^verbatim>\<open>UnixNano\<close> of an instant; the first rounds down, the second wraps.\<close>

definition to_unix_milli :: "gtime \<Rightarrow> int" where
  "to_unix_milli t = (t - unix_epoch) div 1000000"

definition to_unix_nano :: "gtime \<Rightarrow> int" where
  "to_unix_nano t = wrap64 (t - unix_epoch)"

lemma to_unix_milli_inverse [simp]: "to_unix_milli (unix_milli ms) = ms"
  by (simp add: to_unix_milli_def unix_milli_def)

section \<open>time.Parse\<close>

datatype chunk = CYear | CMonth | CDay | CHour | CMin | CSec | CFrac | CZone

record time_fields =
  tf_year :: int
  tf_month :: int
  tf_day :: int
  tf_hour :: int
  tf_min :: int
  tf_sec :: int
  tf_nsec :: int
  tf_zone :: int

fun skip_prefix :: "nat \<Rightarrow> string \<Rightarrow> string \<Rightarrow> string option" where
  "skip_prefix 0 value p = Some value"
| "skip_prefix (Suc n) value p =
     (case p of
        [] \<Rightarrow> Some value
      | c # cs \<Rightarrow>
          if c = CHR '' '' then
            (if value \<noteq> [] \<and> hd value \<noteq> CHR '' '' then None
             else skip_prefix n (dropWhile (\<lambda>x. x = CHR '' '') value) (dropWhile (\<lambda>x. x = CHR '' '') p))
          else if value = [] \<or> hd value \<noteq> c then None
          else skip_prefix n (tl value) cs)"

definition digit_at :: "string \<Rightarrow> nat \<Rightarrow> bool" where
  "digit_at s i \<longleftrightarrow> i < length s \<and> is_digit (s ! i)"

definition getnum :: "string \<Rightarrow> bool \<Rightarrow> (int \<times> string) option" where
  "getnum s fixed =
     (if \<not> digit_at s 0 then None
      else if \<not> digit_at s 1 then
        (if fixed then None else Some (int (digits_val 0 (take 1 s)), drop 1 s))
      else Some (int (digits_val 0 (take 2 s)), drop 2 s))"

text \<open>The nanoseconds of a fraction \<open>.ddd\<close> of which nine digits count.\<close>

definition frac_digits :: "string \<Rightarrow> string" where
  "frac_digits s = takeWhile is_digit (drop 1 s)"

definition has_frac :: "string \<Rightarrow> bool" where
  "has_frac s \<longleftrightarrow> length s \<ge> 2 \<and> (hd s = CHR ''.'' \<or> hd s = CHR '','') \<and> digit_at s 1"

definition nanoseconds :: "string \<Rightarrow> int" where
  "nanoseconds ds = (let d = take 9 ds in int (digits_val 0 d) * 10 ^ (9 - length d))"

definition read_frac :: "string \<Rightarrow> time_fields \<Rightarrow> (string \<times> time_fields) option" where
  "read_frac v f =
     (if has_frac v
      then Some (drop (1 + length (frac_digits v)) v, f\<lparr>tf_nsec := nanoseconds (frac_digits v)\<rparr>)
      else Some (v, f))"

definition in_bounds :: "int \<Rightarrow> int \<Rightarrow> (int \<times> string) option \<Rightarrow> (int \<times> string) option" where
  "in_bounds lo hi r = (case r of Some (x, v) \<Rightarrow> if lo \<le> x \<and> x \<le> hi then r else None | None \<Rightarrow> None)"

definition read_zone :: "string \<Rightarrow> time_fields \<Rightarrow> (string \<times> time_fields) option" where
  "read_zone v f =
     (if has_prefix v ''Z'' then Some (drop 1 v, f\<lparr>tf_zone := 0\<rparr>)
      else if length v < 6 \<or> v ! 3 \<noteq> CHR '':'' then None
      else case (getnum (take 2 (drop 1 v)) True, getnum (take 2 (drop 4 v)) True) of
             (Some (hr, _), Some (mm, _)) \<Rightarrow>
               if hr > 24 \<or> mm > 60 then None
               else if hd v = CHR ''+'' then Some (drop 6 v, f\<lparr>tf_zone := (hr * 60 + mm) * 60\<rparr>)
               else if hd v = CHR ''-'' then Some (drop 6 v, f\<lparr>tf_zone := - ((hr * 60 + mm) * 60)\<rparr>)
               else None
           | _ \<Rightarrow> None)"

definition read_num :: "(int \<times> string) option \<Rightarrow> (int \<Rightarrow> time_fields) \<Rightarrow> (string \<times> time_fields) option" where
  "read_num r upd = map_option (\<lambda>(x, v). (v, upd x)) r"

definition read_chunk :: "chunk \<Rightarrow> bool \<Rightarrow> string \<Rightarrow> time_fields \<Rightarrow> (string \<times> time_fields) option" where
  "read_chunk c frac_next v f =
     (case c of
        CYear \<Rightarrow>
          if length v < 4 \<or> \<not> list_all is_digit (take 4 v) then None
          else Some (drop 4 v, f\<lparr>tf_year := int (digits_val 0 (take 4 v))\<rparr>)
      | CMonth \<Rightarrow> read_num (in_bounds 1 12 (getnum v True)) (\<lambda>x. f\<lparr>tf_month := x\<rparr>)
      | CDay \<Rightarrow> read_num (getnum v True) (\<lambda>x. f\<lparr>tf_day := x\<rparr>)
      | CHour \<Rightarrow> read_num (in_bounds 0 23 (getnum v False)) (\<lambda>x. f\<lparr>tf_hour := x\<rparr>)
      | CMin \<Rightarrow> read_num (in_bounds 0 59 (getnum v True)) (\<lambda>x. f\<lparr>tf_min := x\<rparr>)
      | CSec \<Rightarrow>
          (case read_num (in_bounds 0 59 (getnum v True)) (\<lambda>x. f\<lparr>tf_sec := x\<rparr>) of
             None \<Rightarrow> None
           | Some (v', f') \<Rightarrow> if frac_next then Some (v', f') else read_frac v' f')
      | CFrac \<Rightarrow> read_frac v f
      | CZone \<Rightarrow> read_zone v f)"

type_synonym layout = "(string \<times> chunk) list"

fun parse_chunks :: "layout \<Rightarrow> string \<Rightarrow> time_fields \<Rightarrow> time_fields option" where
  "parse_chunks [] v f = (if v = [] then Some f else None)"
| "parse_chunks ((pre, c) # rest) v f =
     (case skip_prefix (Suc (length pre)) v pre of
        None \<Rightarrow> None
      | Some v1 \<Rightarrow>
          (case read_chunk c (case rest of (_, CFrac) # _ \<Rightarrow> True | _ \<Rightarrow> False) v1 f of
             None \<Rightarrow> None
           | Some (v2, f2) \<Rightarrow> parse_chunks rest v2 f2))"

definition time_parse :: "layout \<Rightarrow> string \<Rightarrow> gtime option" where
  "time_parse l v =
     (case parse_chunks l v \<lparr>tf_year = 0, tf_month = 1, tf_day = 1, tf_hour = 0, tf_min = 0, tf_sec = 0,
                             tf_nsec = 0, tf_zone = 0\<rparr> of
        None \<Rightarrow> None
      | Some f \<Rightarrow>
          if tf_day f < 1 \<or> tf_day f > days_in (tf_month f) (tf_year f) then None
          else Some (date_instant (tf_year f) (tf_month f) (tf_day f) (tf_hour f) (tf_min f) (tf_sec f) (tf_nsec f)
                     - tf_zone f * second))"

definition RFC3339Nano :: layout where
  "RFC3339Nano = [([], CYear), (''-'', CMonth), (''-'', CDay), (''T'', CHour), ('':'', CMin), ('':'', CSec),
     ([], CFrac), ([], CZone)]"

end
