(* ===== verification/AlertRouting.thy ===== *)
theory AlertRouting
  imports GoTime
begin

text \<open>
  Routing of alert incidents (\<^verbatim>\<open>internal/alert/routes.go\<close> with the clock times of \<^verbatim>\<open>mute_schedule.go\<close>):
  which channels an incident reaches when it opens. The time zone database is a parameter that gives
  the offset of a zone at an instant, and so is \<^verbatim>\<open>strings.ToLower\<close>. The validation of routing rules, which
  the matching does not rely on, is not part of the model.
\<close>

section \<open>Routes\<close>

record channel_ref =
  ch_id :: string
  ch_type :: string
  ch_enabled :: bool

record route_matcher =
  rm_label :: string
  rm_op :: string
  rm_value :: string

record route_window =
  rw_timezone :: string
  rw_days :: "string list"
  rw_start :: string
  rw_end :: string

record route_match =
  ro_severities :: "string list"
  ro_services :: "string list"
  ro_ruleTypes :: "string list"
  ro_labels :: "route_matcher list"
  ro_window :: "route_window option"

record route_target =
  rt_severity :: string
  rt_ruleType :: string
  rt_service :: string
  rt_labels :: "string \<rightharpoonup> string"

record routing_rule =
  rr_id :: string
  rr_enabled :: bool
  rr_isDefault :: bool
  rr_match :: route_match
  rr_channelIDs :: "string list"

record routing =
  rg_rules :: "routing_rule list"
  rg_channels :: "channel_ref list"

text \<open>What the routing takes from the standard library.\<close>

record route_lib =
  rl_zone :: "string \<Rightarrow> (gtime \<Rightarrow> duration) option"
  rl_lower :: "string \<Rightarrow> string"

section \<open>Time windows\<close>

definition weekdays :: "string list" where
  "weekdays = [''sun'', ''mon'', ''tue'', ''wed'', ''thu'', ''fri'', ''sat'']"

fun day_loop :: "string list \<Rightarrow> int \<Rightarrow> string \<Rightarrow> int" where
  "day_loop [] i d = - 1"
| "day_loop (w # ws) i d = (if w = d then i else day_loop ws (i + 1) d)"

definition dayIndex :: "string \<Rightarrow> int" where
  "dayIndex d = day_loop weekdays 0 d"

text \<open>Minutes after midnight; \<open>None\<close> is the validation error.\<close>

definition parseClock :: "string \<Rightarrow> int option" where
  "parseClock v =
     (if length v \<noteq> 5 \<or> v ! 2 \<noteq> CHR '':'' then None
      else case (parse_int64 (take 2 v), parse_int64 (drop 3 v)) of
        (Some h, Some m) \<Rightarrow> if h < 0 \<or> h > 23 \<or> m < 0 \<or> m > 59 then None else Some (h * 60 + m)
      | _ \<Rightarrow> None)"

text \<open>Instants count from January 1 of year 1, a Monday; a week day counts from Sunday.\<close>

definition local_minutes :: "gtime \<Rightarrow> int" where
  "local_minutes t = (t mod (24 * hour)) div minute"

definition local_weekday :: "gtime \<Rightarrow> int" where
  "local_weekday t = (t div (24 * hour) + 1) mod 7"

definition onDay :: "route_window \<Rightarrow> int \<Rightarrow> bool" where
  "onDay w wd \<longleftrightarrow> rw_days w = [] \<or> list_ex (\<lambda>d. dayIndex d = wd) (rw_days w)"

definition window_contains :: "route_lib \<Rightarrow> route_window \<Rightarrow> gtime \<Rightarrow> bool" where
  "window_contains lib w at =
     (case (parseClock (rw_start w), parseClock (rw_end w)) of
        (Some st, Some en) \<Rightarrow>
          if st = en then True
          else
            let t = at + (case rl_zone lib (rw_timezone w) of Some off \<Rightarrow> off at | None \<Rightarrow> 0);
                mins = local_minutes t; wd = local_weekday t
            in if st < en then onDay w wd \<and> mins \<ge> st \<and> mins < en
               else if mins \<ge> st then onDay w wd
               else mins < en \<and> onDay w ((wd + 6) mod 7)
      | _ \<Rightarrow> True)"

section \<open>Matching\<close>

definition matcher_matches :: "route_lib \<Rightarrow> route_matcher \<Rightarrow> (string \<rightharpoonup> string) \<Rightarrow> bool" where
  "matcher_matches lib m labels =
     (if rm_op m = ''neq'' then (case labels (rm_label m) of None \<Rightarrow> True | Some v \<Rightarrow> v \<noteq> rm_value m)
      else if rm_op m = ''contains''
      then (case labels (rm_label m) of None \<Rightarrow> False | Some v \<Rightarrow> str_contains (rl_lower lib v) (rl_lower lib (rm_value m)))
      else (case labels (rm_label m) of None \<Rightarrow> False | Some v \<Rightarrow> v = rm_value m))"

definition route_matches :: "route_lib \<Rightarrow> route_match \<Rightarrow> route_target \<Rightarrow> gtime \<Rightarrow> bool" where
  "route_matches lib m t at =
     (if ro_severities m \<noteq> [] \<and> rt_severity t \<notin> set (ro_severities m) then False
      else if ro_ruleTypes m \<noteq> [] \<and> rt_ruleType t \<notin> set (ro_ruleTypes m) then False
      else if ro_services m \<noteq> [] \<and> rt_service t \<notin> set (ro_services m) then False
      else if \<not> list_all (\<lambda>lm. matcher_matches lib lm (rt_labels t)) (ro_labels m) then False
      else (case ro_window m of None \<Rightarrow> True | Some w \<Rightarrow> window_contains lib w at))"

fun match_rules :: "route_lib \<Rightarrow> route_target \<Rightarrow> gtime \<Rightarrow> routing_rule option \<Rightarrow> routing_rule list \<Rightarrow> routing_rule option" where
  "match_rules lib t at dflt [] = dflt"
| "match_rules lib t at dflt (r # rs) =
     (if \<not> rr_enabled r then match_rules lib t at dflt rs
      else if rr_isDefault r then match_rules lib t at (if dflt = None then Some r else dflt) rs
      else if route_matches lib (rr_match r) t at then Some r
      else match_rules lib t at dflt rs)"

text \<open>A nil routing configuration matches nothing.\<close>

definition Match_route :: "route_lib \<Rightarrow> routing option \<Rightarrow> route_target \<Rightarrow> gtime \<Rightarrow> routing_rule option" where
  "Match_route lib rt t at = (case rt of None \<Rightarrow> None | Some rg \<Rightarrow> match_rules lib t at None (rg_rules rg))"

definition pick_channels :: "channel_ref list \<Rightarrow> string list \<Rightarrow> channel_ref list" where
  "pick_channels chs ids =
     concat (map (\<lambda>i. case find (\<lambda>c. ch_id c = i \<and> ch_enabled c) chs of Some c \<Rightarrow> [c] | None \<Rightarrow> []) ids)"

definition RouteChannels ::
  "route_lib \<Rightarrow> routing option \<Rightarrow> string \<Rightarrow> string \<Rightarrow> (string \<rightharpoonup> string) \<Rightarrow> gtime \<Rightarrow> channel_ref list \<Rightarrow> channel_ref list" where
  "RouteChannels lib rt severity ruleType labels at ruleChannels =
     (let t = \<lparr>rt_severity = severity, rt_ruleType = ruleType,
               rt_service = (case labels ''service.name'' of Some s \<Rightarrow> s | None \<Rightarrow> []), rt_labels = labels\<rparr>
      in case (rt, Match_route lib rt t at) of
           (Some rg, Some r) \<Rightarrow> pick_channels (rg_channels rg) (rr_channelIDs r)
         | _ \<Rightarrow> ruleChannels)"

section \<open>First match\<close>

definition applies :: "route_lib \<Rightarrow> route_target \<Rightarrow> gtime \<Rightarrow> routing_rule \<Rightarrow> bool" where
  "applies lib t at r \<longleftrightarrow> rr_enabled r \<and> \<not> rr_isDefault r \<and> route_matches lib (rr_match r) t at"

lemma match_rules_find:
  "match_rules lib t at dflt rs =
     (case find (applies lib t at) rs of
        Some r \<Rightarrow> Some r
      | None \<Rightarrow> (case dflt of Some d \<Rightarrow> Some d | None \<Rightarrow> find (\<lambda>r. rr_enabled r \<and> rr_isDefault r) rs))"
  by (induction lib t at dflt rs rule: match_rules.induct) (auto simp: applies_def split: option.splits)

lemma find_chosen: "find P xs = Some x \<Longrightarrow> x \<in> set xs \<and> P x"
  by (auto simp: find_Some_iff)

lemma pick_channels_sound:
  "c \<in> set (pick_channels chs ids) \<Longrightarrow> c \<in> set chs \<and> ch_enabled c \<and> ch_id c \<in> set ids"
  by (auto simp: pick_channels_def split: option.splits dest!: find_chosen [OF sym])

lemma pick_channels_complete:
  assumes "c \<in> set chs" and "ch_enabled c" and "ch_id c \<in> set ids"
  shows "\<exists>d\<in>set (pick_channels chs ids). ch_id d = ch_id c"
proof -
  have "find (\<lambda>x. ch_id x = ch_id c \<and> ch_enabled x) chs \<noteq> None"
    using assms(1,2) by (auto simp: find_None_iff)
  then obtain d where d: "find (\<lambda>x. ch_id x = ch_id c \<and> ch_enabled x) chs = Some d" by auto
  then show ?thesis
    using find_chosen [OF d] assms(3) by (auto simp: pick_channels_def split: option.splits intro!: bexI [of _ "ch_id c"])
qed

lemma pick_channels_ids:
  "ch_id ` set (pick_channels chs ids) = ch_id ` {c \<in> set chs. ch_enabled c} \<inter> set ids"
proof
  show "ch_id ` {c \<in> set chs. ch_enabled c} \<inter> set ids \<subseteq> ch_id ` set (pick_channels chs ids)"
  proof
    fix x
    assume "x \<in> ch_id ` {c \<in> set chs. ch_enabled c} \<inter> set ids"
    then obtain c where "c \<in> set chs" "ch_enabled c" "ch_id c \<in> set ids" and x: "x = ch_id c" by auto
    from pick_channels_complete [OF this(1-3)] show "x \<in> ch_id ` set (pick_channels chs ids)" unfolding x by (metis imageI)
  qed
qed (use pick_channels_sound in fastforce)

definition target_of :: "string \<Rightarrow> string \<Rightarrow> (string \<rightharpoonup> string) \<Rightarrow> route_target" where
  "target_of severity ruleType labels =
     \<lparr>rt_severity = severity, rt_ruleType = ruleType,
      rt_service = (case labels ''service.name'' of Some s \<Rightarrow> s | None \<Rightarrow> []), rt_labels = labels\<rparr>"

text \<open>
  C40: the channels of an opening incident are the enabled channels of the first enabled route that applies,
  else those of the first enabled default route, else the channels of the rule. A route all of whose channels
  are disabled therefore leaves the incident without any channel, and the channels of the rule are not used.
\<close>

theorem RouteChannels_first_match:
  "ch_id ` set (RouteChannels lib (Some rg) severity ruleType labels at own) =
     (case find (applies lib (target_of severity ruleType labels) at) (rg_rules rg) of
        Some r \<Rightarrow> ch_id ` {c \<in> set (rg_channels rg). ch_enabled c} \<inter> set (rr_channelIDs r)
      | None \<Rightarrow>
          (case find (\<lambda>r. rr_enabled r \<and> rr_isDefault r) (rg_rules rg) of
             Some d \<Rightarrow> ch_id ` {c \<in> set (rg_channels rg). ch_enabled c} \<inter> set (rr_channelIDs d)
           | None \<Rightarrow> ch_id ` set own))"
  by (simp add: RouteChannels_def Match_route_def match_rules_find target_of_def [symmetric] pick_channels_ids split: option.splits)

end
