(* ===== verification/GoUtf8.thy ===== *)
theory GoUtf8
  imports GoStrings
begin

text \<open>
  UTF-8 as Go's \<^verbatim>\<open>unicode/utf8\<close> sees it: validity, decoding of runes, Unicode white space with
  \<^verbatim>\<open>strings.TrimSpace\<close> and \<^verbatim>\<open>strings.Fields\<close>, and the lower-casing of the non-ASCII runes
  that map to ASCII letters.
\<close>

section \<open>Runes\<close>

definition is_cont :: "char \<Rightarrow> bool" where
  "is_cont c \<longleftrightarrow> 128 \<le> byte c \<and> byte c \<le> 191"

definition in_range :: "nat \<Rightarrow> nat \<Rightarrow> char \<Rightarrow> bool" where
  "in_range lo hi c \<longleftrightarrow> lo \<le> byte c \<and> byte c \<le> hi"

text \<open>The number of bytes of the well-formed rune at the start of a string, \<open>0\<close> when there is none.\<close>

definition rune_len :: "string \<Rightarrow> nat" where
  "rune_len s =
     (case s of
        [] \<Rightarrow> 0
      | a # r \<Rightarrow>
          if byte a < 128 then 1
          else if in_range 194 223 a then (case r of b # _ \<Rightarrow> if is_cont b then 2 else 0 | [] \<Rightarrow> 0)
          else if in_range 224 239 a then
            (case r of
               b # c # _ \<Rightarrow>
                 if in_range (if byte a = 224 then 160 else 128) (if byte a = 237 then 159 else 191) b \<and> is_cont c
                 then 3 else 0
             | _ \<Rightarrow> 0)
          else if in_range 240 244 a then
            (case r of
               b # c # d # _ \<Rightarrow>
                 if in_range (if byte a = 240 then 144 else 128) (if byte a = 244 then 143 else 191) b \<and>
                    is_cont c \<and> is_cont d
                 then 4 else 0
             | _ \<Rightarrow> 0)
          else 0)"

lemma rune_len_le: "rune_len s \<le> length s"
  by (auto simp: rune_len_def split: list.splits)

text \<open>\<^verbatim>\<open>utf8.DecodeRuneInString\<close> on a non-empty string: the rune and its size.\<close>

definition decode_rune :: "string \<Rightarrow> nat \<times> nat" where
  "decode_rune s =
     (let b = (\<lambda>i. byte (s ! i)) in
      if rune_len s = 1 then (b 0, 1)
      else if rune_len s = 2 then ((b 0 - 192) * 64 + (b 1 - 128), 2)
      else if rune_len s = 3 then ((b 0 - 224) * 4096 + (b 1 - 128) * 64 + (b 2 - 128), 3)
      else if rune_len s = 4 then
        ((b 0 - 240) * 262144 + (b 1 - 128) * 4096 + (b 2 - 128) * 64 + (b 3 - 128), 4)
      else (65533, 1))"

lemma decode_rune_size: "s \<noteq> [] \<Longrightarrow> 0 < snd (decode_rune s) \<and> snd (decode_rune s) \<le> length s"
  using rune_len_le [of s] by (cases s) (auto simp: decode_rune_def Let_def)

fun runes_fuel :: "nat \<Rightarrow> string \<Rightarrow> nat list" where
  "runes_fuel 0 s = []"
| "runes_fuel (Suc n) s =
     (if s = [] then [] else fst (decode_rune s) # runes_fuel n (drop (snd (decode_rune s)) s))"

text \<open>The runes of a string, as a Go \<^verbatim>\<open>range\<close> loop sees them; each takes at least one byte.\<close>

definition runes :: "string \<Rightarrow> nat list" where
  "runes s = runes_fuel (length s) s"

fun valid_fuel :: "nat \<Rightarrow> string \<Rightarrow> bool" where
  "valid_fuel 0 s = (s = [])"
| "valid_fuel (Suc n) s = (s = [] \<or> (rune_len s > 0 \<and> valid_fuel n (drop (rune_len s) s)))"

definition valid_utf8 :: "string \<Rightarrow> bool" where
  "valid_utf8 s = valid_fuel (length s) s"

lemma ascii_runes_fuel: "list_all (\<lambda>c. byte c < 128) s \<Longrightarrow> length s \<le> n \<Longrightarrow> runes_fuel n s = map (\<lambda>c. byte c) s"
proof (induction n arbitrary: s)
  case (Suc n)
  then show ?case by (cases s) (auto simp: decode_rune_def rune_len_def Let_def)
qed simp

lemma ascii_runes: "list_all (\<lambda>c. byte c < 128) s \<Longrightarrow> runes s = map (\<lambda>c. byte c) s"
  by (simp add: runes_def ascii_runes_fuel)

section \<open>White space\<close>

text \<open>The size of the white-space rune (\<^verbatim>\<open>unicode.IsSpace\<close>) at the start of a string, or \<open>0\<close>.\<close>

definition is_space_rune :: "nat \<Rightarrow> bool" where
  "is_space_rune r \<longleftrightarrow> (9 \<le> r \<and> r \<le> 13) \<or> r = 32 \<or> r = 133 \<or> r = 160 \<or> r = 5760 \<or>
     (8192 \<le> r \<and> r \<le> 8202) \<or> r = 8232 \<or> r = 8233 \<or> r = 8239 \<or> r = 8287 \<or> r = 12288"

definition space_len :: "string \<Rightarrow> nat" where
  "space_len s = (if s \<noteq> [] \<and> is_space_rune (fst (decode_rune s)) then snd (decode_rune s) else 0)"

lemma space_len_le: "space_len s \<le> length s"
  using decode_rune_size [of s] by (auto simp: space_len_def)

text \<open>The fields of a string: \<open>cur\<close> is the field being read.\<close>

fun fields_fuel :: "nat \<Rightarrow> string \<Rightarrow> string \<Rightarrow> string list" where
  "fields_fuel 0 cur s = (if cur = [] then [] else [cur])"
| "fields_fuel (Suc n) cur s =
     (if s = [] then (if cur = [] then [] else [cur])
      else if space_len s > 0 then (if cur = [] then [] else [cur]) @ fields_fuel n [] (drop (space_len s) s)
      else fields_fuel n (cur @ take (snd (decode_rune s)) s) (drop (snd (decode_rune s)) s))"

definition str_fields :: "string \<Rightarrow> string list" where
  "str_fields s = fields_fuel (length s) [] s"

fun trim_left_fuel :: "nat \<Rightarrow> string \<Rightarrow> string" where
  "trim_left_fuel 0 s = s"
| "trim_left_fuel (Suc n) s = (if space_len s > 0 then trim_left_fuel n (drop (space_len s) s) else s)"

text \<open>
  \<^verbatim>\<open>strings.TrimSpace\<close> on valid UTF-8: the text from the first to the last rune that is not
  white space. Trailing runes are tried in every size, the last one being the longest suffix that is
  one white-space rune.
\<close>

definition trail_len :: "string \<Rightarrow> nat" where
  "trail_len s =
     (case find (\<lambda>k. k \<le> length s \<and> rune_len (drop (length s - k) s) = k \<and>
                     space_len (drop (length s - k) s) = k) [1, 2, 3] of
        Some k \<Rightarrow> k | None \<Rightarrow> 0)"

fun trim_right_fuel :: "nat \<Rightarrow> string \<Rightarrow> string" where
  "trim_right_fuel 0 s = s"
| "trim_right_fuel (Suc n) s =
     (if trail_len s > 0 then trim_right_fuel n (take (length s - trail_len s) s) else s)"

definition trim_space :: "string \<Rightarrow> string" where
  "trim_space s = trim_right_fuel (length s) (trim_left_fuel (length s) s)"

section \<open>Lower case\<close>

text \<open>
  \<^verbatim>\<open>strings.ToLower\<close> as far as a lookup among ASCII names can tell: ASCII letters are lowered, and
  the two other runes whose lower case is an ASCII letter (U+0130 and U+212A) become \<open>i\<close> and
  \<open>k\<close>. Other runes stay non-ASCII either way.
\<close>

fun lower_utf8_fuel :: "nat \<Rightarrow> string \<Rightarrow> string" where
  "lower_utf8_fuel 0 s = []"
| "lower_utf8_fuel (Suc n) s =
     (case s of
        [] \<Rightarrow> []
      | c # r \<Rightarrow>
          if fst (decode_rune s) = 304 then CHR ''i'' # lower_utf8_fuel n (drop 2 s)
          else if fst (decode_rune s) = 8490 then CHR ''k'' # lower_utf8_fuel n (drop 3 s)
          else lower_char c # lower_utf8_fuel n r)"

definition lower_utf8 :: "string \<Rightarrow> string" where
  "lower_utf8 s = lower_utf8_fuel (length s) s"

end
