(* ===== verification/GoFloatText.thy ===== *)
theory GoFloatText
  imports GoFloat
begin

text \<open>
  Text forms of \<^verbatim>\<open>float64\<close>: \<^verbatim>\<open>strconv.ParseFloat(s, 64)\<close> in full (sign, infinities, NaN,
  underscores, hexadecimal mantissas) and \<^verbatim>\<open>strconv.FormatFloat\<close> with the shortest precision in
  the formats \<^verbatim>\<open>'f'\<close> and \<^verbatim>\<open>'g'\<close>.
\<close>

section \<open>Parsing\<close>

definition hex_val :: "char \<Rightarrow> nat" where
  "hex_val c =
     (if is_digit c then byte c - 48
      else if 97 \<le> byte c \<and> byte c \<le> 102 then byte c - 87
      else byte c - 55)"

definition is_hex :: "char \<Rightarrow> bool" where
  "is_hex c \<longleftrightarrow> is_digit c \<or> (97 \<le> byte c \<and> byte c \<le> 102) \<or> (65 \<le> byte c \<and> byte c \<le> 70)"

fun hex_digits_val :: "nat \<Rightarrow> string \<Rightarrow> nat" where
  "hex_digits_val acc [] = acc"
| "hex_digits_val acc (c # cs) = hex_digits_val (16 * acc + hex_val c) cs"

text \<open>\<^verbatim>\<open>strconv.underscoreOK\<close> after the sign: \<open>saw\<close> is \<open>0\<close>, \<open>_\<close> or another mark.\<close>

fun under_loop :: "bool \<Rightarrow> char \<Rightarrow> string \<Rightarrow> bool" where
  "under_loop hex saw [] = (saw \<noteq> CHR ''_'')"
| "under_loop hex saw (c # cs) =
     (if is_digit c \<or> (hex \<and> is_hex c) then under_loop hex CHR ''0'' cs
      else if c = CHR ''_'' then saw = CHR ''0'' \<and> under_loop hex CHR ''_'' cs
      else saw \<noteq> CHR ''_'' \<and> under_loop hex CHR ''!'' cs)"

definition underscoreOK :: "string \<Rightarrow> bool" where
  "underscoreOK s =
     (if length s \<ge> 2 \<and> hd s = CHR ''0'' \<and> lower_char (s ! 1) \<in> {CHR ''b'', CHR ''o'', CHR ''x''}
      then under_loop (lower_char (s ! 1) = CHR ''x'') CHR ''0'' (drop 2 s)
      else under_loop False CHR ''^'' s)"

definition parse_hex_float :: "string \<Rightarrow> rat option" where
  "parse_hex_float s =
     (let m = takeWhile (\<lambda>c. lower_char c \<noteq> CHR ''p'') s;
          ip = takeWhile is_hex m;
          rest = dropWhile is_hex m;
          fp = (case rest of [] \<Rightarrow> Some [] | c # f \<Rightarrow>
                  if c = CHR ''.'' \<and> list_all is_hex f then Some f else None)
      in case (dropWhile (\<lambda>c. lower_char c \<noteq> CHR ''p'') s, fp) of
           (_ # e, Some f) \<Rightarrow>
             (let eneg = has_prefix e ''-'';
                  ds = (if eneg \<or> has_prefix e ''+'' then drop 1 e else e);
                  ev = (if eneg then - int (digits_val 0 ds) else int (digits_val 0 ds))
              in if ip @ f = [] \<or> ds = [] \<or> \<not> list_all is_digit ds then None
                 else Some (of_nat (hex_digits_val 0 (ip @ f)) * 2 powi (ev - 4 * int (length f))))
         | _ \<Rightarrow> None)"

text \<open>
  The value \<^verbatim>\<open>ParseFloat\<close> returns and whether its error is nil: \<open>0\<close> for text that is no number, an
  infinity for a number out of range.
\<close>

definition parse_text :: "string \<Rightarrow> f64 \<times> bool" where
  "parse_text s =
     (let neg = has_prefix s ''-'';
          b = (if neg \<or> has_prefix s ''+'' then drop 1 s else s);
          t = filter (\<lambda>c. c \<noteq> CHR ''_'') b
      in if to_lower b = ''inf'' \<or> to_lower b = ''infinity'' then (FInf neg, True)
         else if to_lower s = ''nan'' then (FNaN, True)
         else if CHR ''_'' \<in> set b \<and> \<not> underscoreOK b then (FNum False 0, False)
         else case (if length t > 2 \<and> to_lower (take 2 t) = ''0x'' then parse_hex_float (drop 2 t)
                    else parse_decimal t) of
                None \<Rightarrow> (FNum False 0, False)
              | Some r \<Rightarrow> (round64 neg r, \<not> is_inf (round64 neg r)))"

definition ParseFloat :: "string \<Rightarrow> f64 option" where
  "ParseFloat s = (case parse_text s of (x, ok) \<Rightarrow> if ok then Some x else None)"

definition ParseFloat_value :: "string \<Rightarrow> f64" where
  "ParseFloat_value s = fst (parse_text s)"

lemma ParseFloat_value_eq: "ParseFloat s = Some x \<Longrightarrow> ParseFloat_value s = x"
  by (auto simp: ParseFloat_def ParseFloat_value_def split: prod.splits if_splits)

lemma round64_num_nonneg: "round64 neg r = FNum a m \<Longrightarrow> 0 \<le> m"
proof -
  assume "round64 neg r = FNum a m"
  then have m: "m = round_mag r" by (auto simp: round64_def Let_def split: if_splits)
  show "0 \<le> m"
  proof (cases "r \<le> 0")
    case False
    then have "0 \<le> \<lfloor>r / 2 powi ulp_exp r\<rfloor>" by simp
    then have "0 \<le> round_half_even (r / 2 powi ulp_exp r)" by (simp add: round_half_even_def Let_def)
    then show ?thesis using m False by (simp add: round_mag_def)
  qed (simp add: m round_mag_def)
qed

lemma ParseFloat_nonneg: "ParseFloat s = Some (FNum a m) \<Longrightarrow> 0 \<le> m"
  by (auto simp: ParseFloat_def parse_text_def Let_def split: option.splits if_splits dest: round64_num_nonneg)

section \<open>Formatting\<close>

definition show_int :: "int \<Rightarrow> string" where
  "show_int n = (if n < 0 then CHR ''-'' # show_nat (nat (- n)) else show_nat (nat n))"

text \<open>The decimal exponent of a positive magnitude: \<open>10 powi e \<le> m < 10 powi (e + 1)\<close>.\<close>

definition dec_exp :: "rat \<Rightarrow> int" where
  "dec_exp m =
     (if m \<ge> 1 then int (length (show_nat (nat \<lfloor>m\<rfloor>))) - 1
      else case find (\<lambda>k. m * 10 ^ k \<ge> 1) [1..<400] of Some k \<Rightarrow> - int k | None \<Rightarrow> - 400)"

text \<open>
  The shortest decimal digits that read back as the same value, and the position of the decimal
  point before which they stand (\<open>0.d1d2d3 * 10 powi dp\<close>).
\<close>

definition reads_back :: "rat \<Rightarrow> int \<Rightarrow> rat \<Rightarrow> bool" where
  "reads_back m d scale \<longleftrightarrow> round64 False (of_int d / scale) = FNum False m"

definition short_try :: "rat \<Rightarrow> int \<Rightarrow> nat \<Rightarrow> int option" where
  "short_try m e n =
     (let scale = 10 powi (int n - 1 - e); x = m * scale; lo = \<lfloor>x\<rfloor>; hi = lo + 1;
          a = reads_back m lo scale; b = reads_back m hi scale
      in if a \<and> b then (if x - of_int lo < of_int hi - x \<or> (x - of_int lo = of_int hi - x \<and> even lo)
                        then Some lo else Some hi)
         else if a then Some lo else if b then Some hi else None)"

fun short_loop :: "rat \<Rightarrow> int \<Rightarrow> nat list \<Rightarrow> string \<times> int" where
  "short_loop m e [] = ([], 0)"
| "short_loop m e (n # ns) =
     (case short_try m e n of
        None \<Rightarrow> short_loop m e ns
      | Some d \<Rightarrow>
          (let ds = show_nat (nat d)
           in (rev (dropWhile (\<lambda>c. c = CHR ''0'') (rev ds)), int (length ds) - int n + e + 1)))"

definition shortest :: "rat \<Rightarrow> string \<times> int" where
  "shortest m = (if m \<le> 0 then ([], 0) else short_loop m (dec_exp m) [1..<18])"

definition fmt_f :: "string \<Rightarrow> int \<Rightarrow> string" where
  "fmt_f ds dp =
     (if dp \<le> 0 then
        (if ds = [] then ''0'' else ''0.'' @ replicate (nat (- dp)) CHR ''0'' @ ds)
      else if int (length ds) \<le> dp then ds @ replicate (nat dp - length ds) CHR ''0''
      else take (nat dp) ds @ ''.'' @ drop (nat dp) ds)"

definition fmt_e :: "string \<Rightarrow> int \<Rightarrow> string" where
  "fmt_e ds dp =
     (let ex = (if ds = [] then 0 else dp - 1); a = show_nat (nat \<bar>ex\<bar>)
      in (if ds = [] then ''0'' else take 1 ds) @ (if length ds > 1 then ''.'' @ drop 1 ds else []) @
         ''e'' @ (if ex < 0 then ''-'' else ''+'') @ (if length a < 2 then ''0'' @ a else a))"

fun format_with :: "(string \<Rightarrow> int \<Rightarrow> string) \<Rightarrow> f64 \<Rightarrow> string" where
  "format_with f FNaN = ''NaN''"
| "format_with f (FInf neg) = (if neg then ''-Inf'' else ''+Inf'')"
| "format_with f (FNum neg m) = (if neg then ''-'' else []) @ (let (ds, dp) = shortest m in f ds dp)"

definition format_f :: "f64 \<Rightarrow> string" where
  "format_f = format_with fmt_f"

definition format_g :: "f64 \<Rightarrow> string" where
  "format_g = format_with (\<lambda>ds dp. if dp - 1 < - 4 \<or> dp - 1 \<ge> 6 \<and> ds \<noteq> [] then fmt_e ds dp else fmt_f ds dp)"

end
