(* ===== verification/Ordering.thy ===== *)
theory Ordering
  imports GoStrings
begin

text \<open>
  Three-way comparison functions in Go's style (negative, zero, positive) as an interface. Whatever
  satisfies the \<open>comparison\<close> contract extends to lists (elements first, then the shorter list),
  orders its values totally and can drive a sort. The version comparisons of the release code are
  interpretations of it.
\<close>

fun list_cmp :: "('a \<Rightarrow> 'a \<Rightarrow> int) \<Rightarrow> 'a list \<Rightarrow> 'a list \<Rightarrow> int" where
  "list_cmp cmp [] [] = 0"
| "list_cmp cmp [] (y # ys) = - 1"
| "list_cmp cmp (x # xs) [] = 1"
| "list_cmp cmp (x # xs) (y # ys) = (if cmp x y \<noteq> 0 then cmp x y else list_cmp cmp xs ys)"

text \<open>Insertion sort with the greatest element first, the order \<^verbatim>\<open>sort.Slice\<close> is asked for.\<close>

fun insert_desc :: "('a \<Rightarrow> 'a \<Rightarrow> int) \<Rightarrow> 'a \<Rightarrow> 'a list \<Rightarrow> 'a list" where
  "insert_desc cmp x [] = [x]"
| "insert_desc cmp x (y # ys) = (if cmp x y \<ge> 0 then x # y # ys else y # insert_desc cmp x ys)"

fun sort_desc :: "('a \<Rightarrow> 'a \<Rightarrow> int) \<Rightarrow> 'a list \<Rightarrow> 'a list" where
  "sort_desc cmp [] = []"
| "sort_desc cmp (x # xs) = insert_desc cmp x (sort_desc cmp xs)"

lemma set_insert_desc [simp]: "set (insert_desc cmp x xs) = insert x (set xs)"
  by (induction xs) auto

lemma set_sort_desc [simp]: "set (sort_desc cmp xs) = set xs"
  by (induction xs) auto

lemma length_insert_desc [simp]: "length (insert_desc cmp x xs) = Suc (length xs)"
  by (induction xs) auto

lemma length_sort_desc [simp]: "length (sort_desc cmp xs) = length xs"
  by (induction xs) auto

lemma distinct_insert_desc: "distinct (insert_desc cmp x xs) \<longleftrightarrow> x \<notin> set xs \<and> distinct xs"
  by (induction xs) auto

lemma distinct_sort_desc [simp]: "distinct (sort_desc cmp xs) \<longleftrightarrow> distinct xs"
  by (induction xs) (auto simp: distinct_insert_desc)

locale weak_comparison =
  fixes cmp :: "'a \<Rightarrow> 'a \<Rightarrow> int"
  assumes cmp_range: "cmp a b \<in> {- 1, 0, 1}"
    and cmp_flip: "cmp b a = - cmp a b"
    and cmp_trans: "cmp a b \<le> 0 \<Longrightarrow> cmp b c \<le> 0 \<Longrightarrow> cmp a c \<le> 0"
begin

text \<open>A list sorted by the comparison, greatest first.\<close>

lemma sorted_insert_desc:
  "sorted_wrt (\<lambda>a b. cmp b a \<le> 0) xs \<Longrightarrow> sorted_wrt (\<lambda>a b. cmp b a \<le> 0) (insert_desc cmp x xs)"
proof (induction xs)
  case (Cons y ys)
  show ?case
  proof (cases "cmp x y \<ge> 0")
    case True
    then have "cmp y x \<le> 0" using cmp_flip [of x y] by simp
    then show ?thesis using Cons.prems True by (auto intro: cmp_trans)
  next
    case False
    then show ?thesis using Cons by auto
  qed
qed simp

lemma sorted_sort_desc: "sorted_wrt (\<lambda>a b. cmp b a \<le> 0) (sort_desc cmp xs)"
  by (induction xs) (auto intro: sorted_insert_desc)

lemma sorted_index_less:
  assumes "sorted_wrt (\<lambda>a b. cmp b a < 0) xs" and "i < length xs" and "j < length xs"
    and "cmp (xs ! i) (xs ! j) < 0"
  shows "j < i"
proof (rule ccontr)
  assume "\<not> j < i"
  then consider "i = j" | "i < j" by linarith
  then show False
  proof cases
    case 1
    then show False using assms(4) cmp_flip [of "xs ! i" "xs ! i"] by simp
  next
    case 2
    then have "cmp (xs ! j) (xs ! i) < 0" using assms by (auto simp: sorted_wrt_iff_nth_less)
    then show False using assms(4) cmp_flip [of "xs ! i" "xs ! j"] by simp
  qed
qed

text \<open>
  Elements that all compare as different have only one sorted arrangement, so an unstable sort such
  as Go's \<^verbatim>\<open>sort.Slice\<close> has to produce it.
\<close>

lemma strictly_sorted_unique:
  "sorted_wrt (\<lambda>a b. cmp b a < 0) xs \<Longrightarrow> sorted_wrt (\<lambda>a b. cmp b a < 0) ys \<Longrightarrow> set xs = set ys \<Longrightarrow> xs = ys"
proof (induction xs arbitrary: ys)
  case (Cons x xs)
  then obtain y ys' where ys: "ys = y # ys'" by (cases ys) auto
  have irr: "\<not> cmp a a < 0" for a using cmp_flip [of a a] by simp
  have asym: "cmp a b < 0 \<Longrightarrow> \<not> cmp b a < 0" for a b using cmp_flip [of a b] by simp
  have "x \<in> insert y (set ys')" "y \<in> insert x (set xs)" using Cons.prems ys by auto
  then have "x = y" using Cons.prems(1,2) ys asym by (auto simp: ball_Un)
  moreover have "x \<notin> set xs" "y \<notin> set ys'" using Cons.prems(1,2) ys irr by auto
  then have "set xs = set ys'"
    using Cons.prems(3) ys \<open>x = y\<close> by (simp add: insert_ident)
  ultimately show ?case using Cons ys by simp
qed simp

end

locale comparison = weak_comparison cmp for cmp :: "'a \<Rightarrow> 'a \<Rightarrow> int" +
  assumes cmp_eq: "cmp a b = 0 \<Longrightarrow> a = b"
begin

lemma cmp_refl [simp]: "cmp a a = 0"
  using cmp_flip [of a a] by simp

lemma cmp_eq_iff: "cmp a b = 0 \<longleftrightarrow> a = b"
  using cmp_eq by auto

lemma cmp_less_trans:
  assumes "cmp a b < 0" and "cmp b c \<le> 0"
  shows "cmp a c < 0"
proof -
  have "cmp a c \<le> 0" using assms by (intro cmp_trans [of a b c]) simp_all
  moreover have "cmp a c \<noteq> 0"
    using assms cmp_eq [of a c] cmp_flip [of a b] by auto
  ultimately show ?thesis by simp
qed

lemma cmp_le_less_trans:
  assumes "cmp a b \<le> 0" and "cmp b c < 0"
  shows "cmp a c < 0"
proof -
  have "cmp a c \<le> 0" using assms by (intro cmp_trans [of a b c]) simp_all
  moreover have "cmp a c \<noteq> 0"
    using assms cmp_eq [of a c] cmp_flip [of b c] by auto
  ultimately show ?thesis by simp
qed

lemma cmp_total: "cmp a b \<le> 0 \<or> cmp b a \<le> 0"
  using cmp_flip [of a b] by linarith

lemma list_cmp_range: "list_cmp cmp xs ys \<in> {- 1, 0, 1}"
proof (induction xs arbitrary: ys)
  case Nil
  then show ?case by (cases ys) auto
next
  case (Cons x xs)
  then show ?case by (cases ys) (use cmp_range in auto)
qed

lemma list_cmp_flip: "list_cmp cmp ys xs = - list_cmp cmp xs ys"
proof (induction xs arbitrary: ys)
  case Nil
  then show ?case by (cases ys) auto
next
  case (Cons x xs)
  show ?case
  proof (cases ys)
    case (Cons y ys')
    then show ?thesis using Cons.IH [of ys'] cmp_flip [of x y] by auto
  qed simp
qed

lemma list_cmp_eq: "list_cmp cmp xs ys = 0 \<Longrightarrow> xs = ys"
proof (induction xs arbitrary: ys)
  case Nil
  then show ?case by (cases ys) auto
next
  case (Cons x xs)
  then show ?case by (cases ys) (auto dest: cmp_eq split: if_splits)
qed

lemma list_cmp_trans:
  "list_cmp cmp xs ys \<le> 0 \<Longrightarrow> list_cmp cmp ys zs \<le> 0 \<Longrightarrow> list_cmp cmp xs zs \<le> 0"
proof (induction xs arbitrary: ys zs)
  case Nil
  then show ?case by (cases zs) auto
next
  case (Cons x xs)
  then obtain y ys' where y: "ys = y # ys'" by (cases ys) auto
  then obtain z zs' where z: "zs = z # zs'" using Cons.prems by (cases zs) auto
  show ?case
  proof (cases "cmp x y = 0 \<and> cmp y z = 0")
    case True
    then have "x = y" "y = z" by (auto dest: cmp_eq)
    then show ?thesis using Cons y z by auto
  next
    case False
    have "cmp x y \<le> 0" "cmp y z \<le> 0"
      using Cons.prems y z by (auto split: if_splits)
    then have "cmp x z < 0"
      using False cmp_less_trans cmp_le_less_trans by (meson order_le_less)
    then show ?thesis using z by auto
  qed
qed

lemma list_comparison: "comparison (list_cmp cmp)"
  by unfold_locales (rule list_cmp_range list_cmp_flip list_cmp_trans list_cmp_eq; assumption?)+

end

section \<open>Byte-wise string comparison\<close>

definition char_cmp :: "char \<Rightarrow> char \<Rightarrow> int" where
  "char_cmp a b = (if byte a < byte b then - 1 else if byte b < byte a then 1 else 0)"

interpretation char_order: comparison char_cmp
  by unfold_locales (auto simp: char_cmp_def split: if_splits)

text \<open>\<^verbatim>\<open>strings.Compare\<close>.\<close>

definition str_compare :: "string \<Rightarrow> string \<Rightarrow> int" where
  "str_compare = list_cmp char_cmp"

interpretation str_order: comparison str_compare
  unfolding str_compare_def by (rule char_order.list_comparison)

text \<open>On digit strings of equal length byte order is numeric order.\<close>

lemma digits_val_mono: "a \<le> b \<Longrightarrow> digits_val a s \<le> digits_val b s"
  by (induction s arbitrary: a b) auto

lemma digits_val_bound: "list_all is_digit s \<Longrightarrow> digits_val a s < (a + 1) * 10 ^ length s"
proof (induction s arbitrary: a)
  case (Cons c s)
  then have "digits_val (10 * a + (byte c - 48)) s < (10 * a + (byte c - 48) + 1) * 10 ^ length s"
    by simp
  also have "\<dots> \<le> (10 * (a + 1)) * 10 ^ length s"
    using Cons.prems by (intro mult_right_mono) (auto simp: is_digit_def)
  finally show ?case by (simp add: algebra_simps)
qed simp

lemma digits_val_lower: "a * 10 ^ length s \<le> digits_val a s"
proof (induction s arbitrary: a)
  case (Cons c s)
  have "a * 10 ^ length (c # s) \<le> (10 * a + (byte c - 48)) * 10 ^ length s" by (simp add: algebra_simps)
  also have "\<dots> \<le> digits_val (10 * a + (byte c - 48)) s" by (rule Cons.IH)
  finally show ?case by simp
qed simp

lemma digits_val_less: "list_all is_digit s \<Longrightarrow> length s = length t \<Longrightarrow> a < b \<Longrightarrow> digits_val a s < digits_val b t"
proof -
  assume s: "list_all is_digit s" and l: "length s = length t" and "a < b"
  have "digits_val a s < (a + 1) * 10 ^ length s" using s by (rule digits_val_bound)
  also have "\<dots> \<le> b * 10 ^ length t"
    unfolding l using \<open>a < b\<close> by (intro mult_right_mono) simp_all
  also have "\<dots> \<le> digits_val b t" by (rule digits_val_lower)
  finally show ?thesis .
qed

lemma str_compare_digits:
  assumes "list_all is_digit s" and "list_all is_digit t" and "length s = length t"
  shows "str_compare s t < 0 \<longleftrightarrow> digits_val a s < digits_val a t"
  using assms(3,1,2)
proof (induction s t arbitrary: a rule: list_induct2)
  case Nil
  then show ?case by (simp add: str_compare_def)
next
  case (Cons c s d t)
  show ?case
  proof (cases "c = d")
    case True
    then show ?thesis using Cons by (simp add: str_compare_def char_cmp_def)
  next
    case False
    then have ne: "byte c \<noteq> byte d" by auto
    have ds: "list_all is_digit s" "list_all is_digit t" "48 \<le> byte c" "48 \<le> byte d"
      using Cons.prems by (simp_all add: is_digit_def [of c] is_digit_def [of d])
    show ?thesis
    proof (cases "byte c < byte d")
      case True
      then have "digits_val (10 * a + (byte c - 48)) s < digits_val (10 * a + (byte d - 48)) t"
        using ds Cons.hyps by (intro digits_val_less) auto
      then show ?thesis using True by (simp add: str_compare_def char_cmp_def)
    next
      case False
      with ne have gt: "byte d < byte c" by linarith
      then have "digits_val (10 * a + (byte d - 48)) t < digits_val (10 * a + (byte c - 48)) s"
        using ds Cons.hyps by (intro digits_val_less) auto
      then show ?thesis using gt by (simp add: str_compare_def char_cmp_def)
    qed
  qed
qed

end
