(* ===== verification/GoEncoding.thy ===== *)
theory GoEncoding
  imports GoUtf8 GoFloatText Ordering
begin

text \<open>
  Text encodings of the Go standard library that the telemetry code uses: hexadecimal numbers
  (\<^verbatim>\<open>encoding/hex\<close>, \<^verbatim>\<open>strconv.ParseUint\<close> and \<^verbatim>\<open>FormatUint\<close> with base 16), \<^verbatim>\<open>encoding/base64\<close>,
  \<^verbatim>\<open>encoding/json\<close> of untyped values, and the patterns of \<^verbatim>\<open>path.Match\<close>.
\<close>

section \<open>Hexadecimal\<close>

definition hex_char :: "nat \<Rightarrow> char" where
  "hex_char d = (if d < 10 then char_of (48 + d) else char_of (87 + d))"

definition hex_encode :: "string \<Rightarrow> string" where
  "hex_encode s = concat (map (\<lambda>c. [hex_char (byte c div 16), hex_char (byte c mod 16)]) s)"

fun show_hex :: "nat \<Rightarrow> string" where
  "show_hex n = (if n < 16 then [hex_char n] else show_hex (n div 16) @ [hex_char (n mod 16)])"

declare show_hex.simps [simp del]

definition parse_hex64 :: "string \<Rightarrow> nat option" where
  "parse_hex64 s =
     (if s = [] \<or> \<not> list_all is_hex s then None
      else let n = hex_digits_val 0 s in if n < 2 ^ 64 then Some n else None)"

lemma byte_hex_char: "d < 16 \<Longrightarrow> byte (hex_char d) = (if d < 10 then 48 + d else 87 + d)"
  by (simp add: hex_char_def)

lemma is_hex_hex_char [simp]: "d < 16 \<Longrightarrow> is_hex (hex_char d)"
  by (auto simp: is_hex_def is_digit_def byte_hex_char)

lemma hex_val_hex_char [simp]: "d < 16 \<Longrightarrow> hex_val (hex_char d) = d"
  by (auto simp: hex_val_def is_digit_def byte_hex_char)

lemma hex_digits_append: "hex_digits_val a (xs @ ys) = hex_digits_val (hex_digits_val a xs) ys"
  by (induction xs arbitrary: a) simp_all

lemma show_hex_is_hex: "list_all is_hex (show_hex n)"
proof (induction n rule: show_hex.induct)
  case (1 n)
  then show ?case by (subst show_hex.simps) auto
qed

lemma show_hex_not_Nil [simp]: "show_hex n \<noteq> []"
  by (subst show_hex.simps) simp

lemma show_hex_value: "hex_digits_val 0 (show_hex n) = n"
proof (induction n rule: show_hex.induct)
  case (1 n)
  then show ?case by (subst show_hex.simps) (auto simp: hex_digits_append)
qed

lemma length_show_hex: "0 < k \<Longrightarrow> n < 16 ^ k \<Longrightarrow> length (show_hex n) \<le> k"
proof (induction n arbitrary: k rule: show_hex.induct)
  case (1 n)
  show ?case
  proof (cases "n < 16")
    case True
    then show ?thesis using 1 by (subst show_hex.simps) simp
  next
    case False
    then obtain j where j: "k = Suc j" "0 < j" using "1.prems" by (cases k; cases "k - 1") auto
    then have "n div 16 < 16 ^ j" using "1.prems" by (simp add: less_mult_imp_div_less mult.commute)
    then have "length (show_hex (n div 16)) \<le> j" using "1.IH" [OF False j(2)] by simp
    then show ?thesis using False j by (subst show_hex.simps) simp
  qed
qed

lemma hex_leading_zeros: "hex_digits_val 0 (replicate k CHR ''0'' @ s) = hex_digits_val 0 s"
proof (induction k)
  case (Suc k)
  have "hex_val CHR ''0'' = 0" by (simp add: hex_val_def is_digit_def)
  then show ?case using Suc by simp
qed simp

lemma hex_trailing_zeros: "hex_digits_val a (s @ replicate k CHR ''0'') = hex_digits_val a s * 16 ^ k"
proof -
  have z: "hex_val CHR ''0'' = 0" by (simp add: hex_val_def is_digit_def)
  have "hex_digits_val b (replicate k CHR ''0'') = b * 16 ^ k" for b
    by (induction k arbitrary: b) (simp_all add: z algebra_simps)
  then show ?thesis by (simp add: hex_digits_append)
qed

section \<open>Base64\<close>

definition b64_char :: "nat \<Rightarrow> char" where
  "b64_char d =
     (if d < 26 then char_of (65 + d) else if d < 52 then char_of (71 + d)
      else if d < 62 then char_of (d - 4) else if d = 62 then CHR ''+'' else CHR ''/'')"

fun base64 :: "string \<Rightarrow> string" where
  "base64 [] = []"
| "base64 [a] = [b64_char (byte a div 4), b64_char (byte a mod 4 * 16), CHR ''='', CHR ''='']"
| "base64 [a, b] =
     [b64_char (byte a div 4), b64_char (byte a mod 4 * 16 + byte b div 16), b64_char (byte b mod 16 * 4), CHR ''='']"
| "base64 (a # b # c # r) =
     [b64_char (byte a div 4), b64_char (byte a mod 4 * 16 + byte b div 16),
      b64_char (byte b mod 16 * 4 + byte c div 64), b64_char (byte c mod 64)] @ base64 r"

section \<open>JSON\<close>

text \<open>The values \<^verbatim>\<open>json.Marshal\<close> gets as \<^verbatim>\<open>any\<close>; an object is a Go map, so its keys are written sorted.\<close>

datatype json =
    JNull | JBool bool | JString string | JInt int | JFloat f64 | JArray "json list" | JObject "(string \<times> json) list"

definition u_escape :: "nat \<Rightarrow> string" where
  "u_escape r =
     CHR 0x5C # CHR ''u'' # map (\<lambda>k. hex_char (r div 16 ^ k mod 16)) [3, 2, 1, 0]"

definition json_rune :: "string \<Rightarrow> nat \<Rightarrow> nat \<Rightarrow> string" where
  "json_rune s r n =
     (if r = 34 \<or> r = 92 then CHR 0x5C # take n s
      else if r = 8 then [CHR 0x5C, CHR ''b''] else if r = 12 then [CHR 0x5C, CHR ''f'']
      else if r = 10 then [CHR 0x5C, CHR ''n''] else if r = 13 then [CHR 0x5C, CHR ''r'']
      else if r = 9 then [CHR 0x5C, CHR ''t'']
      else if r < 32 \<or> r = 60 \<or> r = 62 \<or> r = 38 \<or> r = 8232 \<or> r = 8233 then u_escape r
      else if r = 65533 \<and> n = 1 then u_escape 65533
      else take n s)"

fun json_chars :: "nat \<Rightarrow> string \<Rightarrow> string" where
  "json_chars 0 s = []"
| "json_chars (Suc k) s =
     (if s = [] then []
      else case decode_rune s of (r, n) \<Rightarrow> json_rune s r n @ json_chars k (drop n s))"

definition json_string :: "string \<Rightarrow> string" where
  "json_string s = [CHR 0x22] @ json_chars (length s) s @ [CHR 0x22]"

text \<open>A float is written in the shortest form, with an exponent without leading zeros outside \<open>[1e-6, 1e21)\<close>.\<close>

definition json_exponent :: "string \<Rightarrow> string" where
  "json_exponent s =
     (let n = length s in
      if 4 \<le> n \<and> s ! (n - 4) = CHR ''e'' \<and> s ! (n - 3) = CHR ''-'' \<and> s ! (n - 2) = CHR ''0''
      then take (n - 2) s @ [s ! (n - 1)] else s)"

fun json_float :: "f64 \<Rightarrow> string option" where
  "json_float (FNum neg m) =
     Some (if m \<noteq> 0 \<and> (f_lt (FNum False m) (round64 False (1 / 1000000)) \<or> f_le (round64 False (10 ^ 21)) (FNum False m))
           then json_exponent (format_with fmt_e (FNum neg m)) else format_f (FNum neg m))"
| "json_float _ = None"

fun insert_key :: "string \<times> 'a \<Rightarrow> (string \<times> 'a) list \<Rightarrow> (string \<times> 'a) list" where
  "insert_key kv [] = [kv]"
| "insert_key kv (x # xs) =
     (if fst kv = fst x then kv # xs
      else if str_compare (fst kv) (fst x) < 0 then kv # x # xs
      else x # insert_key kv xs)"

text \<open>The later of two equal keys wins, as in the Go map the object comes from.\<close>

definition sort_keys :: "(string \<times> 'a) list \<Rightarrow> (string \<times> 'a) list" where
  "sort_keys kvs = fold insert_key kvs []"

fun collect_opts :: "'a option list \<Rightarrow> 'a list option" where
  "collect_opts [] = Some []"
| "collect_opts (None # xs) = None"
| "collect_opts (Some x # xs) = map_option (Cons x) (collect_opts xs)"

fun json_text :: "json \<Rightarrow> string option" where
  "json_text JNull = Some ''null''"
| "json_text (JBool b) = Some (if b then ''true'' else ''false'')"
| "json_text (JString s) = Some (json_string s)"
| "json_text (JInt n) = Some (show_int n)"
| "json_text (JFloat x) = json_float x"
| "json_text (JArray xs) =
     map_option (\<lambda>ts. ''['' @ join_with '','' ts @ '']'') (collect_opts (map json_text xs))"
| "json_text (JObject kvs) =
     map_option (\<lambda>ts. CHR 0x7B # join_with '','' ts @ [CHR 0x7D])
       (collect_opts (map (\<lambda>(k, t). map_option (\<lambda>x. json_string k @ '':'' @ x) t)
          (sort_keys (map (\<lambda>(k, v). (k, json_text v)) kvs))))"

section \<open>Patterns\<close>

text \<open>
  \<^verbatim>\<open>path.Match\<close>: a pattern is a sequence of chunks separated by stars. A chunk matches literally,
  \<^verbatim>\<open>?\<close> one rune other than a slash, \<^verbatim>\<open>[...]\<close> one rune of a class. \<open>None\<close> is \<^verbatim>\<open>ErrBadPattern\<close>; a
  chunk that has failed is still parsed, so that a bad pattern is always reported. The loops below
  carry the pattern that is left, which gets shorter in every round.
\<close>

fun chunk_len :: "bool \<Rightarrow> string \<Rightarrow> nat" where
  "chunk_len inrange [] = 0"
| "chunk_len inrange (c # cs) =
     (if c = CHR 0x5C then (case cs of [] \<Rightarrow> 1 | _ # r \<Rightarrow> 2 + chunk_len inrange r)
      else if c = CHR ''['' then Suc (chunk_len True cs)
      else if c = CHR '']'' then Suc (chunk_len False cs)
      else if c = CHR ''*'' \<and> \<not> inrange then 0
      else Suc (chunk_len inrange cs))"

definition scanChunk :: "string \<Rightarrow> bool \<times> string \<times> string" where
  "scanChunk pattern =
     (let p = dropWhile (\<lambda>c. c = CHR ''*'') pattern; i = chunk_len False p
      in (has_prefix pattern ''*'', take i p, drop i p))"

definition getEsc :: "string \<Rightarrow> (nat \<times> string) option" where
  "getEsc chunk =
     (if chunk = [] \<or> hd chunk = CHR ''-'' \<or> hd chunk = CHR '']'' then None
      else let c = (if hd chunk = CHR 0x5C then tl chunk else chunk)
           in if c = [] then None
              else case decode_rune c of (r, n) \<Rightarrow>
                if r = 65533 \<and> n = 1 \<or> drop n c = [] then None else Some (r, drop n c))"

text \<open>The ranges of a class after its opening bracket: whether one contains \<open>r\<close>, and what follows the class.\<close>

fun class_loop :: "nat \<Rightarrow> bool \<Rightarrow> bool \<Rightarrow> nat \<Rightarrow> string \<Rightarrow> (bool \<times> string) option" where
  "class_loop 0 first hit r chunk = None"
| "class_loop (Suc k) first hit r chunk =
     (if \<not> first \<and> has_prefix chunk '']'' then Some (hit, tl chunk)
      else case getEsc chunk of
        None \<Rightarrow> None
      | Some (lo, c1) \<Rightarrow>
          if has_prefix c1 ''-'' then
            (case getEsc (tl c1) of
               None \<Rightarrow> None
             | Some (hi, c2) \<Rightarrow> class_loop k False (hit \<or> lo \<le> r \<and> r \<le> hi) r c2)
          else class_loop k False (hit \<or> lo \<le> r \<and> r \<le> lo) r c1)"

text \<open>\<open>s = None\<close> when the match has failed; the result is what is left of the name.\<close>

definition take_rune :: "string option \<Rightarrow> nat \<times> string option" where
  "take_rune s = (case s of None \<Rightarrow> (0, None) | Some t \<Rightarrow> (fst (decode_rune t), Some (drop (snd (decode_rune t)) t)))"

definition take_lit :: "char \<Rightarrow> string option \<Rightarrow> string option" where
  "take_lit c s = (case s of None \<Rightarrow> None | Some t \<Rightarrow> if hd t = c then Some (tl t) else None)"

fun chunk_loop :: "nat \<Rightarrow> string \<Rightarrow> string option \<Rightarrow> string option option" where
  "chunk_loop 0 chunk s = Some s"
| "chunk_loop (Suc k) chunk s0 =
     (case chunk of
        [] \<Rightarrow> Some s0
      | c # cs \<Rightarrow>
          (let s = (if s0 = Some [] then None else s0) in
           if c = CHR ''['' then
             (let (r, s1) = take_rune s; neg = has_prefix cs ''^''; body = (if neg then tl cs else cs) in
              case class_loop (Suc (length body)) True False r body of
                None \<Rightarrow> None
              | Some (hit, rest) \<Rightarrow> chunk_loop k rest (if hit = neg then None else s1))
           else if c = CHR ''?'' then
             chunk_loop k cs
               (case s of None \<Rightarrow> None | Some t \<Rightarrow> if hd t = CHR ''/'' then None else snd (take_rune s))
           else if c = CHR 0x5C then
             (case cs of [] \<Rightarrow> None | d # ds \<Rightarrow> chunk_loop k ds (take_lit d s))
           else chunk_loop k cs (take_lit c s)))"

definition matchChunk :: "string \<Rightarrow> string \<Rightarrow> string option option" where
  "matchChunk chunk s = chunk_loop (Suc (length chunk)) chunk (Some s)"

text \<open>The names left after a star skipped \<open>1, 2, ...\<close> bytes, none of them a slash.\<close>

fun star_skip :: "string \<Rightarrow> bool \<Rightarrow> string \<Rightarrow> string option option" where
  "star_skip chunk fin [] = Some None"
| "star_skip chunk fin (c # name) =
     (if c = CHR ''/'' then Some None
      else case matchChunk chunk name of
        None \<Rightarrow> None
      | Some None \<Rightarrow> star_skip chunk fin name
      | Some (Some t) \<Rightarrow> if fin \<and> t \<noteq> [] then star_skip chunk fin name else Some (Some t))"

fun rest_valid :: "nat \<Rightarrow> string \<Rightarrow> bool" where
  "rest_valid 0 pattern = True"
| "rest_valid (Suc k) pattern =
     (pattern = [] \<or>
      (case scanChunk pattern of (_, chunk, rest) \<Rightarrow> matchChunk chunk [] \<noteq> None \<and> rest_valid k rest))"

definition no_match :: "string \<Rightarrow> bool option" where
  "no_match rest = (if rest_valid (length rest) rest then Some False else None)"

fun match_loop :: "nat \<Rightarrow> string \<Rightarrow> string \<Rightarrow> bool option" where
  "match_loop 0 pattern name = Some (name = [])"
| "match_loop (Suc k) pattern name =
     (if pattern = [] then Some (name = [])
      else case scanChunk pattern of (star, chunk, rest) \<Rightarrow>
        if star \<and> chunk = [] then Some (CHR ''/'' \<notin> set name)
        else case matchChunk chunk name of
          None \<Rightarrow> None
        | Some m \<Rightarrow>
            if m \<noteq> None \<and> (the m = [] \<or> rest \<noteq> []) then match_loop k rest (the m)
            else case (if star then star_skip chunk (rest = []) name else Some None) of
              None \<Rightarrow> None
            | Some None \<Rightarrow> no_match rest
            | Some (Some t) \<Rightarrow> match_loop k rest t)"

definition path_match :: "string \<Rightarrow> string \<Rightarrow> bool option" where
  "path_match pattern name = match_loop (length pattern) pattern name"

text \<open>The rounds of \<open>path_match\<close> are enough: scanning a chunk always shortens the pattern.\<close>

lemma scanChunk_shorter:
  assumes "pattern \<noteq> []" and "scanChunk pattern = (star, chunk, rest)"
  shows "length rest < length pattern"
proof -
  let ?p = "dropWhile (\<lambda>c. c = CHR ''*'') pattern"
  have r: "rest = drop (chunk_len False ?p) ?p" using assms(2) by (simp add: scanChunk_def Let_def)
  show ?thesis
  proof (cases "hd pattern = CHR ''*''")
    case True
    then have "length ?p < length pattern"
      using assms(1) length_dropWhile_le [of "\<lambda>c. c = CHR ''*''" "tl pattern"] by (cases pattern) (auto simp: less_Suc_eq_le)
    then show ?thesis using r by simp
  next
    case False
    then have "?p = pattern" using assms(1) by (cases pattern) auto
    moreover from False have "0 < chunk_len False pattern"
      using assms(1) by (cases pattern) (auto split: list.splits)
    ultimately show ?thesis using r assms(1) by simp
  qed
qed

lemma match_loop_enough:
  assumes "length pattern \<le> k" and "length pattern \<le> j"
  shows "match_loop k pattern name = match_loop j pattern name"
  using assms
proof (induction k arbitrary: pattern name j)
  case 0
  then show ?case by (cases j) auto
next
  case (Suc k)
  show ?case
  proof (cases "pattern = []")
    case False
    then obtain i where i: "j = Suc i" using Suc.prems by (cases j) auto
    obtain star chunk rest where sc: "scanChunk pattern = (star, chunk, rest)" by (cases "scanChunk pattern") auto
    have "length rest \<le> k" "length rest \<le> i" using scanChunk_shorter [OF False sc] Suc.prems i by auto
    then have eq: "match_loop k rest = match_loop i rest" by (intro ext Suc.IH)
    show ?thesis by (simp only: i match_loop.simps sc prod.case eq)
  qed (cases j; simp)
qed

end
