(* ===== verification/AlertPlan.thy ===== *)
theory AlertPlan
  imports AlertState AlertRouting GoEncoding
begin

text \<open>
  One evaluation of an alert rule (\<^verbatim>\<open>internal/alert/plan.go\<close>): \<^verbatim>\<open>BuildPlan\<close> runs the state machine for
  every series and derives the rows, incidents, timeline events and notifications that are committed
  together. The condition of a rule is a Go interface and therefore a record of its methods; ids come
  from a generator; \<^verbatim>\<open>formatValue\<close>, whose rounding goes through \<^verbatim>\<open>math.Log10\<close>, is a parameter. The payload
  of a notification is kept as the event before it is printed as JSON, with instants instead of their
  text. Fields that every object leaves at its zero value here (delivery attempts, actors, durations)
  are left out of the records.
\<close>

section \<open>Data\<close>

abbreviation (input) IncidentOpen :: string where "IncidentOpen \<equiv> ''open''"
abbreviation (input) IncidentResolved :: string where "IncidentResolved \<equiv> ''resolved''"
abbreviation (input) KindOpened :: string where "KindOpened \<equiv> ''opened''"
abbreviation (input) KindAcknowledged :: string where "KindAcknowledged \<equiv> ''acknowledged''"
abbreviation (input) KindResolved :: string where "KindResolved \<equiv> ''resolved''"
abbreviation (input) KindRenotify :: string where "KindRenotify \<equiv> ''renotify''"

record incident =
  ic_id :: string
  ic_orgID :: string
  ic_ruleID :: string
  ic_ruleName :: string
  ic_ruleType :: string
  ic_severity :: string
  ic_seriesKey :: string
  ic_labels :: "string \<rightharpoonup> string"
  ic_summary :: string
  ic_state :: string
  ic_value :: "f64 option"
  ic_lastValue :: "f64 option"
  ic_threshold :: "f64 option"
  ic_channelIDs :: "string list"
  ic_flapping :: bool
  ic_openedAt :: gtime
  ic_acknowledgedAt :: "gtime option"
  ic_acknowledgedByEmail :: string
  ic_resolvedAt :: "gtime option"
  ic_resolvedByEmail :: string
  ic_resolveReason :: string
  ic_muted :: bool

datatype detail = FloatDetail "f64 option" | TextDetail string | IntDetail int

record incident_event =
  iv_incidentID :: string
  iv_orgID :: string
  iv_at :: gtime
  iv_kind :: string
  iv_message :: string
  iv_details :: "(string \<times> detail) list"

text \<open>The fields of \<^verbatim>\<open>notify.Event\<close> that \<^verbatim>\<open>BuildEvent\<close> fills in.\<close>

record incident_info =
  ii_id :: string
  ii_state :: string
  ii_url :: string
  ii_summary :: string
  ii_value :: "f64 option"
  ii_threshold :: "f64 option"
  ii_labels :: "string \<rightharpoonup> string"
  ii_openedAt :: gtime
  ii_acknowledgedAt :: "gtime option"
  ii_resolvedAt :: "gtime option"
  ii_resolveReason :: "string option"

record notify_event =
  ne_version :: string
  ne_event :: string
  ne_idempotencyKey :: string
  ne_org :: "string \<times> string"
  ne_rule :: "string \<times> string \<times> string \<times> string \<times> string"
  ne_ruleURL :: string
  ne_incident :: "incident_info option"

record notification =
  no_id :: string
  no_orgID :: string
  no_incidentID :: string
  no_ruleID :: string
  no_channelID :: string
  no_channelType :: string
  no_kind :: string
  no_idempotencyKey :: string
  no_payload :: notify_event
  no_status :: string

record incident_resolve =
  ir_id :: string
  ir_reason :: string
  ir_at :: gtime
  ir_lastValue :: "f64 option"

record incident_update =
  iu_id :: string
  iu_lastValue :: "f64 option"
  iu_flapping :: bool

type_synonym series_row = "incident series_state"

record series_summary =
  sy_key :: string
  sy_labels :: "string \<rightharpoonup> string"
  sy_value :: f64
  sy_state :: string

record sample =
  sm_key :: string
  sm_labels :: "string \<rightharpoonup> string"
  sm_value :: f64

record condition =
  cn_judge :: judge
  cn_missing :: string
  cn_window :: duration
  cn_summary :: "sample \<Rightarrow> string \<Rightarrow> string"

record rule =
  al_id :: string
  al_orgID :: string
  al_orgName :: string
  al_version :: int
  al_name :: string
  al_type :: string
  al_severity :: string
  al_intervalSeconds :: int
  al_forSeconds :: int
  al_recoveryForSeconds :: int
  al_renotifyIntervalSeconds :: int
  al_flapping :: flapping
  al_runbookURL :: string
  al_labels :: "(string \<times> string) list"
  al_condition :: condition

record plan_input =
  pi_rule :: rule
  pi_channels :: "channel_ref list"
  pi_states :: "(string \<times> series_row) list"
  pi_prevEvalEnd :: gtime
  pi_end :: gtime
  pi_result :: "(sample list \<times> string) option"
  pi_delay :: duration
  pi_publicURL :: string
  pi_newID :: "nat \<Rightarrow> string"
  pi_routing :: "routing option"
  pi_lib :: route_lib
  pi_formatValue :: "f64 \<Rightarrow> string"

text \<open>The plan and the number of ids that were taken from the generator.\<close>

record eval_plan =
  ep_ruleID :: string
  ep_ruleVersion :: int
  ep_orgID :: string
  ep_evalEnd :: gtime
  ep_result :: string
  ep_upserts :: "series_row list"
  ep_deletes :: "string list"
  ep_opens :: "incident list"
  ep_resolves :: "incident_resolve list"
  ep_updates :: "incident_update list"
  ep_events :: "incident_event list"
  ep_notifications :: "notification list"
  ep_transitions :: "string \<Rightarrow> nat"
  ep_summaries :: "series_summary list"
  ep_ids :: nat

definition Empty_plan :: "eval_plan \<Rightarrow> bool" where
  "Empty_plan p \<longleftrightarrow>
     length (ep_upserts p) + length (ep_deletes p) + length (ep_opens p) + length (ep_resolves p) +
     length (ep_updates p) + length (ep_events p) + length (ep_notifications p) = 0"

section \<open>Helpers\<close>

definition StepConfigFor :: "rule \<Rightarrow> duration \<Rightarrow> step_config" where
  "StepConfigFor r delay =
     \<lparr>sc_judge = cn_judge (al_condition r), sc_for = seconds (al_forSeconds r), sc_recovery_for = seconds (al_recoveryForSeconds r),
      sc_interval = seconds (al_intervalSeconds r), sc_delay = delay, sc_flapping = al_flapping r,
      sc_missing = cn_missing (al_condition r), sc_expire_after = max hour (wrap64 (10 * cn_window (al_condition r)))\<rparr>"

definition optFloat :: "f64 \<Rightarrow> f64 option" where
  "optFloat v = (if is_nan v \<or> is_inf v then None else Some v)"

definition channelType :: "channel_ref list \<Rightarrow> string \<Rightarrow> channel_ref" where
  "channelType chs i =
     (case find (\<lambda>c. ch_id c = i) chs of Some c \<Rightarrow> c | None \<Rightarrow> \<lparr>ch_id = [], ch_type = [], ch_enabled = False\<rparr>)"

definition incidentLabels :: "rule \<Rightarrow> (string \<rightharpoonup> string) \<Rightarrow> string \<rightharpoonup> string" where
  "incidentLabels r series =
     (map_of (al_labels r) ++ series)(''alert.severity'' \<mapsto> al_severity r, ''alert.rule_name'' \<mapsto> al_name r)"

definition IdempotencyKey :: "string \<Rightarrow> string \<Rightarrow> string \<Rightarrow> string \<Rightarrow> string" where
  "IdempotencyKey incidentID kind seq channelID =
     (if kind = KindRenotify then incidentID @ '':renotify:'' @ seq @ '':'' @ channelID
      else incidentID @ '':'' @ kind @ '':'' @ channelID)"

definition kindEvent :: "string \<Rightarrow> string" where
  "kindEvent kind =
     (if kind = ''opened'' then ''incident.opened'' else if kind = ''acknowledged'' then ''incident.acknowledged''
      else if kind = ''resolved'' then ''incident.resolved'' else if kind = ''renotify'' then ''incident.renotify''
      else if kind = ''test'' then ''test'' else [])"

definition trim_slashes :: "string \<Rightarrow> string" where
  "trim_slashes s = rev (dropWhile (\<lambda>c. c = CHR ''/'') (rev s))"

definition incident_payload :: "incident \<Rightarrow> string \<Rightarrow> string \<Rightarrow> incident_info" where
  "incident_payload inc kind base =
     \<lparr>ii_id = ic_id inc, ii_state = ic_state inc,
      ii_url = (if base \<noteq> [] then base @ ''/alerts/incidents/'' @ ic_id inc else []),
      ii_summary = ic_summary inc, ii_value = (if kind = KindOpened then ic_value inc else ic_lastValue inc),
      ii_threshold = ic_threshold inc, ii_labels = ic_labels inc, ii_openedAt = ic_openedAt inc,
      ii_acknowledgedAt = ic_acknowledgedAt inc, ii_resolvedAt = ic_resolvedAt inc,
      ii_resolveReason = (if ic_resolveReason inc \<noteq> [] then Some (ic_resolveReason inc) else None)\<rparr>"

definition BuildEvent :: "rule \<Rightarrow> incident option \<Rightarrow> string \<Rightarrow> string \<Rightarrow> string \<Rightarrow> notify_event" where
  "BuildEvent r inc kind key publicURL =
     (let base = trim_slashes publicURL in
      \<lparr>ne_version = ''1'', ne_event = kindEvent kind, ne_idempotencyKey = key, ne_org = (al_orgID r, al_orgName r),
       ne_rule = (al_id r, al_name r, al_type r, al_severity r, al_runbookURL r),
       ne_ruleURL = (if base \<noteq> [] \<and> al_id r \<noteq> [] then base @ ''/alerts/rules/'' @ al_id r else []),
       ne_incident = map_option (\<lambda>i. incident_payload i kind base) inc\<rparr>)"

definition newNotification :: "rule \<Rightarrow> incident \<Rightarrow> channel_ref \<Rightarrow> string \<Rightarrow> string \<Rightarrow> string \<Rightarrow> string \<Rightarrow> notification" where
  "newNotification r inc ch kind seq publicURL nid =
     (let key = IdempotencyKey (ic_id inc) kind seq (ch_id ch) in
      \<lparr>no_id = nid, no_orgID = al_orgID r, no_incidentID = ic_id inc, no_ruleID = al_id r, no_channelID = ch_id ch,
       no_channelType = ch_type ch, no_kind = kind, no_idempotencyKey = key,
       no_payload = BuildEvent r (Some inc) kind key publicURL, no_status = ''pending''\<rparr>)"

text \<open>One notification per channel, each with the next id.\<close>

fun notify_all :: "rule \<Rightarrow> incident \<Rightarrow> string \<Rightarrow> string \<Rightarrow> string \<Rightarrow> (nat \<Rightarrow> string) \<Rightarrow> nat \<Rightarrow> channel_ref list \<Rightarrow> notification list" where
  "notify_all r inc kind seq url newID n [] = []"
| "notify_all r inc kind seq url newID n (c # cs) =
     newNotification r inc c kind seq url (newID n) # notify_all r inc kind seq url newID (Suc n) cs"

definition ack_channel :: "string \<Rightarrow> bool" where
  "ack_channel t \<longleftrightarrow> t = ''pagerduty'' \<or> t = ''opsgenie''"

definition bare_channel :: "string \<Rightarrow> string \<Rightarrow> channel_ref" where
  "bare_channel t cid = \<lparr>ch_id = cid, ch_type = t, ch_enabled = False\<rparr>"

definition ackNotifications :: "rule \<Rightarrow> incident \<Rightarrow> (string \<rightharpoonup> string) \<Rightarrow> string \<Rightarrow> (nat \<Rightarrow> string) \<Rightarrow> nat \<Rightarrow> notification list" where
  "ackNotifications r inc types url newID n =
     notify_all r inc KindAcknowledged [] url newID n
       (concat (map (\<lambda>cid. case types cid of Some t \<Rightarrow> if ack_channel t then [bare_channel t cid] else [] | None \<Rightarrow> [])
          (ic_channelIDs inc)))"

definition resolveNotifications :: "rule \<Rightarrow> incident \<Rightarrow> string \<Rightarrow> (nat \<Rightarrow> string) \<Rightarrow> nat \<Rightarrow> notification list" where
  "resolveNotifications r inc url newID n = notify_all r inc KindResolved [] url newID n (map (bare_channel []) (ic_channelIDs inc))"

section \<open>One series\<close>

definition count_tr :: "(string \<Rightarrow> nat) \<Rightarrow> string \<Rightarrow> string \<Rightarrow> nat" where
  "count_tr f k = f(k := Suc (f k))"

definition input_samples :: "plan_input \<Rightarrow> string \<rightharpoonup> sample" where
  "input_samples inp =
     (case pi_result inp of None \<Rightarrow> Map.empty | Some (ss, _) \<Rightarrow> map_of (rev (map (\<lambda>s. (sm_key s, s)) ss)))"

definition plan_unit :: "plan_input \<Rightarrow> string" where
  "plan_unit inp = (case pi_result inp of None \<Rightarrow> [] | Some (_, u) \<Rightarrow> u)"

text \<open>The keys of the samples and of the stored rows, sorted.\<close>

definition plan_keys :: "plan_input \<Rightarrow> string list" where
  "plan_keys inp =
     map fst (sort_keys (map (\<lambda>k. (k, ()))
       ((case pi_result inp of None \<Rightarrow> [] | Some (ss, _) \<Rightarrow> map sm_key ss) @ map fst (pi_states inp))))"

definition gone_incident :: "series_row \<Rightarrow> bool" where
  "gone_incident s \<longleftrightarrow> ss_incident_id s \<noteq> [] \<and> (case ss_incident s of None \<Rightarrow> True | Some i \<Rightarrow> ic_state i = IncidentResolved)"

definition load_series :: "string \<Rightarrow> series_row option \<Rightarrow> sample option \<Rightarrow> series_row" where
  "load_series key row smp =
     (let s = (case row of
                 Some s \<Rightarrow> if gone_incident s then resetToOK s else s
               | None \<Rightarrow> fresh_series key (case smp of Some x \<Rightarrow> sm_labels x | None \<Rightarrow> Map.empty));
          s1 = (case smp of Some x \<Rightarrow> s\<lparr>ss_labels := sm_labels x\<rparr> | None \<Rightarrow> s)
      in s1\<lparr>ss_key := key\<rparr>)"

definition series_input :: "plan_input \<Rightarrow> sample option \<Rightarrow> step_input" where
  "series_input inp smp =
     \<lparr>si_end = pi_end inp, si_prev_eval_end = pi_prevEvalEnd inp, si_present = (smp \<noteq> None),
      si_value = (case smp of Some x \<Rightarrow> sm_value x | None \<Rightarrow> FNum False 0)\<rparr>"

definition series_value :: "sample option \<Rightarrow> f64" where
  "series_value smp = (case smp of Some x \<Rightarrow> sm_value x | None \<Rightarrow> FNaN)"

definition enabled_channels :: "plan_input \<Rightarrow> channel_ref list" where
  "enabled_channels inp = filter ch_enabled (pi_channels inp)"

definition open_targets :: "plan_input \<Rightarrow> (string \<rightharpoonup> string) \<Rightarrow> channel_ref list" where
  "open_targets inp labels =
     RouteChannels (pi_lib inp) (pi_routing inp) (al_severity (pi_rule inp)) (al_type (pi_rule inp)) labels (pi_end inp)
       (enabled_channels inp)"

definition new_incident :: "plan_input \<Rightarrow> string \<Rightarrow> series_row \<Rightarrow> sample option \<Rightarrow> string \<Rightarrow> incident" where
  "new_incident inp key next smp nid =
     (let r = pi_rule inp; labels = incidentLabels r (ss_labels next); v = optFloat (series_value smp);
          x = (case smp of Some x \<Rightarrow> x | None \<Rightarrow> \<lparr>sm_key = key, sm_labels = ss_labels next, sm_value = FNaN\<rparr>)
      in \<lparr>ic_id = nid, ic_orgID = al_orgID r, ic_ruleID = al_id r, ic_ruleName = al_name r, ic_ruleType = al_type r,
          ic_severity = al_severity r, ic_seriesKey = key, ic_labels = labels,
          ic_summary = cn_summary (al_condition r) x (plan_unit inp), ic_state = IncidentOpen, ic_value = v, ic_lastValue = v,
          ic_threshold = optFloat (jd_threshold (cn_judge (al_condition r))),
          ic_channelIDs = map ch_id (open_targets inp labels), ic_flapping = False, ic_openedAt = pi_end inp,
          ic_acknowledgedAt = None, ic_acknowledgedByEmail = [], ic_resolvedAt = None, ic_resolvedByEmail = [],
          ic_resolveReason = [], ic_muted = False\<rparr>)"

definition plan_event :: "plan_input \<Rightarrow> string \<Rightarrow> string \<Rightarrow> string \<Rightarrow> (string \<times> detail) list \<Rightarrow> incident_event" where
  "plan_event inp iid kind msg details =
     \<lparr>iv_incidentID = iid, iv_orgID = al_orgID (pi_rule inp), iv_at = pi_end inp, iv_kind = kind, iv_message = msg, iv_details = details\<rparr>"

definition add_notifications :: "notification list \<Rightarrow> eval_plan \<Rightarrow> eval_plan" where
  "add_notifications ns p = p\<lparr>ep_notifications := ep_notifications p @ ns, ep_ids := ep_ids p + length ns\<rparr>"

definition open_series :: "plan_input \<Rightarrow> string \<Rightarrow> series_row \<Rightarrow> sample option \<Rightarrow> eval_plan \<Rightarrow> series_row \<times> eval_plan" where
  "open_series inp key next smp p =
     (let inc = new_incident inp key next smp (pi_newID inp (ep_ids p));
          p1 = p\<lparr>ep_ids := Suc (ep_ids p), ep_opens := ep_opens p @ [inc],
                 ep_events := ep_events p @ [plan_event inp (ic_id inc) ''opened'' (ic_summary inc)
                   [(''value'', FloatDetail (ic_value inc)), (''threshold'', FloatDetail (ic_threshold inc))]]\<rparr>
      in (next\<lparr>ss_incident_id := ic_id inc, ss_incident := Some inc\<rparr>,
          add_notifications (notify_all (pi_rule inp) inc KindOpened [] (pi_publicURL inp) (pi_newID inp) (ep_ids p1)
            (open_targets inp (ic_labels inc))) p1))"

definition resolve_message :: "plan_input \<Rightarrow> string \<Rightarrow> sample option \<Rightarrow> string" where
  "resolve_message inp reason smp =
     (if reason \<noteq> ReasonRecovered then reason
      else case smp of Some x \<Rightarrow> ''recovered: value '' @ pi_formatValue inp (sm_value x) | None \<Rightarrow> ''recovered'')"

definition resolved_incident :: "plan_input \<Rightarrow> string \<Rightarrow> f64 option \<Rightarrow> incident \<Rightarrow> incident" where
  "resolved_incident inp reason v inc =
     inc\<lparr>ic_state := IncidentResolved, ic_resolvedAt := Some (pi_end inp), ic_resolveReason := reason,
         ic_lastValue := (if v \<noteq> None then v else ic_lastValue inc)\<rparr>"

definition resolve_series :: "plan_input \<Rightarrow> series_row \<Rightarrow> string \<Rightarrow> sample option \<Rightarrow> eval_plan \<Rightarrow> eval_plan" where
  "resolve_series inp prev reason smp p =
     (let v = optFloat (series_value smp);
          p1 = p\<lparr>ep_resolves := ep_resolves p @ [\<lparr>ir_id = ss_incident_id prev, ir_reason = reason, ir_at = pi_end inp, ir_lastValue = v\<rparr>],
                 ep_events := ep_events p @ [plan_event inp (ss_incident_id prev) ''resolved'' (resolve_message inp reason smp)
                   [(''reason'', TextDetail reason), (''value'', FloatDetail v)]]\<rparr>
      in case ss_incident prev of
           None \<Rightarrow> p1
         | Some inc \<Rightarrow> add_notifications (resolveNotifications (pi_rule inp) (resolved_incident inp reason v inc) (pi_publicURL inp)
                         (pi_newID inp) (ep_ids p1)) p1)"

text \<open>The incident object is shared with the row, so the row sees that it flaps.\<close>

definition mark_flapping :: "plan_input \<Rightarrow> bool \<Rightarrow> incident \<Rightarrow> f64 option \<Rightarrow> series_row \<times> eval_plan \<Rightarrow> incident \<times> series_row \<times> eval_plan" where
  "mark_flapping inp flap inc v sp =
     (case sp of (next, p) \<Rightarrow>
        if flap \<and> \<not> ic_flapping inc
        then (let inc1 = inc\<lparr>ic_flapping := True\<rparr> in
              (inc1, next\<lparr>ss_incident := Some inc1\<rparr>,
               p\<lparr>ep_updates := ep_updates p @ [\<lparr>iu_id = ic_id inc, iu_lastValue = v, iu_flapping = True\<rparr>],
                 ep_events := ep_events p @ [plan_event inp (ic_id inc) ''flapping'' ''flapping: recovery is held''
                   [(''hold_seconds'', IntDetail (fl_hold_seconds (al_flapping (pi_rule inp))))]]\<rparr>))
        else (inc, next, p))"

definition renotify_channels :: "plan_input \<Rightarrow> incident \<Rightarrow> channel_ref list" where
  "renotify_channels inp inc =
     filter (\<lambda>c. ch_id c \<noteq> []) (map (channelType (pi_channels inp)) (ic_channelIDs inc))"

definition renotify :: "plan_input \<Rightarrow> incident \<Rightarrow> f64 option \<Rightarrow> series_row \<Rightarrow> eval_plan \<Rightarrow> series_row \<times> eval_plan" where
  "renotify inp inc v next p =
     (let r = pi_rule inp in
      if al_renotifyIntervalSeconds r > 0 \<and> ic_state inc = IncidentOpen \<and>
         time_sub (pi_end inp) (ss_last_notified_at next) \<ge> seconds (al_renotifyIntervalSeconds r)
      then (let next1 = next\<lparr>ss_renotify_count := ss_renotify_count next + 1, ss_last_notified_at := pi_end inp\<rparr>;
                n = show_int (ss_renotify_count next1);
                cur = inc\<lparr>ic_lastValue := (if v \<noteq> None then v else ic_lastValue inc)\<rparr>;
                p1 = p\<lparr>ep_updates := ep_updates p @ [\<lparr>iu_id = ic_id inc, iu_lastValue = ic_lastValue cur, iu_flapping = ic_flapping inc\<rparr>],
                       ep_events := ep_events p @ [plan_event inp (ic_id inc) ''renotified'' (''re-notification '' @ n) []]\<rparr>
            in (next1, add_notifications (notify_all r cur KindRenotify n (pi_publicURL inp) (pi_newID inp) (ep_ids p1)
                  (renotify_channels inp inc)) p1))
      else (next, p))"

definition firing_series :: "plan_input \<Rightarrow> bool \<Rightarrow> sample option \<Rightarrow> series_row \<Rightarrow> eval_plan \<Rightarrow> series_row \<times> eval_plan" where
  "firing_series inp flap smp next p =
     (if ss_state next = StateFiring
      then (case ss_incident next of
              None \<Rightarrow> (next, p)
            | Some inc \<Rightarrow>
                (case mark_flapping inp flap inc (optFloat (series_value smp)) (next, p) of
                   (inc1, next1, p1) \<Rightarrow> renotify inp inc1 (optFloat (series_value smp)) next1 p1))
      else (next, p))"

definition plan_series :: "plan_input \<Rightarrow> string \<Rightarrow> eval_plan \<Rightarrow> eval_plan" where
  "plan_series inp key p =
     (let row = map_of (pi_states inp) key; smp = input_samples inp key in
      if row = None \<and> smp = None then p
      else
        let prev = load_series key row smp;
            out = Step prev (series_input inp smp) (StepConfigFor (pi_rule inp) (pi_delay inp));
            next = so_next out;
            p1 = p\<lparr>ep_transitions := (if so_transition out \<noteq> [] then count_tr (ep_transitions p) (so_transition out) else ep_transitions p),
                   ep_summaries := ep_summaries p @ [\<lparr>sy_key = key, sy_labels = ss_labels next, sy_value = series_value smp,
                     sy_state = state_of next\<rparr>]\<rparr>;
            (next2, p2) = (if so_open out then open_series inp key next smp p1
                           else if so_resolve out \<noteq> [] \<and> ss_incident_id prev \<noteq> [] then (next, resolve_series inp prev (so_resolve out) smp p1)
                           else firing_series inp (so_flapping out) smp next p1)
        in if so_persist out then p2\<lparr>ep_upserts := ep_upserts p2 @ [next2]\<rparr>
           else if so_delete out \<and> row \<noteq> None then p2\<lparr>ep_deletes := ep_deletes p2 @ [key]\<rparr>
           else p2)"

definition start_plan :: "plan_input \<Rightarrow> eval_plan" where
  "start_plan inp =
     \<lparr>ep_ruleID = al_id (pi_rule inp), ep_ruleVersion = al_version (pi_rule inp), ep_orgID = al_orgID (pi_rule inp),
      ep_evalEnd = pi_end inp, ep_result = ''ok'', ep_upserts = [], ep_deletes = [], ep_opens = [], ep_resolves = [],
      ep_updates = [], ep_events = [], ep_notifications = [], ep_transitions = (\<lambda>_. 0), ep_summaries = [], ep_ids = 0\<rparr>"

definition BuildPlan :: "plan_input \<Rightarrow> eval_plan" where
  "BuildPlan inp = fold (plan_series inp) (plan_keys inp) (start_plan inp)"

end
