(* ===== verification/AlertPlanCorrect.thy ===== *)
theory AlertPlanCorrect
  imports AlertPlan
begin

text \<open>
  What one evaluation commits: rows fire exactly while they have an open incident, a new incident is
  announced once on every channel it was routed to, a resolved incident is announced on the channels it
  was opened with, and re-notifications reach only the channels of the rule itself.
\<close>

section \<open>Steps and incidents\<close>

lemma step_begin_incident:
  "ss_incident_id (step_begin p i c) = ss_incident_id p" "ss_incident (step_begin p i c) = ss_incident p"
  by (simp_all add: step_begin_def Let_def)

lemma observe_incident:
  "ss_incident_id (fst (observe s i c)) = ss_incident_id s" "ss_incident (fst (observe s i c)) = ss_incident s"
  by (simp_all add: observe_def Let_def)

lemma step_end_incident:
  "ss_incident_id (so_next (step_end p c x)) = ss_incident_id (so_next x)"
  "ss_incident (so_next (step_end p c x)) = ss_incident (so_next x)"
  by (simp_all add: step_end_def Let_def)

lemmas incident_frame = step_begin_incident observe_incident step_end_incident

lemma observed_incident:
  "observe (step_begin p i c) i c = (s, v) \<Longrightarrow> ss_incident_id s = ss_incident_id p \<and> ss_incident s = ss_incident p"
  by (metis fst_conv incident_frame)

lemma switch_incident:
  "if so_resolve (step_switch e c b r m s) = []
   then ss_incident_id (so_next (step_switch e c b r m s)) = ss_incident_id s \<and>
        ss_incident (so_next (step_switch e c b r m s)) = ss_incident s
   else ss_incident_id (so_next (step_switch e c b r m s)) = [] \<and> ss_incident (so_next (step_switch e c b r m s)) = None"
  by (simp add: step_switch_def fired_def fire_state_def recover_step_def quiet_def resetToOK_def Let_def)

text \<open>A step lets go of the incident exactly when it resolves it.\<close>

lemma Step_incident:
  "if so_resolve (Step p i c) = []
   then ss_incident_id (so_next (Step p i c)) = ss_incident_id p \<and> ss_incident (so_next (Step p i c)) = ss_incident p
   else ss_incident_id (so_next (Step p i c)) = [] \<and> ss_incident (so_next (Step p i c)) = None"
proof (cases rule: Step_cases [of p i c])
  case (keep s)
  then show ?thesis using observed_incident [OF keep(1)] by (simp add: quiet_def)
next
  case (switch s b r m)
  then show ?thesis
    using observed_incident [OF switch(1)] switch_incident [of "si_end i" c b r m s] by (simp add: incident_frame)
qed

lemma Step_from_firing:
  assumes "state_of p = StateFiring"
  shows "ss_state (so_next (Step p i c)) \<in> {StateFiring, StateOK}"
proof (cases rule: Step_cases [of p i c])
  case (keep s)
  then show ?thesis using observed_state [OF keep(1)] assms by (simp add: quiet_def)
next
  case (switch s b r m)
  have "ss_state s = StateFiring" using observed_state [OF switch(1)] assms by simp
  then show ?thesis
    unfolding switch(2) by (simp add: step_switch_def recover_step_def quiet_def resetToOK_def Let_def)
qed

section \<open>Rows and incidents\<close>

text \<open>A row as the store loads it, and a row as an evaluation sees it once lost incidents are reset.\<close>

definition stored_ok :: "series_row \<Rightarrow> bool" where
  "stored_ok s \<longleftrightarrow>
     (state_of s = StateFiring \<longleftrightarrow> ss_incident_id s \<noteq> []) \<and>
     (case ss_incident s of None \<Rightarrow> True | Some i \<Rightarrow> ic_id i = ss_incident_id s \<and> ss_incident_id s \<noteq> [])"

definition live_ok :: "series_row \<Rightarrow> bool" where
  "live_ok s \<longleftrightarrow>
     stored_ok s \<and>
     (state_of s = StateFiring \<longrightarrow> (\<exists>i. ss_incident s = Some i \<and> ic_id i = ss_incident_id s \<and> ic_state i \<noteq> IncidentResolved))"

lemma live_ok_reset: "live_ok (resetToOK s)"
  by (simp add: live_ok_def stored_ok_def resetToOK_def state_of_def)

lemma live_ok_fresh: "live_ok (fresh_series k ls)"
  by (simp add: live_ok_def stored_ok_def fresh_series_def state_of_def)

lemma live_ok_frame [simp]:
  "live_ok (s\<lparr>ss_labels := ls\<rparr>) = live_ok s" "live_ok (s\<lparr>ss_key := k\<rparr>) = live_ok s"
  "live_ok (s\<lparr>ss_renotify_count := n, ss_last_notified_at := t\<rparr>) = live_ok s"
  by (simp_all add: live_ok_def stored_ok_def state_of_def cong: option.case_cong)

lemma stored_live: "stored_ok s \<Longrightarrow> \<not> gone_incident s \<Longrightarrow> live_ok s"
  by (auto simp: live_ok_def stored_ok_def gone_incident_def split: option.splits)

lemma load_series_live:
  "(\<And>s. row = Some s \<Longrightarrow> stored_ok s) \<Longrightarrow> live_ok (load_series key row smp)"
  by (auto simp: load_series_def Let_def live_ok_reset live_ok_fresh stored_live split: option.splits)

text \<open>Without an opening, a step keeps the row and its incident in agreement.\<close>

lemma Step_live:
  assumes "live_ok p" and "\<not> so_open (Step p i c)"
  shows "live_ok (so_next (Step p i c))"
proof -
  have st: "state_of (so_next (Step p i c)) = ss_state (so_next (Step p i c))"
    using Step_state_nonempty by (rule state_of_nonempty)
  show ?thesis
    using assms Step_open_resolve [of p i c] Step_incident [of p i c] Step_from_firing [of p i c]
    by (cases "so_resolve (Step p i c) = []") (auto simp: live_ok_def stored_ok_def st split: option.splits)
qed

section \<open>What holds of every plan\<close>

definition prev_of :: "plan_input \<Rightarrow> string \<Rightarrow> series_row" where
  "prev_of inp key = load_series key (map_of (pi_states inp) key) (input_samples inp key)"

definition out_of :: "plan_input \<Rightarrow> string \<Rightarrow> incident step_outcome" where
  "out_of inp key =
     Step (prev_of inp key) (series_input inp (input_samples inp key)) (StepConfigFor (pi_rule inp) (pi_delay inp))"

text \<open>
  The contract of a predicate \<open>I\<close> of the plan and a predicate \<open>R\<close> of the rows: each way a series can
  go keeps it. It then holds of the plan of the whole evaluation.
\<close>

locale plan_invariant =
  fixes inp :: plan_input and I :: "eval_plan \<Rightarrow> bool" and R :: "series_row \<Rightarrow> bool"
  assumes I_start: "I (start_plan inp)"
    and I_note: "I p \<Longrightarrow> I (p\<lparr>ep_transitions := tr, ep_summaries := sy\<rparr>)"
    and I_open: "I p \<Longrightarrow> so_open (out_of inp key) \<Longrightarrow>
          open_series inp key (so_next (out_of inp key)) (input_samples inp key) p = (s, q) \<Longrightarrow> I q \<and> R s"
    and I_resolve: "I p \<Longrightarrow> \<not> so_open (out_of inp key) \<Longrightarrow> so_resolve (out_of inp key) \<noteq> [] \<Longrightarrow>
          ss_incident_id (prev_of inp key) \<noteq> [] \<Longrightarrow>
          I (resolve_series inp (prev_of inp key) (so_resolve (out_of inp key)) (input_samples inp key) p)"
    and R_next: "\<not> so_open (out_of inp key) \<Longrightarrow> R (so_next (out_of inp key))"
    and I_firing: "I p \<Longrightarrow> \<not> so_open (out_of inp key) \<Longrightarrow>
          firing_series inp flap (input_samples inp key) (so_next (out_of inp key)) p = (s, q) \<Longrightarrow> I q \<and> R s"
    and I_upsert: "I p \<Longrightarrow> R s \<Longrightarrow> I (p\<lparr>ep_upserts := ep_upserts p @ [s]\<rparr>)"
    and I_delete: "I p \<Longrightarrow> I (p\<lparr>ep_deletes := ds\<rparr>)"
begin

lemma I_series:
  assumes "I p"
  shows "I (plan_series inp key p)"
proof (cases "map_of (pi_states inp) key = None \<and> input_samples inp key = None")
  case True
  then show ?thesis using assms by (simp add: plan_series_def)
next
  case False
  define p1 where "p1 = p\<lparr>ep_transitions := (if so_transition (out_of inp key) \<noteq> []
      then count_tr (ep_transitions p) (so_transition (out_of inp key)) else ep_transitions p),
    ep_summaries := ep_summaries p @ [\<lparr>sy_key = key, sy_labels = ss_labels (so_next (out_of inp key)),
      sy_value = series_value (input_samples inp key), sy_state = state_of (so_next (out_of inp key))\<rparr>]\<rparr>"
  define sq where "sq =
    (if so_open (out_of inp key) then open_series inp key (so_next (out_of inp key)) (input_samples inp key) p1
     else if so_resolve (out_of inp key) \<noteq> [] \<and> ss_incident_id (prev_of inp key) \<noteq> []
     then (so_next (out_of inp key),
           resolve_series inp (prev_of inp key) (so_resolve (out_of inp key)) (input_samples inp key) p1)
     else firing_series inp (so_flapping (out_of inp key)) (input_samples inp key) (so_next (out_of inp key)) p1)"
  have "I p1" unfolding p1_def using assms by (rule I_note)
  then have sq: "I (snd sq) \<and> R (fst sq)"
    unfolding sq_def
    using I_open [OF _ _ surjective_pairing] I_resolve R_next I_firing [OF _ _ surjective_pairing] by simp
  have "plan_series inp key p =
    (if so_persist (out_of inp key) then (snd sq)\<lparr>ep_upserts := ep_upserts (snd sq) @ [fst sq]\<rparr>
     else if so_delete (out_of inp key) \<and> map_of (pi_states inp) key \<noteq> None
     then (snd sq)\<lparr>ep_deletes := ep_deletes (snd sq) @ [key]\<rparr> else snd sq)"
    using False
    unfolding plan_series_def Let_def sq_def p1_def out_of_def [symmetric] prev_of_def [symmetric]
    by (simp only: if_False case_prod_unfold)
  then show ?thesis using sq I_upsert I_delete by simp
qed

lemma I_plan: "I (BuildPlan inp)"
  unfolding BuildPlan_def
  by (rule fold_invariant [where Q = "\<lambda>_. True"]) (simp_all add: I_start I_series)

end

section \<open>Notifications of one incident\<close>

lemma newNotification_sel [simp]:
  "no_incidentID (newNotification r inc c k sq u i) = ic_id inc" "no_kind (newNotification r inc c k sq u i) = k"
  "no_channelID (newNotification r inc c k sq u i) = ch_id c" "no_channelType (newNotification r inc c k sq u i) = ch_type c"
  by (simp_all add: newNotification_def Let_def)

lemma notify_all_in:
  "x \<in> set (notify_all r inc k sq u f n cs) \<Longrightarrow>
     no_kind x = k \<and> no_incidentID x = ic_id inc \<and> (\<exists>c\<in>set cs. no_channelID x = ch_id c \<and> no_channelType x = ch_type c)"
  by (induction r inc k sq u f n cs rule: notify_all.induct) auto

lemma notify_all_channels: "map no_channelID (notify_all r inc k sq u f n cs) = map ch_id cs"
  by (induction r inc k sq u f n cs rule: notify_all.induct) simp_all

lemma add_notifications_sel [simp]:
  "ep_notifications (add_notifications ns p) = ep_notifications p @ ns" "ep_ids (add_notifications ns p) = ep_ids p + length ns"
  "ep_upserts (add_notifications ns p) = ep_upserts p" "ep_opens (add_notifications ns p) = ep_opens p"
  "ep_resolves (add_notifications ns p) = ep_resolves p"
  by (simp_all add: add_notifications_def)

text \<open>What the three ways of a series add to the plan, as far as the properties below look at it.\<close>

lemma open_series_result:
  assumes "open_series inp key nx smp p = (s, q)"
  defines "inc \<equiv> new_incident inp key nx smp (pi_newID inp (ep_ids p))"
  shows "s = nx\<lparr>ss_incident_id := ic_id inc, ss_incident := Some inc\<rparr> \<and> ep_opens q = ep_opens p @ [inc] \<and>
         ep_upserts q = ep_upserts p \<and> ep_resolves q = ep_resolves p \<and>
         (\<exists>ns. ep_notifications q = ep_notifications p @ ns \<and> ep_ids q = Suc (ep_ids p) + length ns \<and>
            ns = notify_all (pi_rule inp) inc KindOpened [] (pi_publicURL inp) (pi_newID inp) (Suc (ep_ids p))
                   (open_targets inp (ic_labels inc)))"
  using assms by (auto simp: open_series_def Let_def)

lemma resolve_series_result:
  fixes inp prev reason smp p
  defines "q \<equiv> resolve_series inp prev reason smp p"
  shows "ep_opens q = ep_opens p \<and> ep_upserts q = ep_upserts p \<and>
         ep_resolves q = ep_resolves p @ [\<lparr>ir_id = ss_incident_id prev, ir_reason = reason, ir_at = pi_end inp,
           ir_lastValue = optFloat (series_value smp)\<rparr>] \<and>
         (\<exists>ns. ep_notifications q = ep_notifications p @ ns \<and> ep_ids q = ep_ids p + length ns \<and>
            ns = (case ss_incident prev of None \<Rightarrow> []
                  | Some i \<Rightarrow> resolveNotifications (pi_rule inp) (resolved_incident inp reason (optFloat (series_value smp)) i)
                      (pi_publicURL inp) (pi_newID inp) (ep_ids p)))"
  unfolding q_def by (cases "ss_incident prev") (simp_all add: resolve_series_def Let_def)

lemma renotify_result:
  assumes "renotify inp inc v nx p = (s, q)"
  shows "ss_incident s = ss_incident nx \<and> ss_incident_id s = ss_incident_id nx \<and> ss_state s = ss_state nx \<and>
         ep_opens q = ep_opens p \<and> ep_upserts q = ep_upserts p \<and> ep_resolves q = ep_resolves p \<and>
         (\<exists>ns. ep_notifications q = ep_notifications p @ ns \<and> ep_ids q = ep_ids p + length ns \<and>
            list_all (\<lambda>x. no_kind x = KindRenotify \<and>
              list_ex (\<lambda>c. no_channelID x = ch_id c \<and> no_channelType x = ch_type c) (renotify_channels inp inc)) ns)"
  using assms
  by (auto simp: renotify_def Let_def list_all_iff list_ex_iff dest!: notify_all_in split: if_splits)

lemma renotify_channels_own: "c \<in> set (renotify_channels inp inc) \<Longrightarrow> c \<in> set (pi_channels inp)"
  by (auto simp: renotify_channels_def channelType_def split: option.splits dest!: find_chosen [OF sym] dest: find_chosen)

lemma firing_series_result:
  assumes "firing_series inp flap smp nx p = (s, q)"
  shows "(live_ok nx \<longrightarrow> live_ok s) \<and> ep_opens q = ep_opens p \<and> ep_upserts q = ep_upserts p \<and> ep_resolves q = ep_resolves p \<and>
         (\<exists>ns. ep_notifications q = ep_notifications p @ ns \<and> ep_ids q = ep_ids p + length ns \<and>
            list_all (\<lambda>x. no_kind x = KindRenotify \<and>
              list_ex (\<lambda>c. no_channelID x = ch_id c \<and> no_channelType x = ch_type c) (pi_channels inp)) ns)"
proof (cases "ss_state nx = StateFiring \<and> ss_incident nx \<noteq> None")
  case False
  then show ?thesis using assms by (auto simp: firing_series_def split: if_splits option.splits)
next
  case True
  then obtain inc where inc: "ss_incident nx = Some inc" by auto
  let ?v = "optFloat (series_value smp)"
  obtain inc1 nx1 p1 where m: "mark_flapping inp flap inc ?v (nx, p) = (inc1, nx1, p1)" by (cases "mark_flapping inp flap inc ?v (nx, p)")
  have r: "renotify inp inc1 ?v nx1 p1 = (s, q)"
    using assms True inc m by (simp add: firing_series_def)
  have nx1: "ss_incident nx1 = Some inc1 \<and> ic_id inc1 = ic_id inc \<and> ic_state inc1 = ic_state inc \<and>
      ss_incident_id nx1 = ss_incident_id nx \<and> ss_state nx1 = ss_state nx \<and>
      ep_opens p1 = ep_opens p \<and> ep_upserts p1 = ep_upserts p \<and> ep_resolves p1 = ep_resolves p \<and>
      ep_notifications p1 = ep_notifications p \<and> ep_ids p1 = ep_ids p"
    using m inc by (auto simp: mark_flapping_def Let_def split: if_splits)
  have "live_ok nx \<longrightarrow> live_ok s"
    using renotify_result [OF r] nx1 inc by (auto simp: live_ok_def stored_ok_def state_of_def)
  then show ?thesis
    using renotify_result [OF r] nx1 renotify_channels_own [of _ inp inc1]
    by (simp add: list_all_iff list_ex_iff) meson
qed

section \<open>Rows fire while their incident is open\<close>

definition rows_given :: "plan_input \<Rightarrow> bool" where
  "rows_given inp \<longleftrightarrow> list_all (\<lambda>(k, s). stored_ok s) (pi_states inp)"

lemma rows_given_at: "rows_given inp \<Longrightarrow> map_of (pi_states inp) key = Some s \<Longrightarrow> stored_ok s"
  by (auto simp: rows_given_def list_all_iff dest!: map_of_SomeD)

lemma prev_of_live: "rows_given inp \<Longrightarrow> live_ok (prev_of inp key)"
  unfolding prev_of_def by (rule load_series_live) (rule rows_given_at)

lemma out_of_live: "rows_given inp \<Longrightarrow> \<not> so_open (out_of inp key) \<Longrightarrow> live_ok (so_next (out_of inp key))"
  unfolding out_of_def by (rule Step_live [OF prev_of_live])

lemma out_of_open_state: "so_open (out_of inp key) \<Longrightarrow> ss_state (so_next (out_of inp key)) = StateFiring"
  unfolding out_of_def using Step_open_resolve by blast

lemma new_incident_sel [simp]:
  "ic_id (new_incident inp key nx smp i) = i" "ic_state (new_incident inp key nx smp i) = IncidentOpen"
  "ic_channelIDs (new_incident inp key nx smp i) = map ch_id (open_targets inp (ic_labels (new_incident inp key nx smp i)))"
  by (simp_all add: new_incident_def Let_def)

lemma opened_live:
  "so_open (out_of inp key) \<Longrightarrow> i \<noteq> [] \<Longrightarrow>
     live_ok ((so_next (out_of inp key))\<lparr>ss_incident_id := i, ss_incident := Some (new_incident inp key nx smp i)\<rparr>)"
  by (simp add: live_ok_def stored_ok_def state_of_def out_of_open_state)

interpretation rows: plan_invariant inp
  "\<lambda>p. rows_given inp \<and> [] \<notin> range (pi_newID inp) \<longrightarrow> list_all live_ok (ep_upserts p)"
  "\<lambda>s. rows_given inp \<and> [] \<notin> range (pi_newID inp) \<longrightarrow> live_ok s" for inp
proof (unfold_locales, goal_cases)
  case (3 p key s q)
  have "pi_newID inp (ep_ids p) \<noteq> []" if "[] \<notin> range (pi_newID inp)" using that by (metis rangeI)
  then show ?case using 3(1) open_series_result [OF 3(3)] opened_live [OF 3(2)] by simp
next
  case (4 p key)
  then show ?case by (simp add: resolve_series_result)
next
  case (6 p key flap s q)
  then show ?case using firing_series_result [OF 6(3)] out_of_live [of inp key] by auto
qed (auto simp: start_plan_def out_of_live)

section \<open>New incidents are announced\<close>

definition announces :: "string \<Rightarrow> notification \<Rightarrow> bool" where
  "announces i n \<longleftrightarrow> no_incidentID n = i \<and> no_kind n = KindOpened"

definition announced :: "plan_input \<Rightarrow> eval_plan \<Rightarrow> bool" where
  "announced inp p \<longleftrightarrow>
     (\<forall>inc\<in>set (ep_opens p). ic_id inc \<in> pi_newID inp ` {..<ep_ids p} \<and>
        ic_channelIDs inc = map ch_id (open_targets inp (ic_labels inc)) \<and>
        map no_channelID (filter (announces (ic_id inc)) (ep_notifications p)) = ic_channelIDs inc) \<and>
     (\<forall>n\<in>set (ep_notifications p). no_kind n = KindOpened \<longrightarrow> no_incidentID n \<in> pi_newID inp ` {..<ep_ids p})"

lemma filter_announces_notify:
  "filter (announces i) (notify_all r inc k sq u f n cs) =
     (if ic_id inc = i \<and> k = KindOpened then notify_all r inc k sq u f n cs else [])"
  by (induction r inc k sq u f n cs rule: notify_all.induct) (auto simp: announces_def)

text \<open>Notifications of other kinds change nothing.\<close>

lemma announced_more:
  assumes "announced inp p" and "ep_opens q = ep_opens p" and "ep_notifications q = ep_notifications p @ ns"
    and "ep_ids q = ep_ids p + length ns" and "\<And>x. x \<in> set ns \<Longrightarrow> no_kind x \<noteq> KindOpened"
  shows "announced inp q"
proof -
  have none: "filter (announces i) ns = []" for i
    using assms(5) by (auto simp: filter_empty_conv announces_def)
  have "pi_newID inp ` {..<ep_ids p} \<subseteq> pi_newID inp ` {..<ep_ids q}" using assms(4) by auto
  then show ?thesis using assms(1,2,3,5) none unfolding announced_def by (auto simp: subset_iff)
qed

lemma announced_open:
  assumes a: "announced inp p" and inj: "inj (pi_newID inp)" and o: "open_series inp key nx smp p = (s, q)"
  shows "announced inp q"
proof -
  let ?new = "pi_newID inp (ep_ids p)"
  let ?inc = "new_incident inp key nx smp ?new"
  obtain ns where q: "ep_opens q = ep_opens p @ [?inc]" "ep_notifications q = ep_notifications p @ ns"
      "ep_ids q = Suc (ep_ids p) + length ns"
    and ns: "ns = notify_all (pi_rule inp) ?inc KindOpened [] (pi_publicURL inp) (pi_newID inp) (Suc (ep_ids p))
               (open_targets inp (ic_labels ?inc))"
    using open_series_result [OF o] by auto
  have fresh: "?new \<notin> pi_newID inp ` {..<ep_ids p}" using inj by (auto dest: injD)
  have sub: "pi_newID inp ` {..<ep_ids p} \<subseteq> pi_newID inp ` {..<ep_ids q}" "?new \<in> pi_newID inp ` {..<ep_ids q}"
    using q(3) by auto
  have old: "filter (announces ?new) (ep_notifications p) = []"
    using a fresh unfolding filter_empty_conv announced_def announces_def by metis
  have same: "filter (announces i) (ep_notifications q) = filter (announces i) (ep_notifications p)" if "i \<noteq> ?new" for i
    using that by (simp add: q ns filter_announces_notify)
  have here: "map no_channelID (filter (announces ?new) (ep_notifications q)) = ic_channelIDs ?inc"
    by (simp add: q ns filter_announces_notify old notify_all_channels)
  have kinds: "no_incidentID n = ?new" if "n \<in> set ns" for n using notify_all_in that unfolding ns by fastforce
  show ?thesis
    unfolding announced_def
  proof (intro conjI ballI impI)
    fix inc assume "inc \<in> set (ep_opens q)"
    then consider "inc = ?inc" | "inc \<in> set (ep_opens p)" by (auto simp: q)
    then have "ic_id inc \<in> pi_newID inp ` {..<ep_ids q} \<and> ic_channelIDs inc = map ch_id (open_targets inp (ic_labels inc)) \<and>
        map no_channelID (filter (announces (ic_id inc)) (ep_notifications q)) = ic_channelIDs inc"
    proof cases
      case 1
      then show ?thesis using sub(2) here by simp
    next
      case 2
      then have "ic_id inc \<in> pi_newID inp ` {..<ep_ids p}" using a by (simp add: announced_def)
      then show ?thesis using 2 a sub(1) same [of "ic_id inc"] fresh by (metis (no_types, lifting) announced_def subsetD)
    qed
    then show "ic_id inc \<in> pi_newID inp ` {..<ep_ids q}" "ic_channelIDs inc = map ch_id (open_targets inp (ic_labels inc))"
      "map no_channelID (filter (announces (ic_id inc)) (ep_notifications q)) = ic_channelIDs inc" by blast+
  next
    fix n assume "n \<in> set (ep_notifications q)" "no_kind n = KindOpened"
    then show "no_incidentID n \<in> pi_newID inp ` {..<ep_ids q}"
      using a sub kinds unfolding announced_def q(2) by (metis UnE set_append subsetD)
  qed
qed

lemma resolve_kinds: "n \<in> set (resolveNotifications r inc u f i) \<Longrightarrow> no_kind n = KindResolved \<and> no_incidentID n = ic_id inc"
  unfolding resolveNotifications_def using notify_all_in by blast

lemma announced_frame [simp]:
  "announced inp (p\<lparr>ep_transitions := tr, ep_summaries := sy\<rparr>) = announced inp p"
  "announced inp (p\<lparr>ep_upserts := us\<rparr>) = announced inp p" "announced inp (p\<lparr>ep_deletes := ds\<rparr>) = announced inp p"
  by (simp_all add: announced_def)

interpretation announcing: plan_invariant inp "\<lambda>p. inj (pi_newID inp) \<longrightarrow> announced inp p" "\<lambda>_. True" for inp
proof (unfold_locales, goal_cases)
  case (3 p key s q)
  then show ?case using announced_open by blast
next
  case (4 p key)
  obtain ns where "ep_notifications (resolve_series inp (prev_of inp key) (so_resolve (out_of inp key)) (input_samples inp key) p) =
      ep_notifications p @ ns" "ep_ids (resolve_series inp (prev_of inp key) (so_resolve (out_of inp key)) (input_samples inp key) p) =
      ep_ids p + length ns" "\<And>x. x \<in> set ns \<Longrightarrow> no_kind x \<noteq> KindOpened"
    using resolve_series_result [of inp "prev_of inp key" "so_resolve (out_of inp key)" "input_samples inp key" p] resolve_kinds
    by (auto split: option.splits)
  then show ?case using announced_more 4(1) resolve_series_result by blast
next
  case (6 p key flap s q)
  then show ?case
    using firing_series_result [OF 6(3)] announced_more [of inp p q] by (auto simp: list_all_iff)
qed (auto simp: start_plan_def announced_def)

section \<open>Resolved incidents are announced\<close>

definition told :: "plan_input \<Rightarrow> eval_plan \<Rightarrow> incident_resolve \<Rightarrow> bool" where
  "told inp p r \<longleftrightarrow>
     (\<exists>key s i. map_of (pi_states inp) key = Some s \<and> ss_incident s = Some i \<and> ic_id i = ir_id r \<and>
        ic_state i \<noteq> IncidentResolved \<and>
        set (ic_channelIDs i) \<subseteq> no_channelID ` {n \<in> set (ep_notifications p). no_kind n = KindResolved \<and> no_incidentID n = ir_id r})"

lemma told_more: "told inp p r \<Longrightarrow> set (ep_notifications p) \<subseteq> set (ep_notifications q) \<Longrightarrow> told inp q r"
  unfolding told_def by (elim exE, intro exI conjI; blast)

lemma told_frame [simp]:
  "told inp (p\<lparr>ep_transitions := tr, ep_summaries := sy\<rparr>) = told inp p"
  "told inp (p\<lparr>ep_upserts := us\<rparr>) = told inp p" "told inp (p\<lparr>ep_deletes := ds\<rparr>) = told inp p"
  by (simp_all add: told_def fun_eq_iff)

lemma load_series_incident:
  "ss_incident (load_series key row smp) = Some i \<Longrightarrow> (\<exists>s. row = Some s \<and> ss_incident s = Some i)"
  by (auto simp: load_series_def Let_def resetToOK_def fresh_series_def split: option.splits if_splits)

text \<open>A live row with an incident comes from a stored one.\<close>

lemma prev_of_incident:
  assumes "rows_given inp" and "ss_incident_id (prev_of inp key) \<noteq> []"
  obtains s i where "map_of (pi_states inp) key = Some s" and "ss_incident s = Some i"
    and "ss_incident (prev_of inp key) = Some i" and "ic_id i = ss_incident_id (prev_of inp key)" and "ic_state i \<noteq> IncidentResolved"
proof -
  have "live_ok (prev_of inp key)" using assms(1) by (rule prev_of_live)
  then obtain i where i: "ss_incident (prev_of inp key) = Some i" "ic_id i = ss_incident_id (prev_of inp key)"
      "ic_state i \<noteq> IncidentResolved"
    using assms(2) by (auto simp: live_ok_def stored_ok_def)
  then show ?thesis using that load_series_incident unfolding prev_of_def by blast
qed

lemma resolve_channels:
  "no_channelID ` {n \<in> set (resolveNotifications r inc u f k). no_kind n = KindResolved \<and> no_incidentID n = ic_id inc} =
     set (ic_channelIDs inc)"
proof -
  have "{n \<in> set (resolveNotifications r inc u f k). no_kind n = KindResolved \<and> no_incidentID n = ic_id inc} =
      set (resolveNotifications r inc u f k)"
    using resolve_kinds by blast
  moreover have "map no_channelID (resolveNotifications r inc u f k) = ic_channelIDs inc"
    by (simp add: resolveNotifications_def notify_all_channels bare_channel_def comp_def)
  ultimately show ?thesis by (metis set_map)
qed

lemma told_resolve:
  fixes inp p key reason smp
  assumes "rows_given inp" and "\<forall>r\<in>set (ep_resolves p). told inp p r" and "ss_incident_id (prev_of inp key) \<noteq> []"
  defines "q \<equiv> resolve_series inp (prev_of inp key) reason smp p"
  shows "\<forall>r\<in>set (ep_resolves q). told inp q r"
proof
  fix r assume r: "r \<in> set (ep_resolves q)"
  obtain s i where row: "map_of (pi_states inp) key = Some s" "ss_incident s = Some i" "ss_incident (prev_of inp key) = Some i"
      "ic_id i = ss_incident_id (prev_of inp key)" "ic_state i \<noteq> IncidentResolved"
    using prev_of_incident [OF assms(1,3)] by blast
  define new where "new = resolveNotifications (pi_rule inp)
    (resolved_incident inp reason (optFloat (series_value smp)) i) (pi_publicURL inp) (pi_newID inp) (ep_ids p)"
  have sent: "ep_notifications q = ep_notifications p @ new"
    using resolve_series_result [of inp "prev_of inp key" reason smp p] row(3) by (simp add: q_def new_def)
  consider "r \<in> set (ep_resolves p)" | "ir_id r = ss_incident_id (prev_of inp key)"
    using r resolve_series_result [of inp "prev_of inp key" reason smp p] by (auto simp: q_def)
  then show "told inp q r"
  proof cases
    case 1
    then show ?thesis using assms(2) told_more sent by (metis Un_upper1 set_append)
  next
    case 2
    have "set (ic_channelIDs i) = no_channelID ` {n \<in> set new. no_kind n = KindResolved \<and> no_incidentID n = ir_id r}"
      using resolve_channels [of "pi_rule inp" "resolved_incident inp reason (optFloat (series_value smp)) i"]
      by (simp add: new_def resolved_incident_def row(4) 2)
    then show ?thesis unfolding told_def using row 2 sent by (intro exI conjI) auto
  qed
qed

interpretation resolving: plan_invariant inp "\<lambda>p. rows_given inp \<longrightarrow> (\<forall>r\<in>set (ep_resolves p). told inp p r)" "\<lambda>_. True" for inp
proof (unfold_locales, goal_cases)
  case (3 p key s q)
  then show ?case using open_series_result [OF 3(3)] told_more [of inp p _ q] by auto
next
  case (4 p key)
  then show ?case using told_resolve by blast
next
  case (6 p key flap s q)
  then show ?case using firing_series_result [OF 6(3)] told_more [of inp p _ q] by auto
qed (auto simp: start_plan_def)

section \<open>Re-notifications\<close>

definition renotify_own :: "plan_input \<Rightarrow> notification \<Rightarrow> bool" where
  "renotify_own inp n \<longleftrightarrow>
     no_kind n \<noteq> KindRenotify \<or> list_ex (\<lambda>c. no_channelID n = ch_id c \<and> no_channelType n = ch_type c) (pi_channels inp)"

lemma notify_own: "k \<noteq> KindRenotify \<Longrightarrow> list_all (renotify_own inp) (notify_all r inc k sq u f n cs)"
  using notify_all_in by (fastforce simp: list_all_iff renotify_own_def)

interpretation renotifying: plan_invariant inp "\<lambda>p. list_all (renotify_own inp) (ep_notifications p)" "\<lambda>_. True" for inp
proof (unfold_locales, goal_cases)
  case (3 p key s q)
  then show ?case using open_series_result [OF 3(3)] by (auto simp: notify_own)
next
  case (4 p key)
  then show ?case
    using resolve_series_result [of inp "prev_of inp key" "so_resolve (out_of inp key)" "input_samples inp key" p]
    by (auto simp: notify_own resolveNotifications_def split: option.splits)
next
  case (6 p key flap s q)
  then show ?case using firing_series_result [OF 6(3)] by (auto simp: list_all_iff renotify_own_def)
qed (simp_all add: start_plan_def)

section \<open>The evaluation\<close>

text \<open>
  C21: an evaluation keeps rows and incidents in agreement. If every stored row fires exactly while it names
  an incident, then so does every row that is written, and the incident of a firing row is loaded, named by
  the row and not resolved, however the evaluation went for the series.
\<close>

theorem evaluation_keeps_rows:
  assumes "rows_given inp" and "[] \<notin> range (pi_newID inp)"
  shows "list_all live_ok (ep_upserts (BuildPlan inp))"
  using rows.I_plan assms by blast

text \<open>
  C22: an incident that an evaluation opens is announced once on every channel it is routed to, in their
  order, and on no other; these channels are stored with the incident.
\<close>

theorem opened_incident_announced:
  assumes "inj (pi_newID inp)" and "inc \<in> set (ep_opens (BuildPlan inp))"
  shows "ic_channelIDs inc = map ch_id (open_targets inp (ic_labels inc)) \<and>
         map no_channelID (filter (announces (ic_id inc)) (ep_notifications (BuildPlan inp))) = ic_channelIDs inc"
  using announcing.I_plan assms unfolding announced_def by blast

text \<open>
  C24: every resolution of an evaluation concerns the unresolved incident of a stored row, and it is announced
  on all channels the incident was opened with.
\<close>

theorem resolved_incident_announced:
  assumes "rows_given inp" and "r \<in> set (ep_resolves (BuildPlan inp))"
  shows "\<exists>key s i. map_of (pi_states inp) key = Some s \<and> ss_incident s = Some i \<and> ic_id i = ir_id r \<and>
           ic_state i \<noteq> IncidentResolved \<and>
           set (ic_channelIDs i) \<subseteq> no_channelID `
             {n \<in> set (ep_notifications (BuildPlan inp)). no_kind n = KindResolved \<and> no_incidentID n = ir_id r}"
  using resolving.I_plan assms unfolding told_def by blast


end
