(* ===== verification/AlertPlanExamples.thy ===== *)
theory AlertPlanExamples
  imports AlertPlanCorrect
begin

text \<open>
  A concrete evaluation in which one series opens an incident, one is re-notified and one resolves. The
  organization routes critical incidents to the channels \<open>ops\<close> and \<open>dev\<close>; the rule has \<open>dev\<close> only.
\<close>

definition demo_incident :: "string \<Rightarrow> incident" where
  "demo_incident k =
     \<lparr>ic_id = ''old-'' @ k, ic_orgID = ''o'', ic_ruleID = ''r'', ic_ruleName = ''load'', ic_ruleType = ''metric'',
      ic_severity = ''critical'', ic_seriesKey = k, ic_labels = Map.empty, ic_summary = [], ic_state = ''open'',
      ic_value = Some (FNum False 9), ic_lastValue = Some (FNum False 9), ic_threshold = Some (FNum False 5),
      ic_channelIDs = [''ops'', ''dev''], ic_flapping = False, ic_openedAt = 100 * second, ic_acknowledgedAt = None,
      ic_acknowledgedByEmail = [], ic_resolvedAt = None, ic_resolvedByEmail = [], ic_resolveReason = [], ic_muted = False\<rparr>"

definition demo_row :: "string \<Rightarrow> series_row" where
  "demo_row k = (fresh_series k Map.empty)\<lparr>ss_state := ''firing'', ss_firing_since := 100 * second,
     ss_incident_id := ''old-'' @ k, ss_last_notified_at := 100 * second, ss_incident := Some (demo_incident k)\<rparr>"

definition demo_rule :: rule where
  "demo_rule =
     \<lparr>al_id = ''r'', al_orgID = ''o'', al_orgName = ''Org'', al_version = 1, al_name = ''load'', al_type = ''metric'',
      al_severity = ''critical'', al_intervalSeconds = 30, al_forSeconds = 0, al_recoveryForSeconds = 0,
      al_renotifyIntervalSeconds = 60, al_flapping = DefaultFlapping, al_runbookURL = [], al_labels = [],
      al_condition = \<lparr>cn_judge = \<lparr>jd_operator = ''gt'', jd_threshold = FNum False 5, jd_recovery = FNum False 5\<rparr>,
        cn_missing = ''keep'', cn_window = 60 * second, cn_summary = (\<lambda>s u. sm_key s)\<rparr>\<rparr>"

definition demo_channel :: "string \<Rightarrow> channel_ref" where
  "demo_channel c = \<lparr>ch_id = c, ch_type = ''webhook'', ch_enabled = True\<rparr>"

definition demo_routing :: routing where
  "demo_routing =
     \<lparr>rg_rules = [\<lparr>rr_id = ''x'', rr_enabled = True, rr_isDefault = False,
        rr_match = \<lparr>ro_severities = [''critical''], ro_services = [], ro_ruleTypes = [], ro_labels = [], ro_window = None\<rparr>,
        rr_channelIDs = [''ops'', ''dev'']\<rparr>],
      rg_channels = [demo_channel ''dev'', demo_channel ''ops'']\<rparr>"

definition demo_sample :: "string \<Rightarrow> rat \<Rightarrow> sample" where
  "demo_sample k v = \<lparr>sm_key = k, sm_labels = Map.empty, sm_value = FNum False v\<rparr>"

definition demo_eval :: plan_input where
  "demo_eval =
     \<lparr>pi_rule = demo_rule, pi_channels = [demo_channel ''dev''],
      pi_states = [(''disk'', demo_row ''disk''), (''net'', demo_row ''net'')],
      pi_prevEvalEnd = 270 * second, pi_end = 300 * second,
      pi_result = Some ([demo_sample ''net'' 1, demo_sample ''cpu'' 9, demo_sample ''disk'' 8], []), pi_delay = 0,
      pi_publicURL = [], pi_newID = (\<lambda>n. CHR ''i'' # replicate n CHR ''i''), pi_routing = Some demo_routing,
      pi_lib = \<lparr>rl_zone = (\<lambda>_. None), rl_lower = (\<lambda>s. s)\<rparr>, pi_formatValue = (\<lambda>_. [])\<rparr>"

lemma demo_ids: "inj (pi_newID demo_eval)" "[] \<notin> range (pi_newID demo_eval)"
  by (auto simp: demo_eval_def inj_def)

lemma demo_rows: "rows_given demo_eval"
  by (simp add: rows_given_def demo_eval_def stored_ok_def demo_row_def demo_incident_def fresh_series_def state_of_def)

lemma demo_sent:
  "map (\<lambda>n. (no_incidentID n, no_kind n, no_channelID n)) (ep_notifications (BuildPlan demo_eval)) =
     [(''i'', ''opened'', ''ops''), (''i'', ''opened'', ''dev''), (''old-disk'', ''renotify'', ''dev''),
      (''old-net'', ''resolved'', ''ops''), (''old-net'', ''resolved'', ''dev'')]"
  by code_simp

lemma demo_evaluation:
  "map ic_id (ep_opens (BuildPlan demo_eval)) = [''i'']" "map ir_id (ep_resolves (BuildPlan demo_eval)) = [''old-net'']"
  "map ss_key (ep_upserts (BuildPlan demo_eval)) = [''cpu'', ''disk'']" "ep_deletes (BuildPlan demo_eval) = [''net'']"
  by code_simp+

theorem evaluation_keeps_rows_witness: "list_all live_ok (ep_upserts (BuildPlan demo_eval))"
  by (rule evaluation_keeps_rows [OF demo_rows demo_ids(2)])

lemma demo_opened: "hd (ep_opens (BuildPlan demo_eval)) \<in> set (ep_opens (BuildPlan demo_eval))"
  using demo_evaluation(1) by (intro hd_in_set) auto

theorem opened_incident_announced_witness:
  "\<exists>inc :: incident. ic_id inc = ''i'' \<and>
     map no_channelID (filter (announces (ic_id inc)) (ep_notifications (BuildPlan demo_eval))) = ic_channelIDs inc"
proof (intro exI [of _ "hd (ep_opens (BuildPlan demo_eval))"] conjI)
  show "ic_id (hd (ep_opens (BuildPlan demo_eval))) = ''i''"
    using demo_evaluation(1) by (cases "ep_opens (BuildPlan demo_eval)") auto
qed (use opened_incident_announced [OF demo_ids(1) demo_opened] in blast)

theorem resolved_incident_announced_witness:
  "\<exists>key s i. map_of (pi_states demo_eval) key = Some s \<and> ss_incident s = Some i \<and> ic_id i = ''old-net'' \<and>
     set (ic_channelIDs i) \<subseteq> no_channelID `
       {n \<in> set (ep_notifications (BuildPlan demo_eval)). no_kind n = KindResolved \<and> no_incidentID n = ''old-net''}"
proof -
  obtain r where r: "r \<in> set (ep_resolves (BuildPlan demo_eval))" "ir_id r = ''old-net''"
    using demo_evaluation(2) by (cases "ep_resolves (BuildPlan demo_eval)") auto
  from resolved_incident_announced [OF demo_rows r(1)] show ?thesis unfolding r(2) by blast
qed


end
