(* ===== verification/Release.thy ===== *)
theory Release
  imports Ordering
begin

text \<open>
  Release primitives of \<^verbatim>\<open>libs/release\<close>: SemVer versions (\<^verbatim>\<open>semver.go\<close>), release
  manifests and indexes (\<^verbatim>\<open>manifest.go\<close>). Versions parse and print back to themselves,
  \<open>Compare\<close> is a linear order that follows SemVer precedence, and a validated index or manifest
  never offers a pre-release on the stable channel.
\<close>

section \<open>Versions\<close>

record version =
  v_major :: nat
  v_minor :: nat
  v_patch :: nat
  v_pre :: "string list"

datatype id_error = EmptyIds | EmptyIdentifier | InvalidCharacter | LeadingZero string

datatype version_error =
    BuildMetadata id_error | PreRelease id_error | WantMajorMinorPatch
  | InvalidNumber string | NumberOutOfRange string

definition isNumeric :: "string \<Rightarrow> bool" where
  "isNumeric s \<longleftrightarrow> s \<noteq> [] \<and> list_all is_digit s"

definition id_char :: "char \<Rightarrow> bool" where
  "id_char c \<longleftrightarrow> is_digit c \<or> is_lower c \<or> is_upper c \<or> c = CHR ''-''"

fun check_id_list :: "string list \<Rightarrow> bool \<Rightarrow> id_error option" where
  "check_id_list [] nz = None"
| "check_id_list (i # is) nz =
     (if i = [] then Some EmptyIdentifier
      else if \<not> list_all id_char i then Some InvalidCharacter
      else if nz \<and> isNumeric i \<and> length i > 1 \<and> hd i = CHR ''0'' then Some (LeadingZero i)
      else check_id_list is nz)"

definition checkIdentifiers :: "string \<Rightarrow> bool \<Rightarrow> id_error option" where
  "checkIdentifiers s noLeadingZeros =
     (if s = [] then Some EmptyIds else check_id_list (split_on CHR ''.'' s) noLeadingZeros)"

fun parse_numbers :: "string list \<Rightarrow> version_error + nat list" where
  "parse_numbers [] = Inr []"
| "parse_numbers (p # ps) =
     (if \<not> isNumeric p \<or> (length p > 1 \<and> hd p = CHR ''0'') then Inl (InvalidNumber p)
      else (case parse_uint64 p of
              None \<Rightarrow> Inl (NumberOutOfRange p)
            | Some n \<Rightarrow> bind_sum (parse_numbers ps) (\<lambda>ns. Inr (n # ns))))"

text \<open>\<open>ParseVersion\<close> drops build metadata, cuts off the pre-release and reads three numbers.\<close>

definition strip_build :: "string \<Rightarrow> version_error + string" where
  "strip_build s =
     (case index_byte s CHR ''+'' of
        None \<Rightarrow> Inr s
      | Some i \<Rightarrow>
          (case checkIdentifiers (drop (Suc i) s) False of
             Some e \<Rightarrow> Inl (BuildMetadata e)
           | None \<Rightarrow> Inr (take i s)))"

definition strip_pre :: "string \<Rightarrow> version_error + string \<times> string" where
  "strip_pre s =
     (case index_byte s CHR ''-'' of
        None \<Rightarrow> Inr (s, [])
      | Some i \<Rightarrow>
          (case checkIdentifiers (drop (Suc i) s) True of
             Some e \<Rightarrow> Inl (PreRelease e)
           | None \<Rightarrow> Inr (take i s, drop (Suc i) s)))"

definition parse_core :: "string \<Rightarrow> string \<Rightarrow> version_error + version" where
  "parse_core s pre =
     (let parts = split_on CHR ''.'' s in
      if length parts \<noteq> 3 then Inl WantMajorMinorPatch
      else bind_sum (parse_numbers parts)
        (\<lambda>nums. Inr \<lparr>v_major = nums ! 0, v_minor = nums ! 1, v_patch = nums ! 2,
                     v_pre = (if pre \<noteq> [] then split_on CHR ''.'' pre else [])\<rparr>))"

definition ParseVersion :: "string \<Rightarrow> version_error + version" where
  "ParseVersion s =
     bind_sum (strip_build (trim_prefix s ''v''))
       (\<lambda>s1. bind_sum (strip_pre s1) (\<lambda>(s2, pre). parse_core s2 pre))"

definition version_String :: "version \<Rightarrow> string" where
  "version_String v =
     show_nat (v_major v) @ ''.'' @ show_nat (v_minor v) @ ''.'' @ show_nat (v_patch v) @
     (if v_pre v \<noteq> [] then ''-'' @ join_with ''.'' (v_pre v) else [])"

definition IsPrerelease :: "version \<Rightarrow> bool" where
  "IsPrerelease v \<longleftrightarrow> v_pre v \<noteq> []"

definition compareIdentifier :: "string \<Rightarrow> string \<Rightarrow> int" where
  "compareIdentifier a b =
     (if isNumeric a \<and> isNumeric b then
        (if length a \<noteq> length b then (if length a < length b then - 1 else 1)
         else str_compare a b)
      else if isNumeric a then - 1
      else if isNumeric b then 1
      else str_compare a b)"

definition nat_cmp :: "nat \<Rightarrow> nat \<Rightarrow> int" where
  "nat_cmp a b = (if a \<noteq> b then (if a < b then - 1 else 1) else 0)"

text \<open>
  The loop over the common prefix of the identifier lists followed by the length comparison is
  \<^const>\<open>list_cmp\<close>; the loop over the three numbers is unrolled.
\<close>

definition Compare :: "version \<Rightarrow> version \<Rightarrow> int" where
  "Compare a b =
     (if v_major a \<noteq> v_major b then nat_cmp (v_major a) (v_major b)
      else if v_minor a \<noteq> v_minor b then nat_cmp (v_minor a) (v_minor b)
      else if v_patch a \<noteq> v_patch b then nat_cmp (v_patch a) (v_patch b)
      else if v_pre a = [] \<and> v_pre b = [] then 0
      else if v_pre a = [] then 1
      else if v_pre b = [] then - 1
      else list_cmp compareIdentifier (v_pre a) (v_pre b))"

definition version_Less :: "version \<Rightarrow> version \<Rightarrow> bool" where
  "version_Less v w \<longleftrightarrow> Compare v w < 0"

text \<open>
  \<^verbatim>\<open>PythonVersion\<close>: the three labels are tried in one fixed order; at most one of them can be
  a prefix, so the order Go's map iteration takes does not matter.
\<close>

definition python_label :: "string \<Rightarrow> string \<Rightarrow> string \<Rightarrow> string \<Rightarrow> string option" where
  "python_label base pre label short =
     (if has_prefix pre (label @ ''.'') \<and> isNumeric (drop (length label + 1) pre)
      then Some (base @ short @ drop (length label + 1) pre) else None)"

definition PythonVersion :: "string \<Rightarrow> string" where
  "PythonVersion v0 =
     (let v = trim_prefix v0 ''v''; (base, pre, found) = cut_byte v CHR ''-'' in
      if \<not> found then v
      else case python_label base pre ''alpha'' ''a'' of Some r \<Rightarrow> r
         | None \<Rightarrow> (case python_label base pre ''beta'' ''b'' of Some r \<Rightarrow> r
         | None \<Rightarrow> (case python_label base pre ''rc'' ''rc'' of Some r \<Rightarrow> r | None \<Rightarrow> v)))"

section \<open>Compare is a linear order\<close>

interpretation id_order: comparison compareIdentifier
proof
  fix a b c
  show "compareIdentifier a b \<in> {- 1, 0, 1}"
    using str_order.cmp_range [of a b] by (auto simp: compareIdentifier_def)
  show "compareIdentifier b a = - compareIdentifier a b"
    using str_order.cmp_flip [of a b] by (auto simp: compareIdentifier_def)
  show "compareIdentifier a b = 0 \<Longrightarrow> a = b"
    using str_order.cmp_eq [of a b] by (auto simp: compareIdentifier_def split: if_splits)
  show "compareIdentifier a b \<le> 0 \<Longrightarrow> compareIdentifier b c \<le> 0 \<Longrightarrow> compareIdentifier a c \<le> 0"
    using str_order.cmp_trans [of a b c] by (auto simp: compareIdentifier_def split: if_splits)
qed

interpretation pre_order: comparison "list_cmp compareIdentifier"
  by (rule id_order.list_comparison)

lemma nat_cmp_le [simp]: "nat_cmp a b \<le> 0 \<longleftrightarrow> a \<le> b"
  by (auto simp: nat_cmp_def)

lemma Compare_trans: "Compare a b \<le> 0 \<Longrightarrow> Compare b c \<le> 0 \<Longrightarrow> Compare a c \<le> 0"
  using pre_order.cmp_trans [of "v_pre a" "v_pre b" "v_pre c"]
  by (auto simp: Compare_def split: if_splits)

lemma Compare_eq: "Compare a b = 0 \<Longrightarrow> a = b"
  using pre_order.cmp_eq [of "v_pre a" "v_pre b"]
  by (cases a; cases b) (auto simp: Compare_def nat_cmp_def split: if_splits)

interpretation version_order: comparison Compare
proof
  fix a b c
  show "Compare a b \<in> {- 1, 0, 1}"
    using pre_order.cmp_range [of "v_pre a" "v_pre b"]
    by (auto simp: Compare_def nat_cmp_def)
  show "Compare b a = - Compare a b"
    using pre_order.cmp_flip [of "v_pre a" "v_pre b"]
    by (auto simp: Compare_def nat_cmp_def)
qed (fact Compare_trans Compare_eq)+

text \<open>
  C34: SemVer comparison is a linear order: antisymmetric in sign, transitive, and two versions
  compare as equal only when they are the same version.
\<close>

theorem Compare_linear_order:
  "Compare b a = - Compare a b \<and>
   (Compare a b = 0 \<longleftrightarrow> a = b) \<and>
   \<not> (Compare a b \<le> 0 \<and> Compare b c \<le> 0 \<and> Compare a c > 0)"
  using version_order.cmp_flip [of a b] version_order.cmp_eq_iff [of a b]
    version_order.cmp_trans [of a b c] by auto

text \<open>
  Comparing numeric pre-release identifiers by length and then bytewise is comparing the
  numbers they denote, because validated identifiers carry no leading zeros.
\<close>

lemma compareIdentifier_numeric:
  assumes "isNumeric a" and "isNumeric b"
    and "length a > 1 \<Longrightarrow> hd a \<noteq> CHR ''0''" and "length b > 1 \<Longrightarrow> hd b \<noteq> CHR ''0''"
  shows "(compareIdentifier a b < 0 \<longleftrightarrow> digits_val 0 a < digits_val 0 b) \<and>
         (compareIdentifier a b = 0 \<longleftrightarrow> digits_val 0 a = digits_val 0 b)"
proof -
  have shorter: "digits_val 0 x < digits_val 0 y"
    if "isNumeric x" "isNumeric y" "length x < length y" and lz: "length y > 1 \<Longrightarrow> hd y \<noteq> CHR ''0''" for x y
  proof -
    have "y \<noteq> []" using that(2) by (simp add: isNumeric_def)
    then obtain c cs where y: "y = c # cs" by (cases y) auto
    have "length y > 1" using that(1,3) by (cases x) (auto simp: isNumeric_def)
    then have "c \<noteq> CHR ''0''" using lz y by simp
    then have "byte c \<noteq> byte (CHR ''0'')" by (metis of_char_eq_iff)
    moreover have "is_digit c" using that(2) y by (simp add: isNumeric_def)
    ultimately have "1 \<le> byte c - 48" unfolding is_digit_def by simp linarith
    then have "10 ^ length cs \<le> (byte c - 48) * 10 ^ length cs" by simp
    also have "\<dots> \<le> digits_val (byte c - 48) cs" by (rule digits_val_lower)
    finally have y_ge: "10 ^ length cs \<le> digits_val 0 y" using y by simp
    have "digits_val 0 x < 10 ^ length x"
      using digits_val_bound [of x 0] that(1) by (simp add: isNumeric_def)
    also have "\<dots> \<le> 10 ^ length cs" using that(3) y by (intro power_increasing) auto
    finally show ?thesis using y_ge by simp
  qed
  show ?thesis
  proof (cases "length a = length b")
    case True
    have da: "list_all is_digit a" "list_all is_digit b" using assms by (auto simp: isNumeric_def)
    have lt: "str_compare a b < 0 \<longleftrightarrow> digits_val 0 a < digits_val 0 b"
      and gt: "str_compare b a < 0 \<longleftrightarrow> digits_val 0 b < digits_val 0 a"
      using str_compare_digits da True by auto
    have "str_compare b a = - str_compare a b" by (rule str_order.cmp_flip)
    then show ?thesis
      using lt gt assms True by (auto simp: compareIdentifier_def)
  next
    case False
    then show ?thesis
      using assms shorter [of a b] shorter [of b a] by (auto simp: compareIdentifier_def)
  qed
qed

section \<open>Parsing and printing\<close>

definition id_ok :: "string \<Rightarrow> bool" where
  "id_ok i \<longleftrightarrow> i \<noteq> [] \<and> list_all id_char i \<and>
     \<not> (isNumeric i \<and> length i > 1 \<and> hd i = CHR ''0'')"

definition version_ok :: "version \<Rightarrow> bool" where
  "version_ok v \<longleftrightarrow>
     v_major v < 2 ^ 64 \<and> v_minor v < 2 ^ 64 \<and> v_patch v < 2 ^ 64 \<and> list_all id_ok (v_pre v)"

lemma check_id_list_None: "check_id_list ids True = None \<longleftrightarrow> list_all id_ok ids"
  by (induction ids) (auto simp: id_ok_def)

lemma parse_numbers_Inr:
  "parse_numbers ps = Inr ns \<Longrightarrow> length ns = length ps \<and> (\<forall>n \<in> set ns. n < 2 ^ 64)"
  by (induction ps arbitrary: ns)
    (auto simp: bind_sum_Inr_iff parse_uint64_def Let_def split: if_splits option.splits)

lemma strip_pre_ok:
  "strip_pre s = Inr (t, pre) \<Longrightarrow> pre = [] \<or> checkIdentifiers pre True = None"
  by (auto simp: strip_pre_def split: option.splits)

lemma parse_core_ok:
  assumes "parse_core s pre = Inr v" and "pre = [] \<or> checkIdentifiers pre True = None"
  shows "version_ok v"
proof -
  from assms(1) obtain nums where nums: "parse_numbers (split_on CHR ''.'' s) = Inr nums"
      "length (split_on CHR ''.'' s) = 3"
    and v: "v = \<lparr>v_major = nums ! 0, v_minor = nums ! 1, v_patch = nums ! 2,
                v_pre = (if pre \<noteq> [] then split_on CHR ''.'' pre else [])\<rparr>"
    by (auto simp: parse_core_def bind_sum_Inr_iff Let_def split: if_splits)
  have "nums ! 0 < 2 ^ 64" "nums ! 1 < 2 ^ 64" "nums ! 2 < 2 ^ 64"
    using parse_numbers_Inr [OF nums(1)] nums(2) by auto
  moreover have "list_all id_ok (if pre \<noteq> [] then split_on CHR ''.'' pre else [])"
    using assms(2) by (auto simp: checkIdentifiers_def check_id_list_None)
  ultimately show ?thesis by (simp add: version_ok_def v)
qed

lemma ParseVersion_ok: "ParseVersion s = Inr v \<Longrightarrow> version_ok v"
  by (auto simp: ParseVersion_def bind_sum_Inr_iff intro: parse_core_ok dest: strip_pre_ok)

lemma digits_no: "list_all is_digit s \<Longrightarrow> \<not> is_digit c \<Longrightarrow> c \<notin> set s"
  by (auto simp: list_all_iff)

lemma not_digit [simp]:
  "\<not> is_digit CHR ''.''" "\<not> is_digit CHR ''-''" "\<not> is_digit CHR ''+''" "\<not> is_digit CHR ''v''"
  by (simp_all add: is_digit_def)

lemma show_nat_no [simp]:
  "CHR ''.'' \<notin> set (show_nat n)" "CHR ''-'' \<notin> set (show_nat n)"
  "CHR ''+'' \<notin> set (show_nat n)" "CHR ''v'' \<notin> set (show_nat n)"
  by (rule digits_no [OF show_nat_digits], simp)+

lemma id_ok_no:
  assumes "id_ok i"
  shows "CHR ''.'' \<notin> set i" "CHR ''+'' \<notin> set i"
proof -
  have "\<not> id_char CHR ''.''" "\<not> id_char CHR ''+''"
    by (simp_all add: id_char_def is_lower_def is_upper_def)
  then show "CHR ''.'' \<notin> set i" "CHR ''+'' \<notin> set i"
    using assms by (auto simp: id_ok_def list_all_iff)
qed

lemma isNumeric_show_nat [simp]: "isNumeric (show_nat n)"
  by (simp add: isNumeric_def show_nat_digits)

lemma parse_numbers_show:
  assumes "a < 2 ^ 64" and "b < 2 ^ 64" and "c < 2 ^ 64"
  shows "parse_numbers [show_nat a, show_nat b, show_nat c] = Inr [a, b, c]"
  using assms show_nat_no_leading_zero [of a] show_nat_no_leading_zero [of b]
    show_nat_no_leading_zero [of c]
  by (auto simp: parse_uint64_show_nat)

lemma split_three:
  "split_on CHR ''.'' (show_nat a @ ''.'' @ show_nat b @ ''.'' @ show_nat c) =
     [show_nat a, show_nat b, show_nat c]"
  by (simp add: split_on_append split_on_plain)

lemma join_ids:
  assumes "list_all id_ok ids" and "ids \<noteq> []"
  shows "split_on CHR ''.'' (join_with ''.'' ids) = ids" and "join_with ''.'' ids \<noteq> []"
    and "CHR ''+'' \<notin> set (join_with ''.'' ids)"
proof -
  show sp: "split_on CHR ''.'' (join_with ''.'' ids) = ids"
    using assms by (intro split_join) (auto simp: list_all_iff dest: id_ok_no)
  show "join_with ''.'' ids \<noteq> []"
  proof
    assume "join_with ''.'' ids = []"
    with sp have "ids = [[]]" by simp
    with assms show False by (simp add: id_ok_def)
  qed
  show "CHR ''+'' \<notin> set (join_with ''.'' ids)"
    using set_join_with [of "''.''" ids] assms by (auto simp: list_all_iff dest: id_ok_no)
qed

lemma no_v_prefix: "trim_prefix (show_nat n @ r) ''v'' = show_nat n @ r"
  using show_nat_no(4) [of n]
  by (cases "show_nat n") (auto simp: trim_prefix_def has_prefix_def)

lemma strip_build_none: "CHR ''+'' \<notin> set s \<Longrightarrow> strip_build s = Inr s"
  by (simp add: strip_build_def index_byte_None_iff [THEN iffD2])

lemma strip_pre_none: "CHR ''-'' \<notin> set s \<Longrightarrow> strip_pre s = Inr (s, [])"
  by (simp add: strip_pre_def index_byte_None_iff [THEN iffD2])

lemma strip_pre_some:
  "CHR ''-'' \<notin> set n \<Longrightarrow> checkIdentifiers p True = None \<Longrightarrow>
     strip_pre (n @ CHR ''-'' # p) = Inr (n, p)"
  by (simp add: strip_pre_def index_byte_append)

lemma parse_core_show:
  assumes "version_ok v"
  shows "parse_core (show_nat (v_major v) @ ''.'' @ show_nat (v_minor v) @ ''.'' @ show_nat (v_patch v)) pre =
           Inr (v\<lparr>v_pre := (if pre \<noteq> [] then split_on CHR ''.'' pre else [])\<rparr>)"
proof -
  have "parse_numbers [show_nat (v_major v), show_nat (v_minor v), show_nat (v_patch v)] =
          Inr [v_major v, v_minor v, v_patch v]"
    using assms by (intro parse_numbers_show) (simp_all add: version_ok_def)
  then show ?thesis
    unfolding parse_core_def split_three Let_def by (cases v) simp
qed

lemma Parse_String: "version_ok v \<Longrightarrow> ParseVersion (version_String v) = Inr v"
proof -
  assume ok: "version_ok v"
  define n where "n = show_nat (v_major v) @ ''.'' @ show_nat (v_minor v) @ ''.'' @ show_nat (v_patch v)"
  define p where "p = join_with ''.'' (v_pre v)"
  have np: "CHR ''+'' \<notin> set n" "CHR ''-'' \<notin> set n" by (simp_all add: n_def)
  have tp: "trim_prefix (n @ r) ''v'' = n @ r" for r
    using no_v_prefix [of "v_major v"] by (simp add: n_def)
  have core: "parse_core n pre = Inr (v\<lparr>v_pre := (if pre \<noteq> [] then split_on CHR ''.'' pre else [])\<rparr>)" for pre
    unfolding n_def by (rule parse_core_show [OF ok])
  show ?thesis
  proof (cases "v_pre v = []")
    case True
    then have "version_String v = n" by (simp add: version_String_def n_def)
    then show ?thesis
      using tp [of "[]"] core [of "[]"] True np
      by (cases v) (simp add: ParseVersion_def strip_build_none strip_pre_none)
  next
    case False
    have ids: "list_all id_ok (v_pre v)" using ok by (simp add: version_ok_def)
    have j: "split_on CHR ''.'' p = v_pre v" "p \<noteq> []" "CHR ''+'' \<notin> set p"
      unfolding p_def by (rule join_ids [OF ids False])+
    have "version_String v = n @ CHR ''-'' # p" using False by (simp add: version_String_def n_def p_def)
    moreover have "checkIdentifiers p True = None"
      using j ids by (simp add: checkIdentifiers_def check_id_list_None)
    ultimately show ?thesis
      using tp [of "CHR ''-'' # p"] core [of p] j np
      by (simp add: ParseVersion_def strip_build_none strip_pre_some)
  qed
qed

text \<open>
  C35: printing a parsed version and parsing it again gives the same version, so the printed form is
  a faithful identifier of a version (the updater deduplicates releases by it).
\<close>

theorem ParseVersion_roundtrip:
  assumes "ParseVersion s = Inr v"
  shows "ParseVersion (version_String v) = Inr v"
  using ParseVersion_ok [OF assms] by (rule Parse_String)

theorem ParseVersion_roundtrip_witness:
  "\<exists>v. ParseVersion ''v1.4.0-rc.2+build.7'' = Inr v \<and>
       ParseVersion (version_String v) = Inr v \<and> version_String v = ''1.4.0-rc.2''"
proof -
  have p: "ParseVersion ''v1.4.0-rc.2+build.7'' =
      Inr \<lparr>v_major = 1, v_minor = 4, v_patch = 0, v_pre = [''rc'', ''2'']\<rparr>"
    by (simp add: ParseVersion_def trim_prefix_def has_prefix_def strip_build_def strip_pre_def parse_core_def
      checkIdentifiers_def isNumeric_def id_char_def is_digit_def is_lower_def is_upper_def parse_uint64_def)
  moreover have "version_String \<lparr>v_major = 1, v_minor = 4, v_patch = 0, v_pre = [''rc'', ''2'']\<rparr> = ''1.4.0-rc.2''"
    by (simp add: version_String_def show_nat.simps digit_char_def char_of_def bit_0)
  ultimately show ?thesis using ParseVersion_roundtrip [OF p] by blast
qed

lemma version_String_inj:
  "ParseVersion s = Inr v \<Longrightarrow> ParseVersion t = Inr w \<Longrightarrow> version_String v = version_String w \<Longrightarrow> v = w"
  by (metis Inr_inject ParseVersion_ok Parse_String)

end
