(* ===== verification/Manifest.thy ===== *)
theory Manifest
  imports Release
begin

text \<open>
  Release manifests and indexes of \<^verbatim>\<open>libs/release/manifest.go\<close>: the decoded values, their
  validation and the lookups that consumers make in them. The model starts at the values the JSON
  decoder filled in. Go maps are association lists in iteration order, so a theorem that does not
  constrain the order holds for each order Go may choose. \<^verbatim>\<open>net/url.Parse\<close>, whose accepted
  hosts depend on the Go release, is the argument \<open>url_parse\<close>: the scheme and host of a URL it
  accepts.
\<close>

section \<open>Data\<close>

record artifact =
  a_component :: string
  a_os :: string
  a_arch :: string
  a_format :: string
  a_name :: string
  a_url :: string
  a_sha256 :: string
  a_size :: int

record rfile =
  f_name :: string
  f_url :: string
  f_sha256 :: string

record compatibility =
  MinBackendForAgent :: string
  OldestSupportedAgent :: string
  MinUpgradeFrom :: string
  RollbackFloor :: string

record manifest =
  m_schema :: int
  m_product :: string
  m_version :: string
  m_channel :: string
  m_compat :: compatibility
  m_artifacts :: "artifact list"
  m_images :: "(string \<times> string) list"
  m_helm_chart :: "rfile option"
  m_helm_charts :: "(string \<times> rfile) list"
  m_parsed :: version

record index_entry =
  ie_version :: string
  ie_url :: string

record index =
  ix_schema :: int
  ix_product :: string
  ix_channels :: "(string \<times> index_entry list) list"

type_synonym url_parser = "string \<Rightarrow> (string \<times> string) option"

datatype manifest_error =
    UnsupportedSchema int | UnexpectedProduct string | BadVersion version_error | LeadingV
  | PrereleaseOnStable | UnknownChannel string | BadCompat string version_error
  | ArtifactFields nat | ArtifactName nat | ArtifactUrl nat | ArtifactSha nat | ArtifactSize nat
  | ArtifactDuplicate nat string | HelmSha | HelmChartName string | HelmFileName string
  | HelmUrl string | HelmChartSha string | EntryVersion string nat version_error
  | EntryPrerelease nat | EntryUrl string nat

section \<open>Validation\<close>

definition is_lower_hex :: "char \<Rightarrow> bool" where
  "is_lower_hex c \<longleftrightarrow> is_digit c \<or> (97 \<le> byte c \<and> byte c \<le> 102)"

definition sha256Hex :: "string \<Rightarrow> bool" where
  "sha256Hex s \<longleftrightarrow> length s = 64 \<and> list_all is_lower_hex s"

definition has_slash :: "string \<Rightarrow> bool" where
  "has_slash s \<longleftrightarrow> list_ex (\<lambda>c. c = CHR ''/'' \<or> byte c = 92) s"

definition bad_file_name :: "string \<Rightarrow> bool" where
  "bad_file_name s \<longleftrightarrow> s = [] \<or> has_slash s \<or> s = ''.'' \<or> s = ''..''"

definition checkURL :: "url_parser \<Rightarrow> string \<Rightarrow> bool" where
  "checkURL url_parse s =
     (case url_parse s of
        None \<Rightarrow> False
      | Some (scheme, host) \<Rightarrow> (scheme = ''https'' \<or> scheme = ''http'') \<and> host \<noteq> [])"

definition artifact_key :: "artifact \<Rightarrow> string" where
  "artifact_key a = a_component a @ ''/'' @ a_os a @ ''/'' @ a_arch a @ ''/'' @ a_format a"

fun check_compat :: "(string \<times> string) list \<Rightarrow> manifest_error option" where
  "check_compat [] = None"
| "check_compat ((name, s) # rest) =
     (if s = [] then check_compat rest
      else case ParseVersion s of
             Inl e \<Rightarrow> Some (BadCompat name e)
           | Inr _ \<Rightarrow> check_compat rest)"

definition compat_fields :: "compatibility \<Rightarrow> (string \<times> string) list" where
  "compat_fields c =
     [(''min_backend_for_agent'', MinBackendForAgent c),
      (''oldest_supported_agent'', OldestSupportedAgent c),
      (''min_upgrade_from'', MinUpgradeFrom c),
      (''rollback_floor'', RollbackFloor c)]"

fun check_artifacts ::
    "url_parser \<Rightarrow> nat \<Rightarrow> string list \<Rightarrow> artifact list \<Rightarrow> manifest_error option" where
  "check_artifacts up i seen [] = None"
| "check_artifacts up i seen (a # as) =
     (if a_component a = [] \<or> a_os a = [] \<or> a_arch a = [] \<or> a_format a = [] then Some (ArtifactFields i)
      else if bad_file_name (a_name a) then Some (ArtifactName i)
      else if \<not> checkURL up (a_url a) then Some (ArtifactUrl i)
      else if \<not> sha256Hex (a_sha256 a) then Some (ArtifactSha i)
      else if a_size a \<le> 0 then Some (ArtifactSize i)
      else if artifact_key a \<in> set seen then Some (ArtifactDuplicate i (artifact_key a))
      else check_artifacts up (Suc i) (artifact_key a # seen) as)"

fun check_charts :: "url_parser \<Rightarrow> (string \<times> rfile) list \<Rightarrow> manifest_error option" where
  "check_charts up [] = None"
| "check_charts up ((chart, f) # rest) =
     (if chart = [] \<or> has_slash chart then Some (HelmChartName chart)
      else if bad_file_name (f_name f) then Some (HelmFileName chart)
      else if \<not> checkURL up (f_url f) then Some (HelmUrl chart)
      else if \<not> sha256Hex (f_sha256 f) then Some (HelmChartSha chart)
      else check_charts up rest)"

definition check_helm_chart :: "rfile option \<Rightarrow> manifest_error option" where
  "check_helm_chart h =
     (case h of
        None \<Rightarrow> None
      | Some f \<Rightarrow> if f_sha256 f \<noteq> [] \<and> \<not> sha256Hex (f_sha256 f) then Some HelmSha else None)"

definition check_channel :: "string \<Rightarrow> version \<Rightarrow> manifest_error option" where
  "check_channel ch v =
     (if ch = ''stable'' then (if IsPrerelease v then Some PrereleaseOnStable else None)
      else if ch = ''beta'' then None
      else Some (UnknownChannel ch))"

definition guard_sum :: "'e option \<Rightarrow> 'e + 'a \<Rightarrow> 'e + 'a" where
  "guard_sum g r = (case g of Some e \<Rightarrow> Inl e | None \<Rightarrow> r)"

text \<open>\<open>validate\<close> fills in the parsed version and returns the manifest, or the first error.\<close>

definition validate :: "url_parser \<Rightarrow> manifest \<Rightarrow> manifest_error + manifest" where
  "validate up m =
     (if m_schema m \<noteq> 1 then Inl (UnsupportedSchema (m_schema m))
      else if m_product m \<noteq> ''openlog'' then Inl (UnexpectedProduct (m_product m))
      else case ParseVersion (m_version m) of
        Inl e \<Rightarrow> Inl (BadVersion e)
      | Inr v \<Rightarrow>
          if has_prefix (m_version m) ''v'' then Inl LeadingV
          else guard_sum (check_channel (m_channel m) v)
              (guard_sum (check_compat (compat_fields (m_compat m)))
              (guard_sum (check_artifacts up 0 [] (m_artifacts m))
              (guard_sum (check_helm_chart (m_helm_chart m))
              (guard_sum (check_charts up (m_helm_charts m))
                 (Inr (m\<lparr>m_parsed := v\<rparr>)))))))"

section \<open>Lookups\<close>

fun Artifact :: "artifact list \<Rightarrow> string \<Rightarrow> string \<Rightarrow> string \<Rightarrow> string \<Rightarrow> artifact option" where
  "Artifact [] component os arch format = None"
| "Artifact (a # as) component os arch format =
     (if a_component a = component \<and> a_os a = os \<and> a_arch a = arch \<and> a_format a = format
      then Some a else Artifact as component os arch format)"

text \<open>A Go map read: a missing key reads as the zero value.\<close>

definition map_get :: "('k \<times> 'v) list \<Rightarrow> 'k \<Rightarrow> 'v \<Rightarrow> 'v" where
  "map_get kvs k z = (case map_of kvs k of Some v \<Rightarrow> v | None \<Rightarrow> z)"

fun check_entries :: "url_parser \<Rightarrow> string \<Rightarrow> nat \<Rightarrow> index_entry list \<Rightarrow> manifest_error option" where
  "check_entries up ch i [] = None"
| "check_entries up ch i (e # es) =
     (case ParseVersion (ie_version e) of
        Inl err \<Rightarrow> Some (EntryVersion ch i err)
      | Inr v \<Rightarrow>
          if ch = ''stable'' \<and> IsPrerelease v then Some (EntryPrerelease i)
          else if \<not> checkURL up (ie_url e) then Some (EntryUrl ch i)
          else check_entries up ch (Suc i) es)"

fun check_channels :: "url_parser \<Rightarrow> (string \<times> index_entry list) list \<Rightarrow> manifest_error option" where
  "check_channels up [] = None"
| "check_channels up ((ch, es) # rest) =
     (if ch \<noteq> ''stable'' \<and> ch \<noteq> ''beta'' then Some (UnknownChannel ch)
      else case check_entries up ch 0 es of
             Some e \<Rightarrow> Some e
           | None \<Rightarrow> check_channels up rest)"

definition ParseIndex :: "url_parser \<Rightarrow> index \<Rightarrow> manifest_error + index" where
  "ParseIndex up idx =
     (if ix_schema idx \<noteq> 1 then Inl (UnsupportedSchema (ix_schema idx))
      else if ix_product idx \<noteq> ''openlog'' then Inl (UnexpectedProduct (ix_product idx))
      else guard_sum (check_channels up (ix_channels idx)) (Inr idx))"

text \<open>The releases a channel sees; the beta channel also sees stable releases.\<close>

definition channel_entries :: "index \<Rightarrow> string \<Rightarrow> index_entry list option" where
  "channel_entries idx channel =
     (if channel = ''stable'' then Some (map_get (ix_channels idx) ''stable'' [])
      else if channel = ''beta'' then
        Some (map_get (ix_channels idx) ''beta'' [] @ map_get (ix_channels idx) ''stable'' [])
      else None)"

fun latest_loop :: "index_entry list \<Rightarrow> (index_entry \<times> version) option \<Rightarrow> (index_entry \<times> version) option" where
  "latest_loop [] best = best"
| "latest_loop (e # es) best =
     (case ParseVersion (ie_version e) of
        Inl _ \<Rightarrow> latest_loop es best
      | Inr v \<Rightarrow>
          (case best of
             None \<Rightarrow> latest_loop es (Some (e, v))
           | Some (b, bv) \<Rightarrow>
               if Compare v bv > 0 then latest_loop es (Some (e, v)) else latest_loop es best))"

definition Latest :: "index \<Rightarrow> string \<Rightarrow> index_entry option" where
  "Latest idx channel =
     (case channel_entries idx channel of
        None \<Rightarrow> None
      | Some es \<Rightarrow> map_option fst (latest_loop es None))"

section \<open>What validation guarantees\<close>

lemma guard_sum_Inr [simp]: "guard_sum g r = Inr x \<longleftrightarrow> g = None \<and> r = Inr x"
  by (cases g) (simp_all add: guard_sum_def)

lemma validate_Inr:
  "validate up m = Inr m' \<longleftrightarrow>
     (\<exists>v. m_schema m = 1 \<and> m_product m = ''openlog'' \<and> ParseVersion (m_version m) = Inr v \<and>
          \<not> has_prefix (m_version m) ''v'' \<and> check_channel (m_channel m) v = None \<and>
          check_compat (compat_fields (m_compat m)) = None \<and>
          check_artifacts up 0 [] (m_artifacts m) = None \<and>
          check_helm_chart (m_helm_chart m) = None \<and> check_charts up (m_helm_charts m) = None \<and>
          m' = m\<lparr>m_parsed := v\<rparr>)"
  by (auto simp: validate_def split: sum.splits if_splits)

lemma check_artifacts_distinct:
  "check_artifacts up i seen as = None \<Longrightarrow>
     distinct (map artifact_key as) \<and> set (map artifact_key as) \<inter> set seen = {}"
proof (induction as arbitrary: i seen)
  case (Cons a as)
  from Cons.prems have "artifact_key a \<notin> set seen"
    and "check_artifacts up (Suc i) (artifact_key a # seen) as = None"
    by (auto split: if_splits)
  with Cons.IH [OF this(2)] show ?case by auto
qed simp

lemma check_artifacts_each:
  "check_artifacts up i seen as = None \<Longrightarrow> a \<in> set as \<Longrightarrow>
     \<not> bad_file_name (a_name a) \<and> checkURL up (a_url a) \<and> sha256Hex (a_sha256 a) \<and> 0 < a_size a"
  by (induction as arbitrary: i seen) (auto split: if_splits)

lemma Artifact_Some:
  "Artifact as c os ar f = Some a \<Longrightarrow>
     a \<in> set as \<and> a_component a = c \<and> a_os a = os \<and> a_arch a = ar \<and> a_format a = f"
  by (induction as) (auto split: if_splits)

lemma Artifact_found:
  assumes "distinct (map artifact_key as)" and "a \<in> set as"
  shows "Artifact as (a_component a) (a_os a) (a_arch a) (a_format a) = Some a"
  using assms
proof (induction as)
  case (Cons b bs)
  show ?case
  proof (cases "a = b")
    case False
    then have "a \<in> set bs" using Cons.prems by simp
    then have "artifact_key a \<noteq> artifact_key b" using Cons.prems(1) by (metis distinct.simps(2) image_eqI list.set_map list.simps(9))
    then have "\<not> (a_component b = a_component a \<and> a_os b = a_os a \<and> a_arch b = a_arch a \<and>
        a_format b = a_format a)"
      by (auto simp: artifact_key_def)
    then show ?thesis using Cons \<open>a \<in> set bs\<close> by auto
  qed simp
qed simp

text \<open>
  In a manifest that passes validation the artifact lookup by component, OS, architecture and
  format finds exactly the listed artifact, and that artifact has a file name without path
  separators, a full SHA-256 digest and a positive size.
\<close>

lemma Artifact_exact:
  assumes "validate up m0 = Inr m"
  shows "(Artifact (m_artifacts m) c os ar f = Some a \<longleftrightarrow>
            a \<in> set (m_artifacts m) \<and> a_component a = c \<and> a_os a = os \<and> a_arch a = ar \<and> a_format a = f) \<and>
         (a \<in> set (m_artifacts m) \<longrightarrow>
            \<not> has_slash (a_name a) \<and> length (a_sha256 a) = 64 \<and> 0 < a_size a)"
proof -
  have ok: "check_artifacts up 0 [] (m_artifacts m) = None"
    using assms by (auto simp: validate_Inr)
  have "Artifact (m_artifacts m) c os ar f = Some a \<longleftrightarrow>
           a \<in> set (m_artifacts m) \<and> a_component a = c \<and> a_os a = os \<and> a_arch a = ar \<and> a_format a = f"
    using Artifact_Some Artifact_found check_artifacts_distinct [OF ok] by metis
  then show ?thesis
    using check_artifacts_each [OF ok] by (auto simp: bad_file_name_def sha256Hex_def)
qed

text \<open>The newest entry: \<open>latest_loop\<close> keeps the first entry of the greatest version.\<close>

lemma latest_loop_best:
  assumes "latest_loop es best = Some (e, v)"
    and "\<And>b bv. best = Some (b, bv) \<Longrightarrow> ParseVersion (ie_version b) = Inr bv"
  shows "ParseVersion (ie_version e) = Inr v \<and>
         (e \<in> set es \<or> best = Some (e, v)) \<and>
         (\<forall>b bv. best = Some (b, bv) \<longrightarrow> Compare bv v \<le> 0) \<and>
         (\<forall>x \<in> set es. \<forall>w. ParseVersion (ie_version x) = Inr w \<longrightarrow> Compare w v \<le> 0)"
  using assms
proof (induction es arbitrary: best)
  case (Cons x xs)
  show ?case
  proof (cases "ParseVersion (ie_version x)")
    case (Inl err)
    then show ?thesis using Cons.IH [of best] Cons.prems by auto
  next
    case (Inr w)
    show ?thesis
    proof (cases "\<exists>b bv. best = Some (b, bv) \<and> \<not> Compare w bv > 0")
      case True
      then obtain b bv where b: "best = Some (b, bv)" "Compare w bv \<le> 0" by auto
      then have "latest_loop xs best = Some (e, v)" using Cons.prems Inr by simp
      note IH = Cons.IH [OF this Cons.prems(2)]
      then have "Compare w v \<le> 0" using b version_order.cmp_trans by blast
      then show ?thesis using IH Inr by auto
    next
      case False
      then have l: "latest_loop xs (Some (x, w)) = Some (e, v)" using Cons.prems Inr by (auto split: option.splits)
      note IH = Cons.IH [OF l]
      have "Compare bv v \<le> 0" if "best = Some (b, bv)" for b bv
        using that False IH Inr version_order.cmp_flip [of w bv] version_order.cmp_trans [of bv w v] by auto
      then show ?thesis using IH Inr by auto
    qed
  qed
qed auto

lemma latest_loop_None:
  "latest_loop es best = None \<longleftrightarrow>
     best = None \<and> (\<forall>e \<in> set es. \<exists>err. ParseVersion (ie_version e) = Inl err)"
  by (induction es arbitrary: best) (simp_all split: sum.splits option.splits add: not_None_eq [symmetric] del: not_None_eq)

lemma check_entries_None:
  "check_entries up ch i es = None \<Longrightarrow> e \<in> set es \<Longrightarrow>
     \<exists>v. ParseVersion (ie_version e) = Inr v \<and> \<not> (ch = ''stable'' \<and> IsPrerelease v) \<and> checkURL up (ie_url e)"
  by (induction es arbitrary: i) (auto split: sum.splits if_splits)

lemma check_channels_None:
  "check_channels up chs = None \<Longrightarrow> (ch, es) \<in> set chs \<Longrightarrow>
     (ch = ''stable'' \<or> ch = ''beta'') \<and> check_entries up ch 0 es = None"
  by (induction chs) (auto split: if_splits option.splits)

lemma map_get_cases: "map_get kvs k z = z \<or> (k, map_get kvs k z) \<in> set kvs"
  by (auto simp: map_get_def dest: map_of_SomeD split: option.splits)

lemma ParseIndex_entry:
  assumes "ParseIndex up idx0 = Inr idx" and "e \<in> set (map_get (ix_channels idx) ch [])"
  shows "\<exists>v. ParseVersion (ie_version e) = Inr v \<and> \<not> (ch = ''stable'' \<and> IsPrerelease v) \<and> checkURL up (ie_url e)"
proof -
  have "check_channels up (ix_channels idx) = None"
    using assms(1) by (auto simp: ParseIndex_def split: if_splits)
  moreover have "(ch, map_get (ix_channels idx) ch []) \<in> set (ix_channels idx)"
    using map_get_cases [of "ix_channels idx" ch "[]"] assms(2) by auto
  ultimately show ?thesis
    using assms(2) check_channels_None check_entries_None by blast
qed

lemma channel_entries_parse:
  assumes "ParseIndex up idx0 = Inr idx" and "channel_entries idx ch = Some es" and "e \<in> set es"
  shows "\<exists>v. ParseVersion (ie_version e) = Inr v \<and> \<not> (ch = ''stable'' \<and> IsPrerelease v)"
  using assms(2,3) ParseIndex_entry [OF assms(1)]
  by (auto simp: channel_entries_def split: if_splits) blast+

text \<open>
  C36: on a validated index, \<open>Latest\<close> finds a release of a known channel whenever the channel has
  one; it is a listed release no other visible release is newer than, and on the stable channel it
  is never a pre-release.
\<close>

theorem Latest_newest:
  assumes "ParseIndex up idx0 = Inr idx" and "channel_entries idx ch = Some es"
  shows "case Latest idx ch of
           None \<Rightarrow> es = []
         | Some e \<Rightarrow> e \<in> set es \<and>
             (\<exists>v. ParseVersion (ie_version e) = Inr v \<and> (ch = ''stable'' \<longrightarrow> \<not> IsPrerelease v) \<and>
                  (\<forall>x \<in> set es. \<exists>w. ParseVersion (ie_version x) = Inr w \<and> Compare w v \<le> 0))"
proof (cases "latest_loop es None")
  case None
  then have "es = []"
    using channel_entries_parse [OF assms] unfolding latest_loop_None by (cases es) fastforce+
  then show ?thesis using None assms(2) by (simp add: Latest_def)
next
  case (Some r)
  obtain e v where r: "r = (e, v)" by force
  note best = latest_loop_best [OF Some [unfolded r]]
  have L: "Latest idx ch = Some e" using Some r assms(2) by (simp add: Latest_def)
  have e: "e \<in> set es" "ParseVersion (ie_version e) = Inr v" using best by auto
  then have st: "ch = ''stable'' \<longrightarrow> \<not> IsPrerelease v"
    using channel_entries_parse [OF assms e(1)] by auto
  have "\<exists>w. ParseVersion (ie_version x) = Inr w \<and> Compare w v \<le> 0" if "x \<in> set es" for x
    using best channel_entries_parse [OF assms that] that by blast
  then show ?thesis using e st L by auto
qed

section \<open>A release\<close>

definition demo_url :: url_parser where
  "demo_url s = (if has_prefix s ''https://x'' then Some (''https'', ''x'') else None)"

definition demo_artifact :: artifact where
  "demo_artifact = \<lparr>a_component = ''compose'', a_os = ''any'', a_arch = ''any'', a_format = ''tar.gz'',
     a_name = ''c.tar.gz'', a_url = ''https://x/c'', a_sha256 = replicate 64 CHR ''a'', a_size = 10\<rparr>"

definition demo_manifest :: manifest where
  "demo_manifest = \<lparr>m_schema = 1, m_product = ''openlog'', m_version = ''1.2.0'', m_channel = ''stable'',
     m_compat = \<lparr>MinBackendForAgent = [], OldestSupportedAgent = [], MinUpgradeFrom = ''1.0.0'', RollbackFloor = []\<rparr>,
     m_artifacts = [demo_artifact], m_images = [(''openlog'', ''r/o@sha256:1'')], m_helm_chart = None,
     m_helm_charts = [], m_parsed = \<lparr>v_major = 0, v_minor = 0, v_patch = 0, v_pre = []\<rparr>\<rparr>"

definition demo_index :: index where
  "demo_index = \<lparr>ix_schema = 1, ix_product = ''openlog'',
     ix_channels = [(''stable'', [\<lparr>ie_version = ''1.2.0'', ie_url = ''https://x/m''\<rparr>]),
                    (''beta'', [\<lparr>ie_version = ''1.3.0-rc.1'', ie_url = ''https://x/n''\<rparr>])]\<rparr>"

lemmas parse_eval = ParseVersion_def trim_prefix_def has_prefix_def strip_build_def strip_pre_def
  parse_core_def checkIdentifiers_def isNumeric_def id_char_def is_digit_def is_lower_def is_upper_def
  parse_uint64_def IsPrerelease_def

lemma demo_versions:
  "ParseVersion ''1.2.0'' = Inr \<lparr>v_major = 1, v_minor = 2, v_patch = 0, v_pre = []\<rparr>"
  "ParseVersion ''1.0.0'' = Inr \<lparr>v_major = 1, v_minor = 0, v_patch = 0, v_pre = []\<rparr>"
  "ParseVersion ''1.3.0-rc.1'' = Inr \<lparr>v_major = 1, v_minor = 3, v_patch = 0, v_pre = [''rc'', ''1'']\<rparr>"
  by (simp_all add: parse_eval)

lemma demo_artifact_ok: "check_artifacts demo_url 0 [] [demo_artifact] = None"
  by (simp add: demo_artifact_def bad_file_name_def has_slash_def checkURL_def demo_url_def
      has_prefix_def sha256Hex_def is_lower_hex_def list_all_iff)

lemma demo_manifest_valid:
  "validate demo_url demo_manifest =
     Inr (demo_manifest\<lparr>m_parsed := \<lparr>v_major = 1, v_minor = 2, v_patch = 0, v_pre = []\<rparr>\<rparr>)"
  by (simp add: validate_Inr demo_manifest_def demo_versions demo_artifact_ok has_prefix_def check_channel_def
      IsPrerelease_def compat_fields_def check_helm_chart_def del: check_artifacts.simps)

lemma demo_index_valid: "ParseIndex demo_url demo_index = Inr demo_index"
  by (simp add: ParseIndex_def demo_index_def demo_versions IsPrerelease_def checkURL_def demo_url_def
      has_prefix_def guard_sum_def)

theorem Latest_newest_witness:
  "ParseIndex demo_url demo_index = Inr demo_index \<and>
   (\<exists>es. channel_entries demo_index ''beta'' = Some es \<and> length es = 2 \<and>
     (\<exists>e \<in> set es. Latest demo_index ''beta'' = Some e))"
proof -
  define es where "es = map_get (ix_channels demo_index) ''beta'' [] @ map_get (ix_channels demo_index) ''stable'' []"
  have es: "channel_entries demo_index ''beta'' = Some es"
    by (simp add: channel_entries_def es_def)
  have len: "length es = 2" by (simp add: es_def demo_index_def map_get_def)
  have "case Latest demo_index ''beta'' of None \<Rightarrow> es = [] | Some e \<Rightarrow> e \<in> set es"
    using Latest_newest [OF demo_index_valid es] by (auto split: option.splits)
  then show ?thesis using es len demo_index_valid by (auto split: option.splits)
qed

end
