(* ===== verification/UpdatePlan.thy ===== *)
theory UpdatePlan
  imports Manifest
begin

text \<open>
  Target selection of the updater (\<^verbatim>\<open>internal/updater/plan.go\<close>). Fetching and verifying a
  manifest is the argument \<open>fetch\<close>: it gives an error text or a manifest for a URL. The theorems
  say that the selected release is the newest one that may be installed, that an update never moves
  backwards, and that repeated updates come to rest.
\<close>

record target =
  t_version :: version
  t_manifest :: manifest
  t_url :: string
  t_image :: string

type_synonym fetcher = "string \<Rightarrow> string + manifest"
type_synonym cand = "version \<times> index_entry"

datatype skip =
    SkipFailed string | SkipFetch string string | SkipOtherVersion string string
  | SkipChannel string string | SkipMinUpgrade string string | SkipNoImage string

datatype reason = UpToDateNewest string string | UpToDateNoEligible string "skip list"

datatype outcome = Selected target | NoTarget reason

definition last_index :: "string \<Rightarrow> char \<Rightarrow> int" where
  "last_index s c =
     (case index_byte (rev s) c of None \<Rightarrow> - 1 | Some i \<Rightarrow> int (length s) - 1 - int i)"

definition rewriteRepository :: "string \<Rightarrow> string \<Rightarrow> string" where
  "rewriteRepository ref repo =
     (if repo = [] then ref
      else case index_byte ref CHR ''@'' of
        Some i \<Rightarrow> repo @ drop i ref
      | None \<Rightarrow>
          (let i = last_index ref CHR '':'' in
           if i > last_index ref CHR ''/'' then repo @ drop (nat i) ref else repo))"

fun collect_cands :: "version \<Rightarrow> string list \<Rightarrow> index_entry list \<Rightarrow> cand list" where
  "collect_cands current seen [] = []"
| "collect_cands current seen (e # es) =
     (case ParseVersion (ie_version e) of
        Inl _ \<Rightarrow> collect_cands current seen es
      | Inr v \<Rightarrow>
          if \<not> version_Less current v \<or> version_String v \<in> set seen then collect_cands current seen es
          else (v, e) # collect_cands current (version_String v # seen) es)"

definition maxCandidates :: nat where
  "maxCandidates = 10"

text \<open>One candidate: the reason it is skipped, or the target it gives.\<close>

definition try_cand ::
    "string \<Rightarrow> version \<Rightarrow> string list \<Rightarrow> string \<Rightarrow> fetcher \<Rightarrow> cand \<Rightarrow> skip + target" where
  "try_cand channel current failed imageRepo fetch c =
     (let v = fst c; e = snd c; vs = version_String v in
      if vs \<in> set failed then Inl (SkipFailed vs)
      else case fetch (ie_url e) of
        Inl err \<Rightarrow> Inl (SkipFetch vs err)
      | Inr m \<Rightarrow>
          if Compare (m_parsed m) v \<noteq> 0 then Inl (SkipOtherVersion vs (m_version m))
          else if channel = ''stable'' \<and> m_channel m \<noteq> ''stable'' then Inl (SkipChannel vs (m_channel m))
          else if MinUpgradeFrom (m_compat m) \<noteq> [] \<and>
                  (case ParseVersion (MinUpgradeFrom (m_compat m)) of
                     Inl _ \<Rightarrow> True | Inr mv \<Rightarrow> version_Less current mv)
               then Inl (SkipMinUpgrade vs (MinUpgradeFrom (m_compat m)))
          else (let image = map_get (m_images m) ''openlog'' [] in
                if image = [] then Inl (SkipNoImage vs)
                else Inr \<lparr>t_version = v, t_manifest = m, t_url = ie_url e,
                          t_image = rewriteRepository image imageRepo\<rparr>))"

fun select_loop ::
    "string \<Rightarrow> version \<Rightarrow> string list \<Rightarrow> string \<Rightarrow> fetcher \<Rightarrow> nat \<Rightarrow> skip list \<Rightarrow> cand list \<Rightarrow> outcome" where
  "select_loop channel current failed imageRepo fetch i skipped [] =
     NoTarget (UpToDateNoEligible (version_String current) skipped)"
| "select_loop channel current failed imageRepo fetch i skipped (c # cs) =
     (if i \<ge> maxCandidates then NoTarget (UpToDateNoEligible (version_String current) skipped)
      else case try_cand channel current failed imageRepo fetch c of
             Inl s \<Rightarrow> select_loop channel current failed imageRepo fetch (Suc i) (skipped @ [s]) cs
           | Inr t \<Rightarrow> Selected t)"

definition cand_cmp :: "cand \<Rightarrow> cand \<Rightarrow> int" where
  "cand_cmp a b = Compare (fst a) (fst b)"

definition SelectTarget ::
    "index \<Rightarrow> string \<Rightarrow> version \<Rightarrow> string list \<Rightarrow> string \<Rightarrow> fetcher \<Rightarrow> string + outcome" where
  "SelectTarget idx channel current failed imageRepo fetch =
     (case channel_entries idx channel of
        None \<Rightarrow> Inl channel
      | Some entries \<Rightarrow>
          (let cands = collect_cands current [] entries in
           if cands = [] then Inr (NoTarget (UpToDateNewest (version_String current) channel))
           else Inr (select_loop channel current failed imageRepo fetch 0 [] (sort_desc cand_cmp cands))))"

definition sameVersion :: "string \<Rightarrow> string \<Rightarrow> bool" where
  "sameVersion a b =
     (case (ParseVersion a, ParseVersion b) of
        (Inr va, Inr vb) \<Rightarrow> Compare va vb = 0
      | _ \<Rightarrow> trim_prefix a ''v'' = trim_prefix b ''v'')"

section \<open>Candidates\<close>

lemma collect_cands_sound:
  assumes "(v, e) \<in> set (collect_cands current seen es)"
  shows "e \<in> set es \<and> ParseVersion (ie_version e) = Inr v \<and> version_Less current v"
  using assms
  by (induction es arbitrary: seen) (auto split: sum.splits if_splits)

lemma collect_cands_complete:
  assumes "e \<in> set es" and "ParseVersion (ie_version e) = Inr v" and "version_Less current v"
    and "version_String v \<notin> set seen"
  shows "\<exists>e'. (v, e') \<in> set (collect_cands current seen es)"
  using assms
proof (induction es arbitrary: seen)
  case (Cons x xs)
  show ?case
  proof (cases "ParseVersion (ie_version x)")
    case (Inr w)
    show ?thesis
    proof (cases "e = x")
      case True
      then show ?thesis using Cons.prems Inr by auto
    next
      case False
      then have e: "e \<in> set xs" using Cons.prems by simp
      show ?thesis
      proof (cases "version_String w = version_String v")
        case True
        then have "w = v" using Inr Cons.prems(2) version_String_inj by blast
        then show ?thesis using Inr Cons.prems by auto
      next
        case False
        then show ?thesis
          using Cons.IH [OF e Cons.prems(2,3), of seen]
            Cons.IH [OF e Cons.prems(2,3), of "version_String w # seen"] Cons.prems(4) Inr by auto
      qed
    qed
  qed (use Cons in auto)
qed simp

lemma collect_cands_distinct:
  "distinct (map (\<lambda>c. version_String (fst c)) (collect_cands current seen es)) \<and>
   (\<forall>c \<in> set (collect_cands current seen es). version_String (fst c) \<notin> set seen)"
proof (induction es arbitrary: seen)
  case (Cons x xs)
  show ?case
  proof (cases "ParseVersion (ie_version x)")
    case (Inr v)
    then show ?thesis
      using Cons.IH [of seen] Cons.IH [of "version_String v # seen"] by (fastforce split: if_splits)
  qed (use Cons in auto)
qed simp

lemma distinct_versions: "distinct (map fst (collect_cands current [] es))"
proof (rule distinct_map [THEN iffD2], intro conjI)
  have d: "distinct (map (\<lambda>c. version_String (fst c)) (collect_cands current [] es))"
    using collect_cands_distinct by blast
  then show "distinct (collect_cands current [] es)" by (simp add: distinct_map)
  show "inj_on fst (set (collect_cands current [] es))"
    using d by (auto simp: distinct_map inj_on_def)
qed

interpretation cand_order: weak_comparison cand_cmp
proof
  fix a b c :: cand
  show "cand_cmp a b \<in> {- 1, 0, 1}" unfolding cand_cmp_def by (rule version_order.cmp_range)
  show "cand_cmp b a = - cand_cmp a b" unfolding cand_cmp_def by (rule version_order.cmp_flip)
  show "cand_cmp a b \<le> 0 \<Longrightarrow> cand_cmp b c \<le> 0 \<Longrightarrow> cand_cmp a c \<le> 0"
    unfolding cand_cmp_def by (rule version_order.cmp_trans)
qed

lemma distinct_fst_insert_desc:
  "distinct (map fst (insert_desc cand_cmp x xs)) \<longleftrightarrow> fst x \<notin> fst ` set xs \<and> distinct (map fst xs)"
  by (induction xs) auto

lemma distinct_fst_sort_desc: "distinct (map fst (sort_desc cand_cmp xs)) \<longleftrightarrow> distinct (map fst xs)"
  by (induction xs) (auto simp: distinct_fst_insert_desc)

lemma strictly_sorted_cands:
  "sorted_wrt (\<lambda>a b. cand_cmp b a < 0) (sort_desc cand_cmp (collect_cands current [] es))"
proof -
  let ?s = "sort_desc cand_cmp (collect_cands current [] es)"
  have "distinct (map fst ?s)" by (simp add: distinct_fst_sort_desc distinct_versions)
  then have "sorted_wrt (\<lambda>a b. cand_cmp b a \<le> 0 \<and> fst a \<noteq> fst b) ?s"
    using cand_order.sorted_sort_desc [of "collect_cands current [] es"]
    by (auto simp: sorted_wrt_iff_nth_less distinct_conv_nth)
  then show ?thesis
    by (rule sorted_wrt_mono_rel [rotated])
      (auto simp: cand_cmp_def order_le_less version_order.cmp_eq_iff)
qed

section \<open>What is selected\<close>

text \<open>The releases one planning pass looks at, newest first.\<close>

definition considered :: "index \<Rightarrow> string \<Rightarrow> version \<Rightarrow> cand list" where
  "considered idx channel current =
     (case channel_entries idx channel of
        None \<Rightarrow> []
      | Some es \<Rightarrow> take maxCandidates (sort_desc cand_cmp (collect_cands current [] es)))"

definition installable :: "string \<Rightarrow> version \<Rightarrow> string list \<Rightarrow> string \<Rightarrow> fetcher \<Rightarrow> cand \<Rightarrow> bool" where
  "installable channel current failed imageRepo fetch c \<longleftrightarrow>
     (\<exists>t. try_cand channel current failed imageRepo fetch c = Inr t)"

lemma select_loop_spec:
  assumes "i \<le> maxCandidates"
  shows "select_loop channel current failed repo fetch i sk cs =
     (case find (\<lambda>c. \<exists>t. try_cand channel current failed repo fetch c = Inr t) (take (maxCandidates - i) cs) of
        Some c \<Rightarrow> Selected (projr (try_cand channel current failed repo fetch c))
      | None \<Rightarrow> NoTarget (UpToDateNoEligible (version_String current)
           (sk @ map (\<lambda>c. projl (try_cand channel current failed repo fetch c)) (take (maxCandidates - i) cs))))"
  using assms
proof (induction cs arbitrary: i sk)
  case (Cons c cs)
  show ?case
  proof (cases "i = maxCandidates")
    case False
    then have le: "Suc i \<le> maxCandidates" using Cons.prems by simp
    then have tk: "take (maxCandidates - i) (c # cs) = c # take (maxCandidates - Suc i) cs"
      by (simp add: Suc_diff_Suc [symmetric])
    show ?thesis
      unfolding tk using Cons.IH [OF le] False Cons.prems
      by (cases "try_cand channel current failed repo fetch c") (auto split: option.splits)
  qed simp
qed simp

lemma SelectTarget_find:
  assumes "SelectTarget idx channel current failed repo fetch = Inr r"
  shows "r = Selected t \<Longrightarrow>
           (\<exists>c. find (installable channel current failed repo fetch) (considered idx channel current) = Some c \<and>
                try_cand channel current failed repo fetch c = Inr t)"
    and "r = NoTarget why \<Longrightarrow>
           find (installable channel current failed repo fetch) (considered idx channel current) = None"
proof -
  obtain es where es: "channel_entries idx channel = Some es"
    using assms by (auto simp: SelectTarget_def split: option.splits)
  let ?cs = "collect_cands current [] es"
  have empty: "r = NoTarget (UpToDateNewest (version_String current) channel)" if "?cs = []"
    using assms es that by (simp add: SelectTarget_def)
  have loop: "r = select_loop channel current failed repo fetch 0 [] (sort_desc cand_cmp ?cs)" if "?cs \<noteq> []"
    using assms es that by (simp add: SelectTarget_def Let_def)
  have inst: "installable channel current failed repo fetch =
      (\<lambda>c. \<exists>t. try_cand channel current failed repo fetch c = Inr t)"
    by (simp add: installable_def fun_eq_iff)
  note sp = select_loop_spec [of 0 channel current failed repo fetch "[]" "sort_desc cand_cmp ?cs"]
  show "r = Selected t \<Longrightarrow>
           (\<exists>c. find (installable channel current failed repo fetch) (considered idx channel current) = Some c \<and>
                try_cand channel current failed repo fetch c = Inr t)"
    using empty loop sp es unfolding inst considered_def
    by (cases "?cs = []") (auto split: option.splits dest!: find_Some_iff [THEN iffD1], metis)
  show "r = NoTarget why \<Longrightarrow>
           find (installable channel current failed repo fetch) (considered idx channel current) = None"
    using empty loop sp es unfolding inst considered_def
    by (cases "?cs = []") (auto split: option.splits)
qed

lemma considered_sound:
  assumes "(v, e) \<in> set (considered idx channel current)"
  shows "\<exists>es. channel_entries idx channel = Some es \<and> e \<in> set es \<and>
              ParseVersion (ie_version e) = Inr v \<and> version_Less current v"
  using assms
  by (cases "channel_entries idx channel")
    (auto simp: considered_def dest!: in_set_takeD collect_cands_sound)

lemma considered_sorted: "sorted_wrt (\<lambda>a b. cand_cmp b a < 0) (considered idx channel current)"
  by (auto simp: considered_def strictly_sorted_cands intro: sorted_wrt_take split: option.splits)

lemma considered_newest:
  assumes "channel_entries idx channel = Some es" and "e \<in> set es" and "ParseVersion (ie_version e) = Inr w"
    and "version_Less current w" and c: "c \<in> set (considered idx channel current)" and "Compare (fst c) w < 0"
  shows "\<exists>e'. (w, e') \<in> set (considered idx channel current)"
proof -
  let ?s = "sort_desc cand_cmp (collect_cands current [] es)"
  obtain e' where e': "(w, e') \<in> set ?s"
    using collect_cands_complete [OF assms(2,3,4), of "[]"] by auto
  then obtain j where j: "j < length ?s" "?s ! j = (w, e')" by (metis in_set_conv_nth)
  obtain i where i: "i < length ?s" "i < maxCandidates" "?s ! i = c"
    using c assms(1) by (auto simp: considered_def in_set_conv_nth)
  have "cand_cmp (?s ! i) (?s ! j) < 0" using i j assms(6) by (simp add: cand_cmp_def)
  then have "j < i"
    using cand_order.sorted_index_less strictly_sorted_cands i(1) j(1) by blast
  then have "(w, e') \<in> set (take maxCandidates ?s)"
    using i j by (auto simp: in_set_conv_nth intro!: exI [of _ j])
  then show ?thesis using assms(1) by (auto simp: considered_def)
qed

lemma try_cand_Inr:
  assumes "try_cand channel current failed repo fetch (v, e) = Inr t"
  shows "t_version t = v \<and> t_url t = ie_url e \<and> version_String v \<notin> set failed \<and>
         fetch (ie_url e) = Inr (t_manifest t) \<and> m_parsed (t_manifest t) = v \<and>
         (channel = ''stable'' \<longrightarrow> m_channel (t_manifest t) = ''stable'') \<and>
         (MinUpgradeFrom (m_compat (t_manifest t)) \<noteq> [] \<longrightarrow>
            (\<exists>mv. ParseVersion (MinUpgradeFrom (m_compat (t_manifest t))) = Inr mv \<and> Compare mv current \<le> 0)) \<and>
         map_get (m_images (t_manifest t)) ''openlog'' [] \<noteq> [] \<and>
         t_image t = rewriteRepository (map_get (m_images (t_manifest t)) ''openlog'' []) repo"
  using assms version_order.cmp_flip [of current]
  by (auto simp: try_cand_def Let_def version_order.cmp_eq_iff version_Less_def
      split: if_splits sum.splits)

text \<open>
  C11: the selected release is listed on the channel, strictly newer than the running version, has
  not failed before, may be upgraded to from the running version, and every listed release that is
  newer still cannot be installed (so the newest installable one is chosen).
\<close>

theorem SelectTarget_newest_installable:
  assumes sel: "SelectTarget idx channel current failed repo fetch = Inr (Selected t)"
    and es: "channel_entries idx channel = Some es"
  shows "Compare current (t_version t) < 0 \<and>
         version_String (t_version t) \<notin> set failed \<and>
         (\<exists>e \<in> set es. ParseVersion (ie_version e) = Inr (t_version t) \<and> t_url t = ie_url e \<and>
            fetch (ie_url e) = Inr (t_manifest t)) \<and>
         (MinUpgradeFrom (m_compat (t_manifest t)) \<noteq> [] \<longrightarrow>
            (\<exists>mv. ParseVersion (MinUpgradeFrom (m_compat (t_manifest t))) = Inr mv \<and> Compare mv current \<le> 0)) \<and>
         (\<forall>e \<in> set es. \<forall>w. ParseVersion (ie_version e) = Inr w \<and> Compare (t_version t) w < 0 \<longrightarrow>
            (\<exists>e' \<in> set es. ParseVersion (ie_version e') = Inr w \<and>
               \<not> installable channel current failed repo fetch (w, e')))"
proof -
  let ?P = "installable channel current failed repo fetch" and ?cs = "considered idx channel current"
  obtain c where c: "find ?P ?cs = Some c" and t: "try_cand channel current failed repo fetch c = Inr t"
    using SelectTarget_find(1) [OF sel] by blast
  obtain v e where ve: "c = (v, e)" by force
  obtain i where i: "i < length ?cs" "?cs ! i = c" "\<And>j. j < i \<Longrightarrow> \<not> ?P (?cs ! j)"
    using c by (auto simp: find_Some_iff)
  have e: "e \<in> set es" "ParseVersion (ie_version e) = Inr v" "version_Less current v"
    using considered_sound [of v e idx channel current] i es ve nth_mem [OF i(1)] by auto
  note tc = try_cand_Inr [OF t [unfolded ve]]
  have newer: "\<exists>e' \<in> set es. ParseVersion (ie_version e') = Inr w \<and> \<not> ?P (w, e')"
    if e2: "e2 \<in> set es" "ParseVersion (ie_version e2) = Inr w" "Compare v w < 0" for e2 w
  proof -
    have "Compare current v < 0" using e(3) by (simp add: version_Less_def)
    then have less: "version_Less current w"
      using e2(3) version_order.cmp_less_trans by (simp add: version_Less_def)
    have cin: "c \<in> set ?cs" using nth_mem [OF i(1)] i(2) by simp
    have "Compare (fst c) w < 0" using e2(3) ve by simp
    then obtain e' where e': "(w, e') \<in> set ?cs"
      using considered_newest [OF es e2(1,2) less cin] by blast
    then obtain j where j: "j < length ?cs" "?cs ! j = (w, e')" by (auto simp: in_set_conv_nth)
    have "cand_cmp (?cs ! i) (?cs ! j) < 0" using i(2) j(2) e2(3) ve by (simp add: cand_cmp_def)
    then have "j < i"
      using cand_order.sorted_index_less considered_sorted i(1) j(1) by blast
    then have "\<not> ?P (w, e')" using i(3) j by metis
    then show ?thesis using considered_sound [OF e'] es by auto
  qed
  show ?thesis
    using e tc newer by (auto simp: version_Less_def)
qed

text \<open>
  When no target is selected, none of the newest ten releases newer than the running version
  can be installed; with at most ten newer releases that means no release can.
\<close>

lemma SelectTarget_none:
  assumes "SelectTarget idx channel current failed repo fetch = Inr (NoTarget why)"
    and "channel_entries idx channel = Some es"
  shows "(\<forall>c \<in> set (take 10 (sort_desc cand_cmp (collect_cands current [] es))).
            \<not> installable channel current failed repo fetch c) \<and>
         (length (collect_cands current [] es) \<le> 10 \<longrightarrow>
            (\<forall>c \<in> set (collect_cands current [] es). \<not> installable channel current failed repo fetch c))"
proof -
  have "\<forall>c \<in> set (considered idx channel current). \<not> installable channel current failed repo fetch c"
    using SelectTarget_find(2) [OF assms(1)] by (auto simp: find_None_iff)
  then show ?thesis using assms(2) by (simp add: considered_def maxCandidates_def)
qed

text \<open>
  C33: with a fetcher that returns validated manifests only, a target selected on the stable channel
  is a stable release and not a pre-release, and its manifest carries the version that was selected.
\<close>

theorem SelectTarget_stable:
  assumes fetched_valid: "\<And>u m. fetch u = Inr m \<Longrightarrow> \<exists>m0. validate up m0 = Inr m"
    and sel: "SelectTarget idx ''stable'' current failed repo fetch = Inr (Selected t)"
  shows "m_channel (t_manifest t) = ''stable'' \<and> \<not> IsPrerelease (t_version t) \<and>
         ParseVersion (m_version (t_manifest t)) = Inr (t_version t)"
proof -
  obtain c where "try_cand ''stable'' current failed repo fetch c = Inr t"
    using SelectTarget_find(1) [OF sel] by blast
  then obtain v e where tc: "try_cand ''stable'' current failed repo fetch (v, e) = Inr t" by (cases c) auto
  note t = try_cand_Inr [OF tc]
  then obtain m0 where m0: "validate up m0 = Inr (t_manifest t)" using fetched_valid by blast
  then show ?thesis using t by (auto simp: validate_Inr check_channel_def split: if_splits)
qed

section \<open>Repeated updates\<close>

text \<open>
  The updater runs \<open>SelectTarget\<close> again after each update. \<open>run_updates\<close> is that iteration on
  a fixed index in which each selected update succeeds; the number gives the runs allowed.
\<close>

fun run_updates ::
    "nat \<Rightarrow> index \<Rightarrow> string \<Rightarrow> version \<Rightarrow> string list \<Rightarrow> string \<Rightarrow> fetcher \<Rightarrow> version option" where
  "run_updates 0 idx channel current failed repo fetch = None"
| "run_updates (Suc n) idx channel current failed repo fetch =
     (case SelectTarget idx channel current failed repo fetch of
        Inl _ \<Rightarrow> None
      | Inr (NoTarget _) \<Rightarrow> Some current
      | Inr (Selected t) \<Rightarrow> run_updates n idx channel (t_version t) failed repo fetch)"

lemma version_Less_trans: "version_Less a b \<Longrightarrow> version_Less b c \<Longrightarrow> version_Less a c"
  unfolding version_Less_def using version_order.cmp_less_trans [of a b c] by simp

lemma version_Less_irrefl [simp]: "\<not> version_Less a a"
  by (simp add: version_Less_def)

lemma newer_versions_shrink:
  assumes "v \<in> fst ` set (collect_cands current [] es)"
  shows "length (collect_cands v [] es) < length (collect_cands current [] es)"
proof -
  let ?V = "\<lambda>x. fst ` set (collect_cands x [] es)"
  have "version_Less current v" using assms collect_cands_sound by fastforce
  have sub: "?V v \<subseteq> ?V current"
  proof
    fix w assume "w \<in> ?V v"
    then obtain e where "(w, e) \<in> set (collect_cands v [] es)" by force
    then have e: "e \<in> set es" "ParseVersion (ie_version e) = Inr w" "version_Less current w"
      using collect_cands_sound \<open>version_Less current v\<close> version_Less_trans by blast+
    then show "w \<in> ?V current" using collect_cands_complete [OF e, of "[]"] by force
  qed
  have "v \<notin> ?V v" using collect_cands_sound by fastforce
  then have "card (?V v) < card (?V current)"
    using assms sub by (intro psubset_card_mono) (simp, blast)
  then show ?thesis
    using distinct_card [OF distinct_versions [of v es]] distinct_card [OF distinct_versions [of current es]]
    by simp
qed

lemma run_updates_ends:
  assumes "channel_entries idx channel = Some es" and "length (collect_cands current [] es) < n"
  shows "\<exists>v why. run_updates n idx channel current failed repo fetch = Some v \<and>
           Compare current v \<le> 0 \<and> SelectTarget idx channel v failed repo fetch = Inr (NoTarget why)"
  using assms(2)
proof (induction n arbitrary: current)
  case (Suc n)
  obtain r where r: "SelectTarget idx channel current failed repo fetch = Inr r"
    using assms(1) by (cases "collect_cands current [] es = []") (auto simp: SelectTarget_def Let_def)
  show ?case
  proof (cases r)
    case (NoTarget why)
    then show ?thesis using r by auto
  next
    case (Selected t)
    obtain c where c: "find (installable channel current failed repo fetch) (considered idx channel current) = Some c"
        "try_cand channel current failed repo fetch c = Inr t"
      using SelectTarget_find(1) [OF r Selected] by blast
    obtain v e where ve: "c = (v, e)" by force
    have "c \<in> set (considered idx channel current)" using c(1) by (auto simp: find_Some_iff)
    then have "c \<in> set (collect_cands current [] es)"
      using assms(1) by (auto simp: considered_def dest: in_set_takeD)
    moreover have tv: "t_version t = v" using try_cand_Inr c(2) ve by blast
    ultimately have "t_version t \<in> fst ` set (collect_cands current [] es)"
      and less: "Compare current v < 0"
      using ve collect_cands_sound [of v e current "[]" es] by (force simp: version_Less_def)+
    then have "length (collect_cands (t_version t) [] es) < n"
      using newer_versions_shrink Suc.prems by fastforce
    then obtain w why where w: "run_updates n idx channel (t_version t) failed repo fetch = Some w"
        "Compare v w \<le> 0" "SelectTarget idx channel w failed repo fetch = Inr (NoTarget why)"
      using Suc.IH tv by metis
    have "Compare current w \<le> 0" using less w(2) version_order.cmp_less_trans by fastforce
    then show ?thesis using r Selected w by auto
  qed
qed simp

lemma length_collect_cands: "length (collect_cands current seen es) \<le> length es"
proof (induction es arbitrary: seen)
  case (Cons x xs)
  then show ?case by (auto split: sum.splits intro: le_SucI)
qed simp


section \<open>Witnesses\<close>

definition demo_fetch :: fetcher where
  "demo_fetch u =
     (if u = ''https://x/m''
      then Inr (demo_manifest\<lparr>m_parsed := \<lparr>v_major = 1, v_minor = 2, v_patch = 0, v_pre = []\<rparr>\<rparr>)
      else Inl ''not found'')"

definition demo_current :: version where
  "demo_current = \<lparr>v_major = 1, v_minor = 0, v_patch = 0, v_pre = []\<rparr>"

definition demo_target :: target where
  "demo_target = \<lparr>t_version = \<lparr>v_major = 1, v_minor = 2, v_patch = 0, v_pre = []\<rparr>,
     t_manifest = demo_manifest\<lparr>m_parsed := \<lparr>v_major = 1, v_minor = 2, v_patch = 0, v_pre = []\<rparr>\<rparr>,
     t_url = ''https://x/m'', t_image = ''m/o@sha256:1''\<rparr>"

lemmas select_eval = SelectTarget_def channel_entries_def map_get_def demo_index_def demo_versions
  version_Less_def Compare_def nat_cmp_def demo_current_def try_cand_def demo_fetch_def
  maxCandidates_def demo_manifest_def rewriteRepository_def demo_target_def Let_def

lemma demo_stable_entries:
  "channel_entries demo_index ''stable'' = Some [\<lparr>ie_version = ''1.2.0'', ie_url = ''https://x/m''\<rparr>]"
  by (simp add: channel_entries_def demo_index_def map_get_def)

lemma demo_selected:
  "SelectTarget demo_index ''stable'' demo_current [] ''m/o'' demo_fetch = Inr (Selected demo_target)"
  by (simp add: select_eval)

lemma demo_rejected:
  "SelectTarget demo_index ''stable'' demo_current [''1.2.0''] ''m/o'' demo_fetch =
     Inr (NoTarget (UpToDateNoEligible ''1.0.0'' [SkipFailed ''1.2.0'']))"
  by (simp add: select_eval version_String_def show_nat.simps digit_char_def char_of_def bit_0)

lemma demo_fetch_valid: "demo_fetch u = Inr m \<Longrightarrow> \<exists>m0. validate demo_url m0 = Inr m"
  using demo_manifest_valid by (auto simp: demo_fetch_def split: if_splits)

theorem SelectTarget_newest_installable_witness:
  "SelectTarget demo_index ''stable'' demo_current [] ''m/o'' demo_fetch = Inr (Selected demo_target) \<and>
   Compare demo_current (t_version demo_target) < 0"
  using SelectTarget_newest_installable [OF demo_selected demo_stable_entries] demo_selected by blast

theorem SelectTarget_stable_witness:
  "SelectTarget demo_index ''stable'' demo_current [] ''m/o'' demo_fetch = Inr (Selected demo_target) \<and>
   m_channel (t_manifest demo_target) = ''stable'' \<and> \<not> IsPrerelease (t_version demo_target)"
  using SelectTarget_stable [of demo_fetch demo_url, OF _ demo_selected] demo_fetch_valid demo_selected by blast


end
