(* ===== verification/OqlLexer.thy ===== *)
theory OqlLexer
  imports GoUtf8 GoFloatText
begin

text \<open>
  The lexer of OQL (\<^verbatim>\<open>internal/oql/lexer.go\<close>). Positions are byte offsets in the query. The Go
  loops advance an index \<open>i\<close> over \<open>src\<close>; here the unread suffix \<open>src[i:]\<close> is the argument and
  the number of bytes consumed the result. An error keeps the format string and the arguments it
  would be rendered with.
\<close>

section \<open>Tokens and errors\<close>

definition MaxQueryBytes :: nat where "MaxQueryBytes = 8192"
definition maxStringBytes :: nat where "maxStringBytes = 4096"
definition maxTokens :: nat where "maxTokens = 4000"
definition maxDepth :: nat where "maxDepth = 20"

datatype tokenKind =
    tokEOF | tokIdent | tokQuotedIdent | tokString | tokNumber | tokVariable | tokLParen | tokRParen
  | tokLBracket | tokRBracket | tokComma | tokStar | tokMinus | tokEq | tokNeq | tokLt | tokLte | tokGt | tokGte

fun tokenNames :: "tokenKind \<Rightarrow> string" where
  "tokenNames tokEOF = ''end of query''"
| "tokenNames tokIdent = ''identifier''"
| "tokenNames tokQuotedIdent = ''quoted identifier''"
| "tokenNames tokString = ''string''"
| "tokenNames tokNumber = ''number''"
| "tokenNames tokVariable = ''variable''"
| "tokenNames tokLParen = [CHR 0x27, CHR ''('', CHR 0x27]"
| "tokenNames tokRParen = [CHR 0x27, CHR '')'', CHR 0x27]"
| "tokenNames tokLBracket = [CHR 0x27, CHR ''['', CHR 0x27]"
| "tokenNames tokRBracket = [CHR 0x27, CHR '']'', CHR 0x27]"
| "tokenNames tokComma = [CHR 0x27, CHR '','', CHR 0x27]"
| "tokenNames tokStar = [CHR 0x27, CHR ''*'', CHR 0x27]"
| "tokenNames tokMinus = [CHR 0x27, CHR ''-'', CHR 0x27]"
| "tokenNames tokEq = [CHR 0x27, CHR ''='', CHR 0x27]"
| "tokenNames tokNeq = [CHR 0x27, CHR ''!'', CHR ''='', CHR 0x27]"
| "tokenNames tokLt = [CHR 0x27, CHR ''<'', CHR 0x27]"
| "tokenNames tokLte = [CHR 0x27, CHR ''<'', CHR ''='', CHR 0x27]"
| "tokenNames tokGt = [CHR 0x27, CHR ''>'', CHR 0x27]"
| "tokenNames tokGte = [CHR 0x27, CHR ''>'', CHR ''='', CHR 0x27]"

record token =
  tk_kind :: tokenKind
  tk_text :: string
  tk_pos :: nat
  tk_end :: nat

text \<open>\<^verbatim>\<open>%q\<close> of identifier and number text adds the quotes only: no character of them is escaped.\<close>

definition describe :: "token \<Rightarrow> string" where
  "describe t =
     (if tk_kind t = tokIdent \<or> tk_kind t = tokNumber then CHR 0x22 # tk_text t @ [CHR 0x22]
      else if tk_kind t = tokString then ''string''
      else tokenNames (tk_kind t))"

record oql_error =
  e_format :: string
  e_args :: "string list"
  e_offset :: nat
  e_length :: nat

definition errAt :: "nat \<Rightarrow> nat \<Rightarrow> string \<Rightarrow> string list \<Rightarrow> oql_error" where
  "errAt pos end format args =
     \<lparr>e_format = format, e_args = args, e_offset = pos, e_length = (if end < pos then pos else end) - pos\<rparr>"

fun position_loop :: "nat list \<Rightarrow> nat \<Rightarrow> nat \<Rightarrow> nat \<times> nat" where
  "position_loop [] line column = (line, column)"
| "position_loop (r # rs) line column =
     (if r = 10 then position_loop rs (Suc line) 1 else position_loop rs line (Suc column))"

text \<open>The offset is an \<^verbatim>\<open>int\<close> in Go; the negative case is clamped to \<open>0\<close>.\<close>

definition Position :: "string \<Rightarrow> int \<Rightarrow> nat \<times> nat" where
  "Position src offset =
     (let o1 = (if offset > int (length src) then int (length src) else offset);
          o2 = (if o1 < 0 then 0 else o1)
      in position_loop (runes (take (nat o2) src)) 1 1)"

record diagnostic =
  d_error :: oql_error
  d_offset :: nat
  d_length :: nat
  d_line :: nat
  d_column :: nat

definition Diagnose :: "string \<Rightarrow> oql_error \<Rightarrow> diagnostic" where
  "Diagnose src e =
     (let (l, c) = Position src (int (e_offset e))
      in \<lparr>d_error = e, d_offset = e_offset e, d_length = e_length e, d_line = l, d_column = c\<rparr>)"

section \<open>Character classes\<close>

definition isIdentStart :: "char \<Rightarrow> bool" where
  "isIdentStart c \<longleftrightarrow> c = CHR ''_'' \<or> is_lower c \<or> is_upper c"

definition isIdentPart :: "char \<Rightarrow> bool" where
  "isIdentPart c \<longleftrightarrow> isIdentStart c \<or> is_digit c \<or> c = CHR ''.''"

definition isControl :: "char \<Rightarrow> bool" where
  "isControl c \<longleftrightarrow> byte c < 32 \<or> byte c = 127"

definition durationUnits :: "string \<Rightarrow> duration option" where
  "durationUnits u =
     (if u \<in> {''second'', ''seconds'', ''sec'', ''secs'', ''s''} then Some second
      else if u \<in> {''minute'', ''minutes'', ''min'', ''mins'', ''m''} then Some minute
      else if u \<in> {''hour'', ''hours'', ''hr'', ''hrs'', ''h''} then Some hour
      else if u \<in> {''day'', ''days'', ''d''} then Some (24 * hour)
      else if u \<in> {''week'', ''weeks'', ''w''} then Some (7 * 24 * hour)
      else if u \<in> {''year'', ''years''} then Some (365 * 24 * hour)
      else None)"

definition startsUnit :: "string \<Rightarrow> bool" where
  "startsUnit s \<longleftrightarrow> durationUnits (to_lower (takeWhile isIdentStart s)) \<noteq> None"

definition validVariableName :: "string \<Rightarrow> bool" where
  "validVariableName s \<longleftrightarrow>
     s \<noteq> [] \<and> length s \<le> 64 \<and> isIdentStart (hd s) \<and> list_all (\<lambda>c. isIdentStart c \<or> is_digit c) (tl s)"

fun rune_start_below :: "string \<Rightarrow> nat \<Rightarrow> nat" where
  "rune_start_below s 0 = 0"
| "rune_start_below s (Suc n) = (if is_cont (s ! Suc n) then rune_start_below s n else Suc n)"

definition truncate_str :: "string \<Rightarrow> nat \<Rightarrow> string" where
  "truncate_str s n =
     (if length s \<le> n then s else take (rune_start_below s n) s @ [CHR 0xE2, CHR 0x80, CHR 0xA6])"

section \<open>Scanning\<close>

text \<open>The number of bytes of white space and comments at the start of \<open>s\<close>.\<close>

fun skip_blank :: "bool \<Rightarrow> string \<Rightarrow> nat" where
  "skip_blank comment [] = 0"
| "skip_blank comment (c # cs) =
     (if comment then (if byte c = 10 then Suc (skip_blank False cs) else Suc (skip_blank True cs))
      else if c = CHR '' '' \<or> byte c = 9 \<or> byte c = 10 \<or> byte c = 13 then Suc (skip_blank False cs)
      else if has_prefix (c # cs) ''--'' \<or> has_prefix (c # cs) ''//'' then Suc (skip_blank True cs)
      else 0)"

text \<open>
  \<open>lex_string\<close> reads the rest of a string literal whose opening quote is at \<open>start\<close>; \<open>n\<close> is the
  length of the query, \<open>i\<close> the position of the suffix and \<open>b\<close> the text read so far. It returns the
  decoded text and the position after the closing quote.
\<close>

definition too_long :: "nat \<Rightarrow> nat \<Rightarrow> oql_error" where
  "too_long start i = errAt start i ''string is longer than %d bytes'' [show_nat maxStringBytes]"

definition unescape :: "char \<Rightarrow> char option" where
  "unescape c =
     (if byte c = 92 \<or> byte c = 39 \<or> byte c = 34 then Some c
      else if c = CHR ''n'' then Some CHR 0x0A
      else if c = CHR ''t'' then Some CHR 0x09
      else None)"

fun lex_string :: "char \<Rightarrow> nat \<Rightarrow> nat \<Rightarrow> nat \<Rightarrow> string \<Rightarrow> string \<Rightarrow> oql_error + string \<times> nat" where
  "lex_string quote start n i b [] = Inl (errAt start n ''unterminated string'' [])"
| "lex_string quote start n i b (c # cs) =
     (if c = quote then
        (case cs of
           d # ds \<Rightarrow>
             if d = quote then lex_string quote start n (i + 2) (b @ [quote]) ds
             else if length b > maxStringBytes then Inl (too_long start (i + 1)) else Inr (b, i + 1)
         | [] \<Rightarrow> if length b > maxStringBytes then Inl (too_long start (i + 1)) else Inr (b, i + 1))
      else if byte c = 92 then
        (case cs of
           [] \<Rightarrow> Inl (errAt start n ''unterminated string'' [])
         | d # ds \<Rightarrow>
             (case unescape d of
                None \<Rightarrow> Inl (errAt i (i + 2) ''invalid escape sequence'' [])
              | Some x \<Rightarrow>
                  if length (b @ [x]) > maxStringBytes + 4 then Inl (too_long start (i + 2))
                  else lex_string quote start n (i + 2) (b @ [x]) ds))
      else if length (b @ [c]) > maxStringBytes + 4 then Inl (too_long start (i + 1))
      else lex_string quote start n (i + 1) (b @ [c]) cs)"

text \<open>The number of bytes of the number at the start of \<open>s\<close>.\<close>

definition exponent_len :: "string \<Rightarrow> nat" where
  "exponent_len s =
     (case s of
        [] \<Rightarrow> 0
      | c # r \<Rightarrow>
          if c = CHR ''e'' \<or> c = CHR ''E'' then
            (let sg = (case r of d # _ \<Rightarrow> if d = CHR ''+'' \<or> d = CHR ''-'' then 1 else 0 | [] \<Rightarrow> 0);
                 ds = takeWhile is_digit (drop sg r)
             in if ds = [] then 0 else 1 + sg + length ds)
          else 0)"

definition number_len :: "string \<Rightarrow> nat" where
  "number_len s =
     (let a = length (takeWhile is_digit s);
          r = drop a s;
          f = (case r of c # t \<Rightarrow> if c = CHR ''.'' then 1 + length (takeWhile is_digit t) else 0 | [] \<Rightarrow> 0)
      in a + f + exponent_len (drop (a + f) s))"

definition operator :: "string \<Rightarrow> (tokenKind \<times> nat) option" where
  "operator s =
     (let two = take 2 s; c = hd s in
      if two = ''!='' \<or> two = ''<>'' then Some (tokNeq, 2)
      else if two = ''<='' then Some (tokLte, 2)
      else if two = ''>='' then Some (tokGte, 2)
      else if two = ''=='' then Some (tokEq, 2)
      else if c = CHR ''('' then Some (tokLParen, 1)
      else if c = CHR '')'' then Some (tokRParen, 1)
      else if c = CHR ''['' then Some (tokLBracket, 1)
      else if c = CHR '']'' then Some (tokRBracket, 1)
      else if c = CHR '','' then Some (tokComma, 1)
      else if c = CHR ''*'' then Some (tokStar, 1)
      else if c = CHR ''-'' then Some (tokMinus, 1)
      else if c = CHR ''='' then Some (tokEq, 1)
      else if c = CHR ''<'' then Some (tokLt, 1)
      else if c = CHR ''>'' then Some (tokGt, 1)
      else None)"

definition mk_token :: "tokenKind \<Rightarrow> string \<Rightarrow> nat \<Rightarrow> nat \<Rightarrow> token" where
  "mk_token k text start n = \<lparr>tk_kind = k, tk_text = text, tk_pos = start, tk_end = start + n\<rparr>"

text \<open>
  One token at the start of the non-empty suffix \<open>s\<close>, which stands at offset \<open>start\<close> of the query
  (so the query has \<open>start + length s\<close> bytes).
\<close>

definition lex_number :: "nat \<Rightarrow> string \<Rightarrow> oql_error + token" where
  "lex_number start s =
     (let k = number_len s; r = drop k s in
      if r \<noteq> [] \<and> isIdentStart (hd r) \<and> \<not> startsUnit r
      then Inl (errAt start (start + k + 1) ''invalid number'' [])
      else Inr (mk_token tokNumber (take k s) start k))"

definition lex_quoted :: "nat \<Rightarrow> string \<Rightarrow> oql_error + token" where
  "lex_quoted start s =
     (case index_byte (tl s) CHR 0x60 of
        None \<Rightarrow> Inl (errAt start (start + length s) ''unterminated quoted identifier'' [])
      | Some j \<Rightarrow>
          (let name = take j (tl s) in
           if name = [] \<or> length name > 256 \<or> list_ex isControl name
           then Inl (errAt start (start + j + 2)
                  ''quoted identifier must be 1-256 bytes without control characters'' [])
           else Inr (mk_token tokQuotedIdent name start (j + 2))))"

definition lex_variable :: "nat \<Rightarrow> string \<Rightarrow> oql_error + token" where
  "lex_variable start s =
     (case index_str s ''}}'' of
        None \<Rightarrow> Inl (errAt start (start + length s) ''unterminated variable'' [])
      | Some j \<Rightarrow>
          (let name = trim_space (drop 2 (take j s)) in
           if \<not> validVariableName name
           then Inl (errAt start (start + j + 2) ''invalid variable name %q'' [truncate_str name 64])
           else Inr (mk_token tokVariable name start (j + 2))))"

definition lex_token :: "nat \<Rightarrow> string \<Rightarrow> oql_error + token" where
  "lex_token start s =
     (let c = hd s in
      if isIdentStart c then
        (let k = length (takeWhile isIdentPart s) in Inr (mk_token tokIdent (take k s) start k))
      else if is_digit c \<or> (c = CHR ''.'' \<and> length s > 1 \<and> is_digit (s ! 1)) then lex_number start s
      else if byte c = 39 \<or> byte c = 34 then
        (case lex_string c start (start + length s) (start + 1) [] (tl s) of
           Inl e \<Rightarrow> Inl e
         | Inr (text, i) \<Rightarrow> Inr (mk_token tokString text start (i - start)))
      else if byte c = 96 then lex_quoted start s
      else if has_prefix s ''{{'' then lex_variable start s
      else (case operator s of
              None \<Rightarrow> Inl (errAt start (start + snd (decode_rune s)) ''unexpected character %q''
                         [take (snd (decode_rune s)) s])
            | Some (k, m) \<Rightarrow> Inr (mk_token k (take m s) start m)))"

definition eof_token :: "nat \<Rightarrow> token" where
  "eof_token n = \<lparr>tk_kind = tokEOF, tk_text = [], tk_pos = n, tk_end = n\<rparr>"

text \<open>
  The main loop with the unread suffix and the tokens so far. Every round but the last consumes at
  least one byte, so \<open>length src + 1\<close> rounds are enough (\<open>lex_loop_enough\<close>).
\<close>

fun lex_loop :: "nat \<Rightarrow> nat \<Rightarrow> string \<Rightarrow> token list \<Rightarrow> oql_error + token list" where
  "lex_loop 0 i s toks = Inr toks"
| "lex_loop (Suc fuel) i s toks =
     (let k = skip_blank False s; i1 = i + k; s1 = drop k s in
      if length toks \<ge> maxTokens then Inl (errAt i1 i1 ''query has more than %d tokens'' [show_nat maxTokens])
      else if s1 = [] then Inr (toks @ [eof_token i1])
      else case lex_token i1 s1 of
             Inl e \<Rightarrow> Inl e
           | Inr t \<Rightarrow> lex_loop fuel (tk_end t) (drop (tk_end t - i1) s1) (toks @ [t]))"

definition lex :: "string \<Rightarrow> oql_error + token list" where
  "lex src =
     (if length src > MaxQueryBytes
      then Inl (errAt MaxQueryBytes (length src) ''query is longer than %d bytes'' [show_nat MaxQueryBytes])
      else if \<not> valid_utf8 src then Inl (errAt 0 0 ''query is not valid UTF-8'' [])
      else lex_loop (Suc (length src)) 0 src [])"

section \<open>Errors and tokens lie inside the query\<close>

definition err_within :: "nat \<Rightarrow> oql_error \<Rightarrow> bool" where
  "err_within n e \<longleftrightarrow> e_offset e + e_length e \<le> n"

lemma err_within_errAt [simp]: "err_within n (errAt pos end f as) \<longleftrightarrow> pos \<le> n \<and> end \<le> n"
  by (auto simp: err_within_def errAt_def)

fun scan_ok :: "nat \<Rightarrow> nat \<Rightarrow> oql_error + string \<times> nat \<Rightarrow> bool" where
  "scan_ok n i (Inl e) = err_within n e"
| "scan_ok n i (Inr (t, j)) = (i < j \<and> j \<le> n \<and> length t \<le> maxStringBytes)"

lemma scan_ok_mono: "scan_ok n i' r \<Longrightarrow> i \<le> i' \<Longrightarrow> scan_ok n i r"
  by (induction n i' r rule: scan_ok.induct) auto

lemma too_long_within [simp]: "err_within n (too_long start i) \<longleftrightarrow> start \<le> n \<and> i \<le> n"
  by (simp add: too_long_def)

lemma lex_string_scan:
  "start \<le> i \<Longrightarrow> n = i + length s \<Longrightarrow> scan_ok n i (lex_string q start n i b s)"
proof (induction q start n i b s rule: lex_string.induct)
  case (2 quote start n i b c cs)
  show ?case
  proof (cases "c = quote")
    case True
    show ?thesis
    proof (cases cs)
      case (Cons d ds)
      then show ?thesis
        using True "2.prems" "2.IH"(1) [OF True Cons] by (auto intro: scan_ok_mono)
    qed (use True "2.prems" in auto)
  next
    case False
    show ?thesis
    proof (cases "byte c = 92")
      case True
      show ?thesis
      proof (cases cs)
        case (Cons d ds)
        then show ?thesis
          using False True "2.prems" "2.IH"(2) [OF False True Cons]
          by (auto split: option.splits intro: scan_ok_mono)
      qed (use False True "2.prems" in auto)
    next
      case nb: False
      then show ?thesis
        using False "2.prems" "2.IH"(3) [OF False nb] by (auto intro: scan_ok_mono)
    qed
  qed
qed simp

text \<open>What the decoded text of a token satisfies.\<close>

definition text_ok :: "token \<Rightarrow> bool" where
  "text_ok t \<longleftrightarrow>
     (tk_kind t = tokIdent \<longrightarrow> tk_text t \<noteq> []) \<and>
     (tk_kind t = tokQuotedIdent \<longrightarrow>
        tk_text t \<noteq> [] \<and> length (tk_text t) \<le> 256 \<and> \<not> list_ex isControl (tk_text t)) \<and>
     (tk_kind t = tokString \<longrightarrow> length (tk_text t) \<le> maxStringBytes) \<and>
     (tk_kind t = tokVariable \<longrightarrow> validVariableName (tk_text t))"

fun tok_ok :: "nat \<Rightarrow> nat \<Rightarrow> oql_error + token \<Rightarrow> bool" where
  "tok_ok n i (Inl e) = err_within n e"
| "tok_ok n i (Inr t) = (tk_pos t = i \<and> i < tk_end t \<and> tk_end t \<le> n \<and> tk_kind t \<noteq> tokEOF \<and> text_ok t)"

lemma mk_token_simps [simp]:
  "tk_kind (mk_token k text i m) = k" "tk_text (mk_token k text i m) = text"
  "tk_pos (mk_token k text i m) = i" "tk_end (mk_token k text i m) = i + m"
  by (simp_all add: mk_token_def)

lemma exponent_len_le: "exponent_len s \<le> length s"
proof (cases s)
  case (Cons c r)
  have "k + length (takeWhile is_digit (drop k r)) \<le> length r" if "k \<le> length r" for k
    using that length_takeWhile_le [of is_digit "drop k r"] by simp
  then show ?thesis using Cons
    by (cases r) (auto simp: exponent_len_def Let_def length_takeWhile_le le_SucI)
qed (simp add: exponent_len_def)

lemma number_len_bounds:
  assumes "s \<noteq> []" and "is_digit (hd s) \<or> (hd s = CHR ''.'' \<and> length s > 1 \<and> is_digit (s ! 1))"
  shows "0 < number_len s \<and> number_len s \<le> length s"
proof -
  define a where "a = length (takeWhile is_digit s)"
  define f where "f = (case drop a s of c # t \<Rightarrow> if c = CHR ''.'' then 1 + length (takeWhile is_digit t) else 0 | [] \<Rightarrow> 0)"
  have n: "number_len s = a + f + exponent_len (drop (a + f) s)"
    by (simp add: number_len_def Let_def a_def f_def)
  have al: "a \<le> length s" by (simp add: a_def length_takeWhile_le)
  have fl: "f \<le> length s - a"
  proof (cases "drop a s")
    case (Cons c t)
    then have "length s - a = Suc (length t)" by (metis length_Cons length_drop)
    then show ?thesis using length_takeWhile_le [of is_digit t] Cons by (auto simp: f_def)
  qed (simp add: f_def)
  have "0 < a + f"
    using assms by (cases s) (auto simp: a_def f_def)
  then show ?thesis using n al fl exponent_len_le [of "drop (a + f) s"] by simp
qed

lemma lex_number_ok:
  assumes "s \<noteq> []" and "is_digit (hd s) \<or> (hd s = CHR ''.'' \<and> length s > 1 \<and> is_digit (s ! 1))"
  shows "tok_ok (start + length s) start (lex_number start s)"
  using number_len_bounds [OF assms]
  by (auto simp: lex_number_def Let_def text_ok_def)

lemma lex_quoted_ok: "s \<noteq> [] \<Longrightarrow> tok_ok (start + length s) start (lex_quoted start s)"
  using index_byte_Some [of "tl s" "CHR 0x60"]
  by (cases s) (auto simp: lex_quoted_def Let_def Suc_le_eq text_ok_def split: option.splits)

lemma lex_variable_ok: "tok_ok (start + length s) start (lex_variable start s)"
  using index_str_Some [of s "''}}''"]
  by (auto simp: lex_variable_def Let_def text_ok_def split: option.splits)

lemma operator_bounds: "operator s = Some (k, m) \<Longrightarrow> s \<noteq> [] \<Longrightarrow> 0 < m \<and> m \<le> length s \<and>
     k \<noteq> tokEOF \<and> k \<noteq> tokIdent \<and> k \<noteq> tokQuotedIdent \<and> k \<noteq> tokString \<and> k \<noteq> tokVariable"
  by (cases s; cases "tl s") (auto simp: operator_def Let_def split: if_splits)

lemma lex_token_ok:
  assumes "s \<noteq> []"
  shows "tok_ok (start + length s) start (lex_token start s)"
proof -
  obtain c r where s: "s = c # r" using assms by (cases s) auto
  consider "isIdentStart c" | "\<not> isIdentStart c" "is_digit c \<or> (c = CHR ''.'' \<and> length s > 1 \<and> is_digit (s ! 1))"
    | "\<not> isIdentStart c" "\<not> (is_digit c \<or> (c = CHR ''.'' \<and> length s > 1 \<and> is_digit (s ! 1)))" by blast
  then show ?thesis
  proof cases
    case 1
    then have "0 < length (takeWhile isIdentPart s)" by (simp add: s isIdentPart_def)
    then show ?thesis
      using 1 length_takeWhile_le [of isIdentPart s] by (simp add: lex_token_def s Let_def text_ok_def)
  next
    case 2
    then show ?thesis using lex_number_ok [OF assms, of start] by (simp add: lex_token_def s Let_def)
  next
    case 3
    have str: "scan_ok (start + length s) (start + 1) (lex_string c start (start + length s) (start + 1) [] r)"
      by (rule lex_string_scan) (simp_all add: s)
    have dec: "snd (decode_rune s) \<le> length s" using decode_rune_size [OF assms] by simp
    show ?thesis
      using 3 str dec lex_quoted_ok [OF assms, of start] lex_variable_ok [of start s]
        operator_bounds [of s] assms
      by (auto simp: lex_token_def s Let_def text_ok_def split: sum.splits option.splits)
  qed
qed


lemma skip_blank_le: "skip_blank c s \<le> length s"
  by (induction c s rule: skip_blank.induct) auto

text \<open>
  A token list of a query of \<open>n\<close> bytes: one end marker, last and at the end of the query; every other
  token is a non-empty byte range, and the ranges are disjoint and in order.
\<close>

definition toks_ok :: "nat \<Rightarrow> token list \<Rightarrow> bool" where
  "toks_ok n toks \<longleftrightarrow>
     (\<exists>ts. toks = ts @ [eof_token n] \<and> list_all (\<lambda>t. tk_kind t \<noteq> tokEOF \<and> tk_pos t < tk_end t \<and> tk_end t \<le> n \<and> text_ok t) ts \<and>
           sorted_wrt (\<lambda>a b. tk_end a \<le> tk_pos b) ts \<and> length ts < maxTokens)"

lemma lex_loop_ok:
  assumes "length s < fuel" and "n = i + length s" and "sorted_wrt (\<lambda>a b. tk_end a \<le> tk_pos b) toks"
    and "list_all (\<lambda>t. tk_kind t \<noteq> tokEOF \<and> tk_pos t < tk_end t \<and> tk_end t \<le> i \<and> text_ok t) toks"
  shows "case lex_loop fuel i s toks of Inl e \<Rightarrow> err_within n e | Inr ts \<Rightarrow> toks_ok n ts"
  using assms
proof (induction fuel arbitrary: i s toks)
  case (Suc fuel)
  define k where "k = skip_blank False s"
  have k: "k \<le> length s" using skip_blank_le by (simp add: k_def)
  show ?case
  proof (cases "length toks \<ge> maxTokens")
    case True
    then show ?thesis using Suc.prems k by (simp add: k_def [symmetric] Let_def)
  next
    case few: False
    show ?thesis
    proof (cases "drop k s = []")
      case True
      have "list_all (\<lambda>t. tk_kind t \<noteq> tokEOF \<and> tk_pos t < tk_end t \<and> tk_end t \<le> n \<and> text_ok t) toks"
        using Suc.prems(2,4) by (auto simp: list_all_iff)
      then show ?thesis
        using True few Suc.prems k by (simp add: k_def [symmetric] Let_def toks_ok_def)
    next
      case False
      note ok = lex_token_ok [OF False, of "i + k"]
      have n: "i + k + length (drop k s) = n" using Suc.prems(2) k by simp
      show ?thesis
      proof (cases "lex_token (i + k) (drop k s)")
        case (Inl e)
        then show ?thesis using ok n few False by (simp add: k_def [symmetric] Let_def)
      next
        case (Inr t)
        let ?s = "drop (tk_end t - (i + k)) (drop k s)"
        have t: "tk_pos t = i + k" "i + k < tk_end t" "tk_end t \<le> n" "tk_kind t \<noteq> tokEOF" "text_ok t"
          using ok n Inr by auto
        have "case lex_loop fuel (tk_end t) ?s (toks @ [t]) of Inl e \<Rightarrow> err_within n e | Inr ts \<Rightarrow> toks_ok n ts"
        proof (rule Suc.IH)
          show "length ?s < fuel" using Suc.prems(1) t(2) False by simp
          show "n = tk_end t + length ?s" using t n by simp
          show "sorted_wrt (\<lambda>a b. tk_end a \<le> tk_pos b) (toks @ [t])"
            using Suc.prems(3,4) t by (auto simp: sorted_wrt_append list_all_iff)
          show "list_all (\<lambda>t'. tk_kind t' \<noteq> tokEOF \<and> tk_pos t' < tk_end t' \<and> tk_end t' \<le> tk_end t \<and> text_ok t') (toks @ [t])"
            using Suc.prems(4) t by (auto simp: list_all_iff)
        qed
        then show ?thesis using Inr few False by (simp add: k_def [symmetric] Let_def)
      qed
    qed
  qed
qed simp

lemma lex_ok: "case lex src of Inl e \<Rightarrow> err_within (length src) e | Inr ts \<Rightarrow> toks_ok (length src) ts"
  using lex_loop_ok [of src "Suc (length src)" "length src" 0 "[]"]
  by (auto simp: lex_def MaxQueryBytes_def)

text \<open>
  C31: the lexer always ends with a token list or an error. The tokens are disjoint, in order and
  inside the query, there are at most 4000 of them and the last one is the only end marker; an error
  points inside the query.
\<close>

theorem lex_total:
  "case lex src of
     Inl e \<Rightarrow> e_offset e + e_length e \<le> length src
   | Inr toks \<Rightarrow> toks_ok (length src) toks \<and> length toks \<le> 4000"
proof -
  have "toks_ok (length src) ts \<Longrightarrow> length ts \<le> 4000" for ts
    by (auto simp: toks_ok_def maxTokens_def)
  with lex_ok [of src] show ?thesis by (auto simp: err_within_def split: sum.splits)
qed

section \<open>String literals\<close>

text \<open>The literal that denotes a text: backslashes and the quote are escaped.\<close>

fun quote_text :: "char \<Rightarrow> string \<Rightarrow> string" where
  "quote_text q [] = []"
| "quote_text q (c # cs) =
     (if byte c = 92 \<or> c = q then CHR 0x5C # c # quote_text q cs else c # quote_text q cs)"

lemma lex_string_quote_text:
  assumes "byte q = 39 \<or> byte q = 34" and "r = [] \<or> hd r \<noteq> q" and "length b + length s \<le> maxStringBytes"
  shows "lex_string q start n i b (quote_text q s @ q # r) = Inr (b @ s, i + length (quote_text q s) + 1)"
  using assms
proof (induction s arbitrary: b i)
  case Nil
  then show ?case by (cases r) auto
next
  case (Cons c cs)
  have q92: "q \<noteq> CHR 0x5C" using Cons.prems(1) by auto
  have IH: "lex_string q start n j (b @ [c]) (quote_text q cs @ q # r) =
      Inr ((b @ [c]) @ cs, j + length (quote_text q cs) + 1)" for j
    using Cons.IH [of "b @ [c]" j] Cons.prems by simp
  show ?case
  proof (cases "byte c = 92 \<or> c = q")
    case True
    then have "unescape c = Some c" using Cons.prems(1) by (auto simp: unescape_def)
    then show ?thesis using True IH q92 Cons.prems by auto
  next
    case False
    then show ?thesis using IH q92 Cons.prems by auto
  qed
qed

text \<open>
  C32: a string literal can denote every text of at most 4096 bytes: escaping backslashes and the
  quote and lexing the literal gives the text back, whatever follows it.
\<close>

theorem string_literal_roundtrip:
  assumes "q = CHR 0x27 \<or> q = CHR 0x22" and "length s \<le> 4096" and "r = [] \<or> hd r \<noteq> q"
  shows "lex_token start (q # quote_text q s @ q # r) =
           Inr \<lparr>tk_kind = tokString, tk_text = s, tk_pos = start, tk_end = start + length (quote_text q s) + 2\<rparr>"
proof -
  have "\<not> isIdentStart q" "\<not> is_digit q" "q \<noteq> CHR ''.''" "byte q = 39 \<or> byte q = 34"
    using assms(1) by (auto simp: isIdentStart_def is_lower_def is_upper_def is_digit_def)
  moreover have "lex_string q start (start + length (q # quote_text q s @ q # r)) (start + 1) [] (quote_text q s @ q # r) =
      Inr ([] @ s, start + 1 + length (quote_text q s) + 1)"
    using assms calculation by (intro lex_string_quote_text) (auto simp: maxStringBytes_def)
  ultimately show ?thesis by (auto simp: lex_token_def Let_def mk_token_def)
qed

theorem string_literal_roundtrip_witness:
  "\<exists>t. lex_token 7 (CHR 0x27 # quote_text CHR 0x27 [CHR 0x27, CHR 0x5C, CHR ''x''] @ CHR 0x27 # '' )'') = Inr t \<and>
       tk_text t = [CHR 0x27, CHR 0x5C, CHR ''x'']"
  using string_literal_roundtrip [of "CHR 0x27" "[CHR 0x27, CHR 0x5C, CHR ''x'']" "'' )''" 7] by simp

end
