(* ===== verification/QuerySelect.thy ===== *)
theory QuerySelect
  imports GoUtf8 GoTime GoFloatText "HOL-Library.AList"
begin

text \<open>
  The ClickHouse statement builder of \<^verbatim>\<open>internal/api/query/query.go\<close>: tables, tenant-bound
  scopes, the builder methods with the fragment filter \<open>forbidden\<close>, parameters and rendering. Go
  maps of parameters are association lists with distinct keys. A scope is compared by identity, which
  is the field \<open>sc_id\<close>.
\<close>

section \<open>Tables and scopes\<close>

datatype table = Table (table_name: string)

definition Hosts :: table where "Hosts = Table ''hosts''"
definition Metrics :: table where "Metrics = Table ''metrics''"
definition Metrics1m :: table where "Metrics1m = Table ''metrics_1m''"
definition Logs :: table where "Logs = Table ''logs''"
definition Spans :: table where "Spans = Table ''spans''"
definition Containers :: table where "Containers = Table ''containers''"
definition RumPageViews1m :: table where "RumPageViews1m = Table ''rum_page_views_1m''"
definition RumVitals1m :: table where "RumVitals1m = Table ''rum_vitals_1m''"
definition RumSessions :: table where "RumSessions = Table ''rum_sessions''"
definition AnalyticsEvents :: table where "AnalyticsEvents = Table ''analytics_events''"
definition DBQueryStats :: table where "DBQueryStats = Table ''db_query_stats''"
definition Profiles :: table where "Profiles = Table ''profiles''"

record scope =
  sc_id :: nat
  sc_database :: string
  sc_tenant :: string

datatype query_error =
    EmptyTenant | DifferentScope | ForbiddenToken string | FinalOnSub | BadParamName string
  | BadParamType string | BoundTwice string | NoColumns | NoTable

definition Scope :: "nat \<Rightarrow> string \<Rightarrow> string \<Rightarrow> query_error + scope" where
  "Scope i database tenantID =
     (if tenantID = [] then Inl EmptyTenant
      else Inr \<lparr>sc_id = i, sc_database = database, sc_tenant = tenantID\<rparr>)"

record select_core =
  q_scope :: scope
  q_table :: table
  q_final :: bool
  q_cols :: "string list"
  q_where :: "string list"
  q_groupBy :: "string list"
  q_having :: "string list"
  q_orderBy :: "string list"
  q_limitBy :: string
  q_limit :: int
  q_offset :: int
  q_params :: "(string \<times> string) list"
  q_err :: "query_error option"

datatype select = Select (q_core: select_core) (q_sub: "select option") (q_subs: "select list")

definition empty_core :: "scope \<Rightarrow> table \<Rightarrow> select_core" where
  "empty_core s t =
     \<lparr>q_scope = s, q_table = t, q_final = False, q_cols = [], q_where = [], q_groupBy = [], q_having = [],
      q_orderBy = [], q_limitBy = [], q_limit = 0, q_offset = 0, q_params = [], q_err = None\<rparr>"

definition upd :: "(select_core \<Rightarrow> select_core) \<Rightarrow> select \<Rightarrow> select" where
  "upd f q = Select (f (q_core q)) (q_sub q) (q_subs q)"

definition fail :: "query_error \<Rightarrow> select \<Rightarrow> select" where
  "fail e = upd (\<lambda>c. if q_err c = None then c\<lparr>q_err := Some e\<rparr> else c)"

definition From :: "scope \<Rightarrow> table \<Rightarrow> select" where
  "From s t = Select (empty_core s t) None []"

definition FromSub :: "scope \<Rightarrow> select \<Rightarrow> select" where
  "FromSub s sub =
     (let q = Select (empty_core s (Table [])) (Some sub) [] in
      if sc_id (q_scope (q_core sub)) \<noteq> sc_id s then fail DifferentScope q else q)"

section \<open>The fragment filter\<close>

text \<open>
  The regular expression \<open>forbidden\<close> over the runes of a fragment. With \<^verbatim>\<open>(?i)\<close> two non-ASCII
  runes match ASCII letters; \<^verbatim>\<open>\b\<close> is an ASCII word boundary between the rune before and the rune
  after.
\<close>

definition fold_rune :: "nat \<Rightarrow> nat" where
  "fold_rune r = (if 65 \<le> r \<and> r \<le> 90 then r + 32 else if r = 383 then 115 else if r = 8490 then 107 else r)"

definition word_rune :: "nat \<Rightarrow> bool" where
  "word_rune r \<longleftrightarrow> (48 \<le> r \<and> r \<le> 57) \<or> (65 \<le> r \<and> r \<le> 90) \<or> r = 95 \<or> (97 \<le> r \<and> r \<le> 122)"

definition word_opt :: "nat option \<Rightarrow> bool" where
  "word_opt r = (case r of None \<Rightarrow> False | Some x \<Rightarrow> word_rune x)"

definition next_rune :: "nat list \<Rightarrow> nat option" where
  "next_rune rs = (case rs of [] \<Rightarrow> None | r # _ \<Rightarrow> Some r)"

definition boundary :: "nat option \<Rightarrow> nat list \<Rightarrow> bool" where
  "boundary prev rs \<longleftrightarrow> word_opt prev \<noteq> word_opt (next_rune rs)"

text \<open>A literal at the start of the runes: the last rune it took and what follows.\<close>

fun lit_at :: "string \<Rightarrow> nat option \<Rightarrow> nat list \<Rightarrow> (nat option \<times> nat list) option" where
  "lit_at [] prev rs = Some (prev, rs)"
| "lit_at (c # cs) prev [] = None"
| "lit_at (c # cs) prev (r # rs) = (if fold_rune r = byte c then lit_at cs (Some r) rs else None)"

definition starts_lit :: "string \<Rightarrow> nat list \<Rightarrow> bool" where
  "starts_lit w rs \<longleftrightarrow> lit_at w None rs \<noteq> None"

definition whole_word :: "string \<Rightarrow> nat option \<Rightarrow> nat list \<Rightarrow> bool" where
  "whole_word w prev rs =
     (boundary prev rs \<and> (case lit_at w prev rs of None \<Rightarrow> False | Some (l, rest) \<Rightarrow> boundary l rest))"

definition is_re_space :: "nat \<Rightarrow> bool" where
  "is_re_space r \<longleftrightarrow> r = 9 \<or> r = 10 \<or> r = 12 \<or> r = 13 \<or> r = 32"

definition word_then :: "string \<Rightarrow> char \<Rightarrow> nat option \<Rightarrow> nat list \<Rightarrow> bool" where
  "word_then w c prev rs =
     (boundary prev rs \<and>
      (case lit_at w prev rs of
         None \<Rightarrow> False
       | Some (_, rest) \<Rightarrow> next_rune (dropWhile is_re_space rest) = Some (byte c)))"

definition forbidden_words :: "string list" where
  "forbidden_words =
     [''from'', ''join'', ''union'', ''into'', ''settings'', ''format'', ''select'', ''system'', ''openlog'',
      ''joinget'', ''getsetting'']"

definition forbidden_tables :: "string list" where
  "forbidden_tables =
     [''hosts'', ''metrics'', ''metrics_1m'', ''metric_exemplars'', ''logs'', ''spans'', ''trace_index'',
      ''inventory_items'', ''inventory_snapshots'', ''schema_migrations'', ''apm_transactions_1m'',
      ''apm_service_edges_1m'', ''apm_service_links_1m'', ''apm_db_queries_1m'', ''apm_errors_1m'',
      ''apm_error_groups'', ''apm_error_group_dims'', ''apm_service_versions_1m'', ''apm_agent_versions_1h'',
      ''apm_services'', ''apm_service_hosts'', ''containers'', ''apm_service_containers'', ''k8s_clusters'',
      ''k8s_nodes'', ''k8s_workloads'', ''k8s_pods'', ''alert_evaluations'', ''attribute_keys'',
      ''attribute_keys_logs'', ''attribute_keys_spans'', ''attribute_keys_metrics'', ''log_patterns_1h'',
      ''synthetic_runs'', ''rum_page_views_1m'', ''rum_vitals_1m'', ''rum_sessions'', ''db_query_stats'',
      ''db_session_samples'', ''db_query_plans'', ''profiles'']"

definition forbidden_at :: "nat option \<Rightarrow> nat list \<Rightarrow> bool" where
  "forbidden_at prev rs \<longleftrightarrow>
     starts_lit ''tenant_id'' rs \<or> starts_lit '';'' rs \<or> starts_lit ''--'' rs \<or> starts_lit ''/*'' rs \<or>
     list_ex (\<lambda>w. whole_word w prev rs) forbidden_words \<or>
     word_then ''default'' CHR ''.'' prev rs \<or>
     (boundary prev rs \<and> starts_lit ''remote'' rs) \<or>
     word_then ''cluster'' CHR ''('' prev rs \<or> word_then ''clusterallreplicas'' CHR ''('' prev rs \<or>
     (boundary prev rs \<and> starts_lit ''dictget'' rs) \<or>
     list_ex (\<lambda>w. whole_word w prev rs \<or> whole_word (w @ ''_local'') prev rs \<or> whole_word (w @ ''_mv'') prev rs)
       forbidden_tables"

fun forbidden_from :: "nat option \<Rightarrow> nat list \<Rightarrow> bool" where
  "forbidden_from prev [] = False"
| "forbidden_from prev (r # rs) = (forbidden_at prev (r # rs) \<or> forbidden_from (Some r) rs)"

definition forbidden :: "string \<Rightarrow> bool" where
  "forbidden f = forbidden_from None (runes f)"

text \<open>\<open>check\<close> records the first rejected fragment; a method keeps its fragments only if all pass.\<close>

definition add_checked :: "string list \<Rightarrow> (select_core \<Rightarrow> select_core) \<Rightarrow> select \<Rightarrow> select" where
  "add_checked frags f q =
     (case find forbidden frags of
        Some bad \<Rightarrow> fail (ForbiddenToken bad) q
      | None \<Rightarrow> upd f q)"

section \<open>Builder methods\<close>

definition Columns :: "string list \<Rightarrow> select \<Rightarrow> select" where
  "Columns cols = add_checked cols (\<lambda>c. c\<lparr>q_cols := q_cols c @ cols\<rparr>)"

definition Final :: "select \<Rightarrow> select" where
  "Final q = upd (\<lambda>c. c\<lparr>q_final := True\<rparr>) (if q_sub q \<noteq> None then fail FinalOnSub q else q)"

definition Where :: "string \<Rightarrow> select \<Rightarrow> select" where
  "Where expr = add_checked [expr] (\<lambda>c. c\<lparr>q_where := q_where c @ [expr]\<rparr>)"

definition sub_marker :: "nat \<Rightarrow> string" where
  "sub_marker i = CHR 0x00 # ''sub'' @ show_nat i @ [CHR 0x00]"

definition WhereIn :: "string \<Rightarrow> select \<Rightarrow> select \<Rightarrow> select" where
  "WhereIn expr sub q =
     (if sc_id (q_scope (q_core sub)) \<noteq> sc_id (q_scope (q_core q)) then fail DifferentScope q
      else if forbidden expr then fail (ForbiddenToken expr) q
      else Select ((q_core q)\<lparr>q_where := q_where (q_core q) @
                     [expr @ '' GLOBAL IN ('' @ sub_marker (length (q_subs q)) @ '')'']\<rparr>)
             (q_sub q) (q_subs q @ [sub]))"

definition GroupBy :: "string list \<Rightarrow> select \<Rightarrow> select" where
  "GroupBy exprs = add_checked exprs (\<lambda>c. c\<lparr>q_groupBy := q_groupBy c @ exprs\<rparr>)"

definition Having :: "string \<Rightarrow> select \<Rightarrow> select" where
  "Having expr = add_checked [expr] (\<lambda>c. c\<lparr>q_having := q_having c @ [expr]\<rparr>)"

definition OrderBy :: "string list \<Rightarrow> select \<Rightarrow> select" where
  "OrderBy exprs = add_checked exprs (\<lambda>c. c\<lparr>q_orderBy := q_orderBy c @ exprs\<rparr>)"

definition LimitBy :: "int \<Rightarrow> string list \<Rightarrow> select \<Rightarrow> select" where
  "LimitBy n exprs =
     add_checked exprs (\<lambda>c. c\<lparr>q_limitBy := show_int n @ '' BY '' @ join_with '', '' exprs\<rparr>)"

definition Limit :: "int \<Rightarrow> select \<Rightarrow> select" where
  "Limit n = upd (\<lambda>c. c\<lparr>q_limit := n\<rparr>)"

definition Offset :: "int \<Rightarrow> select \<Rightarrow> select" where
  "Offset n = upd (\<lambda>c. c\<lparr>q_offset := n\<rparr>)"

datatype param_value =
    PString string | PInt int | PUint nat | PFloat f64 | PBool bool | PTime gtime | PStrings "string list"
  | POther

definition paramName :: "string \<Rightarrow> bool" where
  "paramName s \<longleftrightarrow> s \<noteq> [] \<and> is_lower (hd s) \<and> list_all (\<lambda>c. is_lower c \<or> is_digit c \<or> c = CHR ''_'') (tl s)"

fun escape_string :: "string \<Rightarrow> string" where
  "escape_string [] = []"
| "escape_string (c # cs) =
     (if byte c = 92 \<or> byte c = 39 then CHR 0x5C # c # escape_string cs else c # escape_string cs)"

fun param_text :: "param_value \<Rightarrow> string option" where
  "param_text (PString x) = Some x"
| "param_text (PInt x) = Some (show_int x)"
| "param_text (PUint x) = Some (show_nat x)"
| "param_text (PFloat x) = Some (format_g x)"
| "param_text (PBool x) = Some (if x then ''true'' else ''false'')"
| "param_text (PTime x) = Some (show_int (to_unix_nano x))"
| "param_text (PStrings xs) =
     Some (''['' @ join_with '','' (map (\<lambda>s. CHR 0x27 # escape_string s @ [CHR 0x27]) xs) @ '']'')"
| "param_text POther = None"

definition Param :: "string \<Rightarrow> param_value \<Rightarrow> select \<Rightarrow> select" where
  "Param name v q =
     (if \<not> paramName name \<or> name = ''tenant_id'' then fail (BadParamName name) q
      else case param_text v of
        None \<Rightarrow> fail (BadParamType name) q
      | Some t \<Rightarrow>
          (let q1 = (case map_of (q_params (q_core q)) name of
                       Some old \<Rightarrow> if old \<noteq> t then fail (BoundTwice name) q else q
                     | None \<Rightarrow> q)
           in upd (\<lambda>c. c\<lparr>q_params := AList.update name t (q_params c)\<rparr>) q1))"

section \<open>Rendering\<close>

definition quoteIdent :: "string \<Rightarrow> string" where
  "quoteIdent s = CHR 0x60 # concat (map (\<lambda>c. if byte c = 96 then [c, c] else [c]) s) @ [CHR 0x60]"

definition replace_first :: "string \<Rightarrow> string \<Rightarrow> string \<Rightarrow> string" where
  "replace_first s old new =
     (case index_str s old of
        None \<Rightarrow> s
      | Some i \<Rightarrow> take i s @ new @ drop (i + length old) s)"

fun merge_params :: "(string \<times> string) list \<Rightarrow> (string \<times> string) list \<Rightarrow> query_error + (string \<times> string) list" where
  "merge_params [] ps = Inr ps"
| "merge_params ((k, v) # rest) ps =
     (case map_of ps k of
        Some old \<Rightarrow> if old \<noteq> v then Inl (BoundTwice k) else merge_params rest (AList.update k v ps)
      | None \<Rightarrow> merge_params rest (AList.update k v ps))"

definition tenant_predicate :: string where
  "tenant_predicate = ''tenant_id = {tenant_id:String}''"

definition parens :: "string \<Rightarrow> string" where
  "parens w = ''('' @ w @ '')''"

definition opt_clause :: "string \<Rightarrow> string \<Rightarrow> string list \<Rightarrow> string" where
  "opt_clause kw sep xs = (if xs = [] then [] else kw @ join_with sep xs)"

definition render_tail :: "select_core \<Rightarrow> string" where
  "render_tail c =
     opt_clause '' GROUP BY '' '', '' (q_groupBy c) @ opt_clause '' HAVING '' '' AND '' (q_having c) @
     opt_clause '' ORDER BY '' '', '' (q_orderBy c) @
     (if q_limitBy c \<noteq> [] then '' LIMIT '' @ q_limitBy c else []) @
     (if q_limit c > 0 then
        '' LIMIT '' @ show_int (q_limit c) @ (if q_offset c > 0 then '' OFFSET '' @ show_int (q_offset c) else [])
      else [])"

text \<open>
  \<open>render\<close> threads the parameter map; the conditions of a table select always start with the tenant
  predicate.
\<close>

fun render :: "select \<Rightarrow> (string \<times> string) list \<Rightarrow> query_error + string \<times> (string \<times> string) list"
and render_source :: "select_core \<Rightarrow> select option \<Rightarrow> (string \<times> string) list \<Rightarrow>
      query_error + string \<times> string list \<times> (string \<times> string) list"
and render_subs :: "nat \<Rightarrow> select list \<Rightarrow> string \<Rightarrow> (string \<times> string) list \<Rightarrow>
      query_error + string \<times> (string \<times> string) list" where
  "render (Select c sub subs) params =
     (case q_err c of
        Some e \<Rightarrow> Inl e
      | None \<Rightarrow>
          if q_cols c = [] then Inl NoColumns
          else case merge_params (q_params c) params of
            Inl e \<Rightarrow> Inl e
          | Inr ps \<Rightarrow>
              (case render_source c sub ps of
                 Inl e \<Rightarrow> Inl e
               | Inr (src, conds, ps1) \<Rightarrow>
                   (let head = ''SELECT '' @ join_with '', '' (q_cols c) @ '' FROM '' @ src in
                    if conds = [] then Inr (head @ render_tail c, ps1)
                    else case render_subs 0 subs (join_with '' AND '' (map parens conds)) ps1 of
                           Inl e \<Rightarrow> Inl e
                         | Inr (joined, ps2) \<Rightarrow> Inr (head @ '' WHERE '' @ joined @ render_tail c, ps2))))"
| "render_source c (Some sub) ps =
     (case render sub ps of
        Inl e \<Rightarrow> Inl e
      | Inr (inner, ps1) \<Rightarrow> Inr (parens inner, q_where c, ps1))"
| "render_source c None ps =
     (if table_name (q_table c) = [] then Inl NoTable
      else Inr (quoteIdent (sc_database (q_scope c)) @ ''.'' @ table_name (q_table c) @
                  (if q_final c then '' FINAL'' else []),
                tenant_predicate # q_where c, ps))"
| "render_subs i [] joined ps = Inr (joined, ps)"
| "render_subs i (s # ss) joined ps =
     (case render s ps of
        Inl e \<Rightarrow> Inl e
      | Inr (inner, ps1) \<Rightarrow> render_subs (Suc i) ss (replace_first joined (sub_marker i) inner) ps1)"

definition Build :: "select \<Rightarrow> query_error + string \<times> (string \<times> string) list" where
  "Build q =
     (case render q [] of
        Inl e \<Rightarrow> Inl e
      | Inr (sql, ps) \<Rightarrow> Inr (sql, AList.update ''tenant_id'' (sc_tenant (q_scope (q_core q))) ps))"

end
