(* ===== verification/OqlSchema.thy ===== *)
theory OqlSchema
  imports QuerySelect
begin

text \<open>
  The whitelist of OQL (\<^verbatim>\<open>internal/oql/schema.go\<close>): event types, their attributes with the fixed
  SQL expressions behind them, and the lookups by name.
\<close>

section \<open>Types\<close>

datatype attrType = TString | TNumber | TBool

fun attrType_String :: "attrType \<Rightarrow> string" where
  "attrType_String TNumber = ''number''"
| "attrType_String TBool = ''bool''"
| "attrType_String TString = ''string''"

record attrDef =
  ad_name :: string
  ad_aliases :: "string list"
  ad_typ :: attrType
  ad_sql :: string
  ad_rollup :: string
  ad_value :: bool

record eventType =
  et_name :: string
  et_desc :: string
  et_table :: table
  et_final :: bool
  et_container :: bool
  et_base :: "string list"
  et_timeCol :: string
  et_attrMap :: string
  et_resource :: string
  et_rollup :: bool
  et_maxRange :: duration
  et_attrs :: "attrDef list"

definition maxRawRange :: duration where "maxRawRange = 31 * 24 * hour"
definition maxRollupRange :: duration where "maxRollupRange = 400 * 24 * hour"
definition maxLookback :: duration where "maxLookback = 400 * 24 * hour"
definition rollupMinRange :: duration where "rollupMinRange = 6 * hour"

definition sAttr :: "string \<Rightarrow> string \<Rightarrow> string list \<Rightarrow> attrDef" where
  "sAttr name sql aliases =
     \<lparr>ad_name = name, ad_aliases = aliases, ad_typ = TString, ad_sql = sql, ad_rollup = [], ad_value = False\<rparr>"

definition nAttr :: "string \<Rightarrow> string \<Rightarrow> string list \<Rightarrow> attrDef" where
  "nAttr name sql aliases =
     \<lparr>ad_name = name, ad_aliases = aliases, ad_typ = TNumber, ad_sql = sql, ad_rollup = [], ad_value = False\<rparr>"

definition bAttr :: "string \<Rightarrow> string \<Rightarrow> string list \<Rightarrow> attrDef" where
  "bAttr name sql aliases =
     \<lparr>ad_name = name, ad_aliases = aliases, ad_typ = TBool, ad_sql = sql, ad_rollup = [], ad_value = False\<rparr>"

definition rolled :: "attrDef \<Rightarrow> string \<Rightarrow> attrDef" where
  "rolled a expr = a\<lparr>ad_rollup := expr\<rparr>"

section \<open>Event types\<close>

definition spanAttrs :: "bool \<Rightarrow> attrDef list" where
  "spanAttrs tx =
     (if tx then [sAttr ''name'' ''transaction_name'' [], sAttr ''span.name'' ''name'' []]
      else [sAttr ''name'' ''name'' []]) @
     [sAttr ''kind'' ''toString(kind)'' [],
      sAttr ''status.code'' ''toString(status_code)'' [],
      sAttr ''status.message'' ''status_message'' [],
      sAttr ''trace.id'' ''trace_id'' [],
      sAttr ''span.id'' ''span_id'' [],
      sAttr ''parent.id'' ''parent_span_id'' [],
      sAttr ''service.name'' ''service_name'' [''appName''],
      sAttr ''service.namespace'' ''service_namespace'' [],
      sAttr ''deployment.environment'' ''deployment_environment'' [],
      sAttr ''host.id'' ''host_id'' [],
      nAttr ''duration'' ''duration_ns / 1e9'' [],
      nAttr ''duration.ms'' ''duration_ns / 1e6'' [],
      sAttr ''transaction.name'' ''transaction_name'' [],
      sAttr ''transaction.type'' ''transaction_type'' [],
      bAttr ''entry'' ''is_entry'' [],
      bAttr ''error'' ''is_error'' [],
      nAttr ''http.status_code'' ''http_status_code'' [],
      sAttr ''db.system'' ''db_system'' [],
      sAttr ''db.name'' ''db_name'' [],
      sAttr ''db.operation'' ''db_operation'' [],
      sAttr ''db.statement'' ''db_statement_normalized'' [],
      sAttr ''peer.type'' ''peer_type'' [],
      sAttr ''peer.name'' ''peer_name'' [],
      sAttr ''error.type'' ''error_type'' [],
      sAttr ''error.message'' ''error_message'' [],
      nAttr ''sample.weight'' ''sample_weight'' [],
      sAttr ''scope.name'' ''scope_name'' []]"

definition etLog :: eventType where
  "etLog =
     \<lparr>et_name = ''Log'', et_desc = ''Log records (logs)'', et_table = Logs, et_final = False, et_container = False,
      et_base = [], et_timeCol = ''timestamp'', et_attrMap = ''attributes'', et_resource = ''resource_attributes'', et_rollup = False,
      et_maxRange = maxRawRange, et_attrs = 
       [sAttr ''service.name'' ''service_name'' [],
        sAttr ''host.id'' ''host_id'' [],
        sAttr ''host.name'' ''host_name'' [],
        sAttr ''severity'' ''severity_text'' [''severity.text''],
        nAttr ''severity.number'' ''severity_number'' [],
        sAttr ''message'' ''body'' [''body''],
        sAttr ''trace.id'' ''trace_id'' [],
        sAttr ''span.id'' ''span_id'' [],
        sAttr ''event.name'' ''event_name'' [],
        sAttr ''scope.name'' ''scope_name'' [],
        sAttr ''pattern.id'' (''if(pattern_id = 0, '' @ [CHR 0x27, CHR 0x27] @ '', toString(pattern_id))'') [],
        sAttr ''pattern.template'' ''pattern_template'' [''pattern'']]\<rparr>"

definition etSpan :: eventType where
  "etSpan =
     \<lparr>et_name = ''Span'', et_desc = ''Trace spans (spans)'', et_table = Spans, et_final = False, et_container = False,
      et_base = [], et_timeCol = ''timestamp'', et_attrMap = ''attributes'', et_resource = ''resource_attributes'', et_rollup = False,
      et_maxRange = maxRawRange, et_attrs = spanAttrs False\<rparr>"

definition etTransaction :: eventType where
  "etTransaction =
     \<lparr>et_name = ''Transaction'', et_desc = ''Entry spans of services (spans with is_entry)'', et_table = Spans, et_final = False, et_container = False,
      et_base = [''is_entry''], et_timeCol = ''timestamp'', et_attrMap = ''attributes'', et_resource = ''resource_attributes'', et_rollup = False,
      et_maxRange = maxRawRange, et_attrs = spanAttrs True\<rparr>"

definition etMetric :: eventType where
  "etMetric =
     \<lparr>et_name = ''Metric'', et_desc = ''Metric data points (metrics, metrics_1m rollup)'', et_table = Metrics, et_final = False, et_container = False,
      et_base = [], et_timeCol = ''timestamp'', et_attrMap = ''attributes'', et_resource = ''resource_attributes'', et_rollup = True,
      et_maxRange = maxRollupRange, et_attrs = 
       [rolled (sAttr ''metricName'' ''metric_name'' [''metric.name'']) ''metric_name'',
        rolled (sAttr ''metric.type'' ''toString(metric_type)'' []) ''toString(metric_type)'',
        rolled (sAttr ''unit'' ''unit'' []) ''unit'',
        rolled (sAttr ''service.name'' ''service_name'' []) ''service_name'',
        rolled (sAttr ''host.id'' ''host_id'' []) ''host_id'',
        sAttr ''host.name'' ''host_name'' [],
        \<lparr>ad_name = ''value'', ad_aliases = [], ad_typ = TNumber, ad_sql = ''value'', ad_rollup = [], ad_value = True\<rparr>,
        nAttr ''count'' ''toFloat64(count)'' [],
        nAttr ''sum'' ''sum'' [],
        sAttr ''scope.name'' ''scope_name'' []]\<rparr>"

definition etHost :: eventType where
  "etHost =
     \<lparr>et_name = ''Host'', et_desc = ''Hosts (hosts, by last_seen)'', et_table = Hosts, et_final = True, et_container = False,
      et_base = [], et_timeCol = ''last_seen'', et_attrMap = [], et_resource = ''resource_attributes'', et_rollup = False,
      et_maxRange = maxRawRange, et_attrs = 
       [sAttr ''host.id'' ''host_id'' [],
        sAttr ''host.name'' ''host_name'' [],
        sAttr ''os.type'' ''os_type'' [],
        sAttr ''os.description'' ''os_description'' [],
        sAttr ''arch'' ''arch'' [],
        sAttr ''agent.name'' ''agent_name'' [],
        sAttr ''agent.version'' ''agent_version'' []]\<rparr>"

definition etContainer :: eventType where
  "etContainer =
     \<lparr>et_name = ''Container'', et_desc = ''Containers (containers, by last_seen)'', et_table = Containers, et_final = False, et_container = True,
      et_base = [], et_timeCol = ''c_last_seen'', et_attrMap = ''c_attributes'', et_resource = [], et_rollup = False,
      et_maxRange = maxRawRange, et_attrs = 
       [sAttr ''container.id'' ''c_container_id'' [],
        sAttr ''container.name'' ''c_name'' [],
        sAttr ''host.id'' ''c_host_id'' [],
        sAttr ''host.name'' ''c_host_name'' [],
        sAttr ''image.name'' ''c_image_name'' [],
        sAttr ''image.tags'' ''c_image_tags'' [],
        sAttr ''runtime'' ''c_runtime'' [],
        sAttr ''compose.project'' ''c_compose_project'' [],
        sAttr ''compose.service'' ''c_compose_service'' [],
        sAttr ''k8s.pod.name'' ''c_k8s_pod_name'' [],
        sAttr ''k8s.namespace.name'' ''c_k8s_namespace_name'' [],
        sAttr ''k8s.container.name'' ''c_k8s_container_name'' [],
        sAttr ''state'' ''c_state'' [],
        sAttr ''health'' ''c_health'' [],
        nAttr ''restarts'' ''c_restarts'' []]\<rparr>"

definition etProfile :: eventType where
  "etProfile =
     \<lparr>et_name = ''Profile'', et_desc = ''Profiling samples (profiles)'', et_table = Profiles, et_final = False, et_container = False,
      et_base = [], et_timeCol = ''timestamp'', et_attrMap = ''attributes'', et_resource = ''resource_attributes'', et_rollup = False,
      et_maxRange = maxRawRange, et_attrs = 
       [sAttr ''service.name'' ''service_name'' [],
        sAttr ''service.namespace'' ''service_namespace'' [],
        sAttr ''deployment.environment'' ''deployment_environment'' [],
        sAttr ''host.id'' ''host_id'' [],
        sAttr ''profile.type'' ''profile_type'' [],
        sAttr ''unit'' ''unit'' [],
        sAttr ''function'' ''leaf'' [''leaf''],
        sAttr ''stack'' (''arrayStringConcat(stack, '' @ [CHR 0x27] @ '';'' @ [CHR 0x27] @ '')'') [],
        nAttr ''stack.depth'' ''length(stack)'' [],
        nAttr ''value'' ''value'' [],
        nAttr ''profile.duration'' ''duration_ns / 1e9'' []]\<rparr>"

definition etRumPageView :: eventType where
  "etRumPageView =
     \<lparr>et_name = ''RumPageView'', et_desc = ''Browser page views per minute (rum_page_views_1m)'', et_table = RumPageViews1m, et_final = False, et_container = False,
      et_base = [], et_timeCol = ''timestamp'', et_attrMap = [], et_resource = [], et_rollup = False,
      et_maxRange = maxRawRange, et_attrs = 
       [sAttr ''app'' ''app'' [],
        sAttr ''deployment.environment'' ''deployment_environment'' [],
        sAttr ''route'' ''route'' [],
        sAttr ''page.kind'' ''page_view_kind'' [],
        sAttr ''device.type'' ''device_type'' [],
        sAttr ''browser.name'' ''browser_name'' [],
        nAttr ''views'' ''views'' [],
        nAttr ''samples'' ''toFloat64(samples)'' [],
        nAttr ''duration.sum.ms'' ''duration_sum_ms'' [],
        nAttr ''duration.max.ms'' ''duration_max_ms'' [],
        nAttr ''ttfb.sum.ms'' ''ttfb_sum_ms'' [],
        nAttr ''dns.sum.ms'' ''dns_sum_ms'' [],
        nAttr ''connect.sum.ms'' ''connect_sum_ms'' [],
        nAttr ''tls.sum.ms'' ''tls_sum_ms'' [],
        nAttr ''response.sum.ms'' ''response_sum_ms'' [],
        nAttr ''dom.interactive.sum.ms'' ''dom_interactive_sum_ms'' [],
        nAttr ''dom.content_loaded.sum.ms'' ''dom_content_loaded_sum_ms'' [],
        nAttr ''load.event.sum.ms'' ''load_event_sum_ms'' []]\<rparr>"

definition etRumVital :: eventType where
  "etRumVital =
     \<lparr>et_name = ''RumVital'', et_desc = ''Core Web Vitals per minute (rum_vitals_1m)'', et_table = RumVitals1m, et_final = False, et_container = False,
      et_base = [], et_timeCol = ''timestamp'', et_attrMap = [], et_resource = [], et_rollup = False,
      et_maxRange = maxRawRange, et_attrs = 
       [sAttr ''app'' ''app'' [],
        sAttr ''deployment.environment'' ''deployment_environment'' [],
        sAttr ''vital'' ''vital'' [],
        sAttr ''route'' ''route'' [],
        sAttr ''device.type'' ''device_type'' [],
        nAttr ''count'' ''count'' [],
        nAttr ''samples'' ''toFloat64(samples)'' [],
        nAttr ''value.sum'' ''value_sum'' [],
        nAttr ''value.max'' ''value_max'' [],
        nAttr ''good'' ''good'' [],
        nAttr ''needs_improvement'' ''needs_improvement'' [],
        nAttr ''poor'' ''poor'' []]\<rparr>"

definition etRumSession :: eventType where
  "etRumSession =
     \<lparr>et_name = ''RumSession'', et_desc = ''Browser sessions (rum_sessions, by last_seen)'', et_table = RumSessions, et_final = False, et_container = False,
      et_base = [], et_timeCol = ''last_seen'', et_attrMap = [], et_resource = [], et_rollup = False,
      et_maxRange = maxRawRange, et_attrs = 
       [sAttr ''app'' ''app'' [],
        sAttr ''deployment.environment'' ''deployment_environment'' [],
        sAttr ''session.id'' ''session_id'' [],
        nAttr ''page.views'' ''page_views'' [],
        nAttr ''errors'' ''errors'' [],
        nAttr ''spans'' ''toFloat64(spans)'' [],
        sAttr ''device.type'' ''device_type'' [],
        sAttr ''browser.name'' ''browser_name'' [],
        sAttr ''browser.version'' ''browser_version'' [],
        sAttr ''os.name'' ''os_name'' []]\<rparr>"

definition etAnalyticsEvent :: eventType where
  "etAnalyticsEvent =
     \<lparr>et_name = ''AnalyticsEvent'', et_desc = ''Page views and custom events, 90 days (analytics_events)'', et_table = AnalyticsEvents, et_final = False, et_container = False,
      et_base = [], et_timeCol = ''timestamp'', et_attrMap = [], et_resource = [], et_rollup = False,
      et_maxRange = maxRawRange, et_attrs = 
       [sAttr ''app'' ''app'' [],
        sAttr ''deployment.environment'' ''deployment_environment'' [],
        sAttr ''kind'' ''kind'' [],
        sAttr ''name'' ''name'' [],
        sAttr ''route'' ''route'' [],
        sAttr ''session.id'' ''session_id'' [],
        sAttr ''version'' ''version'' [],
        sAttr ''country'' ''country'' [],
        sAttr ''device.type'' ''device_type'' [],
        sAttr ''os.name'' ''os_name'' [],
        sAttr ''browser.name'' ''browser_name'' [],
        sAttr ''referrer.host'' ''referrer_host'' [],
        sAttr ''utm.source'' ''utm_source'' [],
        sAttr ''utm.medium'' ''utm_medium'' [],
        sAttr ''utm.campaign'' ''utm_campaign'' [],
        nAttr ''weight'' ''weight'' []]\<rparr>"

definition etDbQuery :: eventType where
  "etDbQuery =
     \<lparr>et_name = ''DbQuery'', et_desc = ''Database statement statistics per interval (db_query_stats)'', et_table = DBQueryStats, et_final = False, et_container = False,
      et_base = [], et_timeCol = ''timestamp'', et_attrMap = [], et_resource = [], et_rollup = False,
      et_maxRange = maxRawRange, et_attrs = 
       [sAttr ''db.system'' ''db_system'' [],
        sAttr ''instance'' ''instance'' [],
        sAttr ''db.name'' ''db_name'' [],
        sAttr ''db.user'' ''db_user'' [],
        sAttr ''host.id'' ''host_id'' [],
        sAttr ''host.name'' ''host_name'' [],
        sAttr ''server.address'' ''server_address'' [],
        nAttr ''server.port'' ''server_port'' [],
        sAttr ''query.id'' ''query_id'' [],
        sAttr ''query.text'' ''query_text'' [],
        sAttr ''fingerprint'' ''toString(fingerprint)'' [],
        nAttr ''calls'' ''toFloat64(calls)'' [],
        nAttr ''total_time.ms'' ''total_time_ms'' [],
        nAttr ''rows'' ''toFloat64(rows)'' [],
        nAttr ''rows_examined'' ''toFloat64(rows_examined)'' [],
        nAttr ''errors'' ''toFloat64(errors)'' [],
        nAttr ''no_index_used'' ''toFloat64(no_index_used)'' [],
        nAttr ''blocks.hit'' ''toFloat64(blocks_hit)'' [],
        nAttr ''blocks.read'' ''toFloat64(blocks_read)'' [],
        nAttr ''interval.seconds'' ''interval_seconds'' []]\<rparr>"

definition eventTypes :: "eventType list" where
  "eventTypes =
     [etLog, etSpan, etTransaction, etMetric, etHost, etContainer, etProfile, etRumPageView, etRumVital, etRumSession, etAnalyticsEvent, etDbQuery]"

definition containerColumns :: "string list" where
  "containerColumns =
     [''host_id AS c_host_id'',
      ''container_id AS c_container_id'',
      ''min(first_seen) AS c_first_seen'',
      ''max(last_seen) AS c_last_seen'',
      ''argMaxMerge(host_name) AS c_host_name'',
      ''argMaxMerge(name) AS c_name'',
      ''argMaxMerge(image_name) AS c_image_name'',
      ''argMaxMerge(image_tags) AS c_image_tags'',
      ''argMaxMerge(runtime) AS c_runtime'',
      ''argMaxMerge(compose_project) AS c_compose_project'',
      ''argMaxMerge(compose_service) AS c_compose_service'',
      ''argMaxMerge(k8s_pod_name) AS c_k8s_pod_name'',
      ''argMaxMerge(k8s_namespace_name) AS c_k8s_namespace_name'',
      ''argMaxMerge(k8s_container_name) AS c_k8s_container_name'',
      ''argMaxMerge(state) AS c_state'',
      ''argMaxMerge(health) AS c_health'',
      ''argMaxMerge(restarts) AS c_restarts'',
      ''argMaxMerge(attributes) AS c_attributes'']"

section \<open>Lookups\<close>

text \<open>
  \<open>byName\<close> is the map \<open>init\<close> fills in order, so a later entry wins; \<open>lookupEventType\<close> looks a
  lower-cased name up.
\<close>

definition name_entries :: "eventType \<Rightarrow> (string \<times> attrDef) list" where
  "name_entries et = concat (map (\<lambda>a. (ad_name a, a) # map (\<lambda>al. (al, a)) (ad_aliases a)) (et_attrs et))"

definition byName :: "eventType \<Rightarrow> string \<Rightarrow> attrDef option" where
  "byName et name = map_of (rev (name_entries et)) name"

definition eventTypeByLower :: "string \<Rightarrow> eventType option" where
  "eventTypeByLower k = map_of (rev (map (\<lambda>et. (to_lower (et_name et), et)) eventTypes)) k"

definition lookupEventType :: "string \<Rightarrow> eventType option" where
  "lookupEventType name = eventTypeByLower (lower_utf8 name)"

lemma et_names [simp]:
  "et_name etLog = ''Log''" "et_name etSpan = ''Span''" "et_name etTransaction = ''Transaction''"
  "et_name etMetric = ''Metric''" "et_name etHost = ''Host''" "et_name etContainer = ''Container''"
  "et_name etProfile = ''Profile''" "et_name etRumPageView = ''RumPageView''" "et_name etRumVital = ''RumVital''"
  "et_name etRumSession = ''RumSession''" "et_name etAnalyticsEvent = ''AnalyticsEvent''" "et_name etDbQuery = ''DbQuery''"
  by (simp_all add: etLog_def etSpan_def etTransaction_def etMetric_def etHost_def etContainer_def etProfile_def
      etRumPageView_def etRumVital_def etRumSession_def etAnalyticsEvent_def etDbQuery_def)

text \<open>The names of the table as the lookups fold them.\<close>

lemma event_lowers:
  "map (\<lambda>et. to_lower (et_name et)) eventTypes =
     [''log'', ''span'', ''transaction'', ''metric'', ''host'', ''container'', ''profile'', ''rumpageview'', ''rumvital'',
      ''rumsession'', ''analyticsevent'', ''dbquery'']"
proof -
  have "map (\<lambda>et. to_lower (et_name et)) eventTypes =
      map to_lower [''Log'', ''Span'', ''Transaction'', ''Metric'', ''Host'', ''Container'', ''Profile'', ''RumPageView'',
        ''RumVital'', ''RumSession'', ''AnalyticsEvent'', ''DbQuery'']"
    by (simp add: eventTypes_def)
  also have "\<dots> = [''log'', ''span'', ''transaction'', ''metric'', ''host'', ''container'', ''profile'', ''rumpageview'',
      ''rumvital'', ''rumsession'', ''analyticsevent'', ''dbquery'']"
    by code_simp
  finally show ?thesis .
qed

lemma ascii_lower_utf8:
  "list_all (\<lambda>c. byte c < 128) s \<Longrightarrow> lower_utf8 s = to_lower s"
proof -
  have "list_all (\<lambda>c. byte c < 128) s \<Longrightarrow> length s \<le> n \<Longrightarrow> lower_utf8_fuel n s = map lower_char s" for n
  proof (induction n arbitrary: s)
    case (Suc n)
    then show ?case by (cases s) (auto simp: decode_rune_def rune_len_def Let_def)
  qed simp
  then show "list_all (\<lambda>c. byte c < 128) s \<Longrightarrow> lower_utf8 s = to_lower s"
    by (simp add: lower_utf8_def to_lower_def)
qed

lemma lookupEventType_in: "lookupEventType s = Some et \<Longrightarrow> et \<in> set eventTypes"
  by (auto simp: lookupEventType_def eventTypeByLower_def dest!: map_of_SomeD)

text \<open>Looking up the canonical name of an event type finds it again.\<close>

lemma lookupEventType_name:
  assumes "et \<in> set eventTypes"
  shows "lookupEventType (et_name et) = Some et"
proof -
  have "\<forall>e \<in> set eventTypes. list_all (\<lambda>c. byte c < 128) (et_name e)"
    by (simp add: eventTypes_def)
  then have "lower_utf8 (et_name et) = to_lower (et_name et)"
    using assms by (simp add: ascii_lower_utf8)
  moreover have "map_of (rev (map (\<lambda>et. (to_lower (et_name et), et)) eventTypes)) (to_lower (et_name et)) = Some et"
  proof (rule map_of_is_SomeI)
    have "distinct (map (\<lambda>et. to_lower (et_name et)) eventTypes)" unfolding event_lowers by simp
    then show "distinct (map fst (rev (map (\<lambda>et. (to_lower (et_name et), et)) eventTypes)))"
      by (simp add: rev_map [symmetric] comp_def)
    show "(to_lower (et_name et), et) \<in> set (rev (map (\<lambda>et. (to_lower (et_name et), et)) eventTypes))"
      using assms by auto
  qed
  ultimately show ?thesis by (simp add: lookupEventType_def eventTypeByLower_def)
qed

section \<open>Schema for editors\<close>

record schemaAttribute =
  sa_name :: string
  sa_type :: string
  sa_aliases :: "string list"
  sa_rollup :: bool

record schemaEventType =
  se_name :: string
  se_desc :: string
  se_attributes :: "schemaAttribute list"
  se_maps :: "string list"
  se_maxRangeSeconds :: int

definition EventTypeNames :: "string list" where
  "EventTypeNames = map et_name eventTypes"

definition schema_of :: "eventType \<Rightarrow> schemaEventType" where
  "schema_of et =
     \<lparr>se_name = et_name et, se_desc = et_desc et,
      se_attributes = map (\<lambda>a. \<lparr>sa_name = ad_name a, sa_type = attrType_String (ad_typ a),
        sa_aliases = ad_aliases a, sa_rollup = (ad_rollup a \<noteq> [] \<or> ad_value a)\<rparr>) (et_attrs et),
      se_maps = (if et_attrMap et \<noteq> [] then [''attributes''] else []) @
                (if et_resource et \<noteq> [] then [''resource''] else []),
      se_maxRangeSeconds = et_maxRange et div second\<rparr>"

definition EventTypes :: "schemaEventType list" where
  "EventTypes = map schema_of eventTypes"

end
