(* ===== verification/OqlAst.thy ===== *)
theory OqlAst
  imports OqlLexer OqlSchema
begin

text \<open>
  The syntax tree of OQL (\<^verbatim>\<open>internal/oql/ast.go\<close>) and the attribute a reference resolves to
  (\<^verbatim>\<open>resolved\<close> of \<^verbatim>\<open>plan.go\<close>), which compilation stores in the tree.
\<close>

record span =
  sp_pos :: nat
  sp_end :: nat

definition mk_span :: "nat \<Rightarrow> nat \<Rightarrow> span" where
  "mk_span a b = \<lparr>sp_pos = a, sp_end = b\<rparr>"

definition zero_span :: span where
  "zero_span = mk_span 0 0"

definition span_err :: "span \<Rightarrow> string \<Rightarrow> string list \<Rightarrow> oql_error" where
  "span_err s format args = errAt (sp_pos s) (sp_end s) format args"

lemma mk_span_simps [simp]: "sp_pos (mk_span a b) = a" "sp_end (mk_span a b) = b"
  by (simp_all add: mk_span_def)

record resolved =
  r_def :: "attrDef option"
  r_mapKind :: string
  r_key :: string
  r_implicit :: bool

record attr =
  at_name :: string
  at_map :: string
  at_key :: string
  at_quoted :: bool
  at_span :: span
  at_res :: "resolved option"

definition attr_String :: "attr \<Rightarrow> string" where
  "attr_String a =
     (if at_name a \<noteq> [] then
        (if at_quoted a then [CHR 0x60] @ at_name a @ [CHR 0x60] else at_name a)
      else if at_map a \<noteq> [] then at_map a @ [CHR ''['', CHR 0x27] @ at_key a @ [CHR 0x27, CHR '']'']
      else [])"

datatype valueKind = ValString | ValNumber | ValBool | ValVariable

record oql_value =
  v_kind :: valueKind
  v_str :: string
  v_num :: f64
  v_bool :: bool
  v_var :: string
  v_span :: span

definition zero_value :: oql_value where
  "zero_value = \<lparr>v_kind = ValString, v_str = [], v_num = FNum False 0, v_bool = False, v_var = [], v_span = zero_span\<rparr>"

datatype expr =
    Logical string expr expr
  | Not expr span
  | Predicate attr string "oql_value list" span

fun exprSpan :: "expr \<Rightarrow> span" where
  "exprSpan (Logical op l r) = mk_span (sp_pos (exprSpan l)) (sp_end (exprSpan r))"
| "exprSpan (Not x s) = s"
| "exprSpan (Predicate a op vs s) = s"

record durationLit =
  dl_d :: duration
  dl_span :: span

datatype timeKind = TimeAgo | TimeAbsolute | TimeNow

record timeSpec =
  ts_kind :: timeKind
  ts_ago :: duration
  ts_at :: gtime
  ts_span :: span

record timeseriesClause =
  tc_auto :: bool
  tc_bucket :: duration
  tc_span :: span

record limitClause =
  lc_n :: int
  lc_max :: bool
  lc_span :: span

datatype agg =
  Agg (ag_func: string) (ag_name: string) (ag_star: bool) (ag_arg: "attr option") (ag_inner: "agg option")
    (ag_levels: "f64 list") (ag_per: "durationLit option") (ag_cond: "expr option") (ag_ceiling: f64)
    (ag_buckets: int) (ag_span: span) (ag_argsText: string)

record selectItem =
  si_agg :: agg
  si_alias :: string
  si_span :: span

record oql_query =
  qu_select :: "selectItem list"
  qu_eventType :: string
  qu_eventSpan :: span
  qu_where :: "expr option"
  qu_facets :: "attr list"
  qu_since :: "timeSpec option"
  qu_until :: "timeSpec option"
  qu_timeseries :: "timeseriesClause option"
  qu_limit :: "limitClause option"
  qu_compare :: "durationLit option"

end
