(* ===== verification/OqlParser.thy ===== *)
theory OqlParser
  imports OqlAst
begin

text \<open>
  The recursive-descent parser of OQL (\<^verbatim>\<open>internal/oql/parser.go\<close>). A parse function takes the
  parser state and gives an error or a result with the next state; \<open>p_bind\<close> sequences them as the Go
  code does with its \<^verbatim>\<open>if err != nil\<close> returns. Loops and the recursion through nested conditions and
  aggregates carry fuel; running out of it is the separate result \<open>OutOfFuel\<close>, which \<open>Parse\<close> never
  gives.
\<close>

section \<open>Parser state\<close>

definition maxSelectItems :: nat where "maxSelectItems = 20"
definition maxFacets :: nat where "maxFacets = 5"
definition maxInValues :: nat where "maxInValues = 500"
definition maxPredicates :: nat where "maxPredicates = 100"
definition maxAliasBytes :: nat where "maxAliasBytes = 128"
definition maxMapKeyBytes :: nat where "maxMapKeyBytes = 256"

definition reserved :: "string \<Rightarrow> bool" where
  "reserved s \<longleftrightarrow>
     s \<in> {''select'', ''from'', ''where'', ''facet'', ''since'', ''until'', ''timeseries'', ''limit'', ''compare'',
          ''with'', ''as'', ''and'', ''or'', ''not'', ''in'', ''like'', ''is'', ''null''}"

definition funcNames :: "string \<Rightarrow> string option" where
  "funcNames s =
     (if s = ''avg'' then Some ''average''
      else if s \<in> {''count'', ''sum'', ''average'', ''min'', ''max'', ''uniquecount'', ''percentile'', ''median'',
                    ''latest'', ''earliest'', ''rate'', ''filter'', ''histogram''} then Some s
      else None)"

record parser =
  ps_src :: string
  ps_toks :: "token list"
  ps_i :: nat
  ps_depth :: nat
  ps_preds :: nat

datatype perr = Syntax oql_error | OutOfFuel

type_synonym 'a parse = "parser \<Rightarrow> perr + 'a \<times> parser"

definition p_ret :: "'a \<Rightarrow> 'a parse" where
  "p_ret x p = Inr (x, p)"

definition p_fail :: "oql_error \<Rightarrow> 'a parse" where
  "p_fail e p = Inl (Syntax e)"

definition p_bind :: "'a parse \<Rightarrow> ('a \<Rightarrow> 'b parse) \<Rightarrow> 'b parse" where
  "p_bind f g p = (case f p of Inl e \<Rightarrow> Inl e | Inr (x, p') \<Rightarrow> g x p')"

definition peek :: "token parse" where
  "peek p = Inr (ps_toks p ! ps_i p, p)"

definition peekAt :: "nat \<Rightarrow> token parse" where
  "peekAt n p =
     Inr (if ps_i p + n < length (ps_toks p) then ps_toks p ! (ps_i p + n) else last (ps_toks p), p)"

definition next_tok :: "token parse" where
  "next_tok p =
     (let t = ps_toks p ! ps_i p in
      Inr (t, if tk_kind t \<noteq> tokEOF then p\<lparr>ps_i := ps_i p + 1\<rparr> else p))"

definition isKeyword :: "token \<Rightarrow> string \<Rightarrow> bool" where
  "isKeyword t kw \<longleftrightarrow> tk_kind t = tokIdent \<and> to_lower (tk_text t) = to_lower kw"

definition accept :: "tokenKind \<Rightarrow> token option parse" where
  "accept k = p_bind peek (\<lambda>t. if tk_kind t = k then p_bind next_tok (\<lambda>t. p_ret (Some t)) else p_ret None)"

definition acceptKeyword :: "string \<Rightarrow> token option parse" where
  "acceptKeyword kw =
     p_bind peek (\<lambda>t. if isKeyword t kw then p_bind next_tok (\<lambda>t. p_ret (Some t)) else p_ret None)"

definition unexpected :: "token \<Rightarrow> string \<Rightarrow> oql_error" where
  "unexpected t want = errAt (tk_pos t) (tk_end t) ''expected %s, found %s'' [want, describe t]"

definition expect :: "tokenKind \<Rightarrow> token parse" where
  "expect k =
     p_bind next_tok (\<lambda>t. if tk_kind t \<noteq> k then p_fail (unexpected t (tokenNames k)) else p_ret t)"

definition expectKeyword :: "string \<Rightarrow> token parse" where
  "expectKeyword kw = p_bind next_tok (\<lambda>t. if \<not> isKeyword t kw then p_fail (unexpected t kw) else p_ret t)"

text \<open>\<open>enter\<close> with the deferred \<^verbatim>\<open>p.depth--\<close>: one more nesting level around \<open>f\<close>.\<close>

definition nested :: "token \<Rightarrow> 'a parse \<Rightarrow> 'a parse" where
  "nested t f p =
     (if ps_depth p + 1 > maxDepth
      then Inl (Syntax (errAt (tk_pos t) (tk_end t) ''query is nested more than %d levels deep'' [show_nat maxDepth]))
      else case f (p\<lparr>ps_depth := ps_depth p + 1\<rparr>) of
             Inl e \<Rightarrow> Inl e
           | Inr (x, p') \<Rightarrow> Inr (x, p'\<lparr>ps_depth := ps_depth p' - 1\<rparr>))"

text \<open>
  The comma-separated lists of the grammar: parse an element, report it when the limit is reached
  already, and go on after a comma.
\<close>

fun comma_loop :: "nat \<Rightarrow> nat option \<Rightarrow> ('a \<Rightarrow> oql_error) \<Rightarrow> 'a parse \<Rightarrow> 'a list \<Rightarrow> 'a list parse" where
  "comma_loop 0 cap over elem acc = (\<lambda>p. Inl OutOfFuel)"
| "comma_loop (Suc f) cap over elem acc =
     p_bind elem (\<lambda>x.
       if cap = Some (length acc) then p_fail (over x)
       else p_bind (accept tokComma) (\<lambda>c.
         if c = None then p_ret (acc @ [x]) else comma_loop f cap over elem (acc @ [x])))"

definition comma_list :: "nat option \<Rightarrow> ('a \<Rightarrow> oql_error) \<Rightarrow> 'a parse \<Rightarrow> 'a list parse" where
  "comma_list cap over elem p = comma_loop (Suc (length (ps_toks p))) cap over elem [] p"

section \<open>Attributes, numbers and values\<close>

definition checkMapKey :: "string \<Rightarrow> span \<Rightarrow> oql_error option" where
  "checkMapKey k sp =
     (if k = [] \<or> length k > maxMapKeyBytes \<or> list_ex isControl k
      then Some (span_err sp ''attribute key must be 1-%d bytes without control characters'' [show_nat maxMapKeyBytes])
      else None)"

definition mk_attr :: "string \<Rightarrow> string \<Rightarrow> string \<Rightarrow> bool \<Rightarrow> span \<Rightarrow> attr" where
  "mk_attr name m key quoted sp =
     \<lparr>at_name = name, at_map = m, at_key = key, at_quoted = quoted, at_span = sp, at_res = None\<rparr>"

definition tok_span :: "token \<Rightarrow> span" where
  "tok_span t = mk_span (tk_pos t) (tk_end t)"

text \<open>The part of \<open>attr\<close> for a bare identifier without an index.\<close>

definition plain_attr :: "token \<Rightarrow> attr parse" where
  "plain_attr t =
     (if has_suffix (tk_text t) ''.'' \<or> str_contains (tk_text t) ''..''
      then p_fail (errAt (tk_pos t) (tk_end t) ''invalid attribute name %q'' [truncate_str (tk_text t) 64])
      else if has_prefix (tk_text t) ''resource.'' then
        (let key = trim_prefix (tk_text t) ''resource.'' in
         case checkMapKey key (tok_span t) of
           Some e \<Rightarrow> p_fail e
         | None \<Rightarrow> p_ret (mk_attr [] ''resource'' key False (tok_span t)))
      else if length (tk_text t) > maxMapKeyBytes
      then p_fail (errAt (tk_pos t) (tk_end t) ''attribute name is longer than %d bytes'' [show_nat maxMapKeyBytes])
      else p_ret (mk_attr (tk_text t) [] [] False (tok_span t)))"

definition indexed_attr :: "token \<Rightarrow> attr parse" where
  "indexed_attr t =
     p_bind (expect tokString) (\<lambda>k.
     p_bind (expect tokRBracket) (\<lambda>rb.
       case checkMapKey (tk_text k) (tok_span k) of
         Some e \<Rightarrow> p_fail e
       | None \<Rightarrow>
           p_ret (mk_attr [] (if tk_text t \<noteq> ''attributes'' then ''resource'' else ''attributes'') (tk_text k) False
                    (mk_span (tk_pos t) (tk_end rb)))))"

definition parse_attr :: "attr parse" where
  "parse_attr =
     p_bind next_tok (\<lambda>t.
       if tk_kind t = tokQuotedIdent then p_ret (mk_attr (tk_text t) [] [] True (tok_span t))
       else if tk_kind t \<noteq> tokIdent then p_fail (unexpected t ''an attribute'')
       else if reserved (to_lower (tk_text t))
       then p_fail (errAt (tk_pos t) (tk_end t)
              ''expected an attribute, found keyword %s (quote attribute names that are keywords with backticks)''
              [to_upper (tk_text t)])
       else if tk_text t \<in> {''attributes'', ''resource'', ''resource_attributes''}
       then p_bind (accept tokLBracket) (\<lambda>lb. if lb \<noteq> None then indexed_attr t else plain_attr t)
       else plain_attr t)"

definition number_of :: "nat \<Rightarrow> bool \<Rightarrow> token \<Rightarrow> (f64 \<times> span) parse" where
  "number_of start neg t =
     (if tk_kind t \<noteq> tokNumber then p_fail (unexpected t ''a number'')
      else case ParseFloat (tk_text t) of
        None \<Rightarrow> p_fail (errAt start (tk_end t) ''invalid number'' [])
      | Some v \<Rightarrow>
          if is_inf v \<or> is_nan v then p_fail (errAt start (tk_end t) ''invalid number'' [])
          else p_ret (if neg then f_neg v else v, mk_span start (tk_end t)))"

definition parse_number :: "(f64 \<times> span) parse" where
  "parse_number =
     p_bind next_tok (\<lambda>t.
       if tk_kind t = tokMinus then p_bind next_tok (number_of (tk_pos t) True)
       else number_of (tk_pos t) False t)"

definition parse_value :: "oql_value parse" where
  "parse_value =
     p_bind peek (\<lambda>t.
       if tk_kind t = tokString then
         p_bind next_tok (\<lambda>_. p_ret (zero_value\<lparr>v_kind := ValString, v_str := tk_text t, v_span := tok_span t\<rparr>))
       else if tk_kind t = tokNumber \<or> tk_kind t = tokMinus then
         p_bind parse_number (\<lambda>(v, sp).
           p_ret (zero_value\<lparr>v_kind := ValNumber, v_num := v, v_str := format_f v, v_span := sp\<rparr>))
       else if isKeyword t ''TRUE'' \<or> isKeyword t ''FALSE'' then
         p_bind next_tok (\<lambda>_.
           (let b = (to_lower (tk_text t) = ''true'') in
            p_ret (zero_value\<lparr>v_kind := ValBool, v_bool := b, v_str := (if b then ''true'' else ''false''),
                              v_span := tok_span t\<rparr>)))
       else if tk_kind t = tokVariable then
         p_bind next_tok (\<lambda>_. p_ret (zero_value\<lparr>v_kind := ValVariable, v_var := tk_text t, v_span := tok_span t\<rparr>))
       else p_bind next_tok (\<lambda>_. p_fail (unexpected t ''a value (string, number, true, false or {{variable}})'')))"

section \<open>Durations and clauses\<close>

definition ten_years :: duration where
  "ten_years = 10 * 365 * 24 * hour"

definition parse_duration :: "durationLit parse" where
  "parse_duration =
     p_bind parse_number (\<lambda>(n, sp).
     p_bind next_tok (\<lambda>u.
       case durationUnits (to_lower (tk_text u)) of
         None \<Rightarrow> p_fail (unexpected u ''a time unit (seconds, minutes, hours, days or weeks)'')
       | Some unit \<Rightarrow>
           if tk_kind u \<noteq> tokIdent
           then p_fail (unexpected u ''a time unit (seconds, minutes, hours, days or weeks)'')
           else (let sp' = mk_span (sp_pos sp) (tk_end u); d = f_mul n (f_of_int unit) in
                 if f_le n (f_of_int 0) \<or> f_gt d (f_of_int ten_years) \<or> f_lt d (f_of_int second)
                 then p_fail (span_err sp' ''duration must be between 1 second and 10 years'' [])
                 else p_ret \<lparr>dl_d = f_to_int d, dl_span = sp'\<rparr>)))"

definition dateLayouts :: "layout list" where
  "dateLayouts =
     [RFC3339Nano,
      [([], CYear), (''-'', CMonth), (''-'', CDay), ('' '', CHour), ('':'', CMin), ('':'', CSec)],
      [([], CYear), (''-'', CMonth), (''-'', CDay), (''T'', CHour), ('':'', CMin), ('':'', CSec)],
      [([], CYear), (''-'', CMonth), (''-'', CDay), ('' '', CHour), ('':'', CMin)],
      [([], CYear), (''-'', CMonth), (''-'', CDay)]]"

fun parse_date :: "layout list \<Rightarrow> string \<Rightarrow> gtime option" where
  "parse_date [] s = None"
| "parse_date (l # ls) s = (case time_parse l s of Some t \<Rightarrow> Some t | None \<Rightarrow> parse_date ls s)"

definition mk_time :: "timeKind \<Rightarrow> duration \<Rightarrow> gtime \<Rightarrow> span \<Rightarrow> timeSpec" where
  "mk_time k ago inst sp = \<lparr>ts_kind = k, ts_ago = ago, ts_at = inst, ts_span = sp\<rparr>"

definition bad_unix_time :: string where
  "bad_unix_time = ''expected unix milliseconds or '' @ [CHR 0x27] @ ''<n> <unit> AGO'' @ [CHR 0x27]"

definition unix_time :: "token \<Rightarrow> timeSpec parse" where
  "unix_time t =
     p_bind next_tok (\<lambda>_.
       case parse_int64 (tk_text t) of
         None \<Rightarrow> p_fail (errAt (tk_pos t) (tk_end t) bad_unix_time [])
       | Some ms \<Rightarrow>
           if ms < 0 \<or> ms > 10 ^ 15
           then p_fail (errAt (tk_pos t) (tk_end t) bad_unix_time [])
           else p_ret (mk_time TimeAbsolute 0 (unix_milli ms) (tok_span t)))"

definition bad_time :: string where
  "bad_time = ''invalid time %q (use RFC3339 or '' @ [CHR 0x27] @ ''YYYY-MM-DD HH:MM:SS'' @ [CHR 0x27] @ '' in UTC)''"

definition time_wanted :: string where
  "time_wanted = ''a time ('' @ [CHR 0x27] @ ''<n> <unit> AGO'' @ [CHR 0x27] @ '', a date string, unix milliseconds or NOW)''"

definition parse_timeSpec :: "timeSpec parse" where
  "parse_timeSpec =
     p_bind peek (\<lambda>t.
       if isKeyword t ''NOW'' then p_bind next_tok (\<lambda>_. p_ret (mk_time TimeNow 0 zero_time (tok_span t)))
       else if tk_kind t = tokString then
         p_bind next_tok (\<lambda>_.
           case parse_date dateLayouts (tk_text t) of
             Some inst \<Rightarrow> p_ret (mk_time TimeAbsolute 0 inst (tok_span t))
           | None \<Rightarrow> p_fail (errAt (tk_pos t) (tk_end t) bad_time [truncate_str (tk_text t) 64]))
       else if tk_kind t = tokNumber then
         p_bind (peekAt 1) (\<lambda>u.
           if tk_kind u = tokIdent \<and> \<not> isKeyword u ''AGO'' \<and> durationUnits (to_lower (tk_text u)) \<noteq> None
           then p_bind parse_duration (\<lambda>d.
                p_bind (expectKeyword ''AGO'') (\<lambda>ago.
                  p_ret (mk_time TimeAgo (dl_d d) zero_time (mk_span (sp_pos (dl_span d)) (tk_end ago)))))
           else unix_time t)
       else p_bind next_tok (\<lambda>_.
         p_fail (unexpected t time_wanted)))"

definition parse_timeseries :: "token \<Rightarrow> timeseriesClause parse" where
  "parse_timeseries kw =
     p_bind peek (\<lambda>t.
       if isKeyword t ''AUTO'' \<or> isKeyword t ''MAX'' then
         p_bind next_tok (\<lambda>_. p_ret \<lparr>tc_auto = True, tc_bucket = 0, tc_span = mk_span (tk_pos kw) (tk_end t)\<rparr>)
       else if tk_kind t = tokNumber then
         p_bind parse_duration (\<lambda>d.
           p_ret \<lparr>tc_auto = False, tc_bucket = dl_d d, tc_span = mk_span (tk_pos kw) (sp_end (dl_span d))\<rparr>)
       else p_ret \<lparr>tc_auto = True, tc_bucket = 0, tc_span = tok_span kw\<rparr>)"

definition parse_limit :: "token \<Rightarrow> limitClause parse" where
  "parse_limit kw =
     p_bind next_tok (\<lambda>t.
       if isKeyword t ''MAX'' then p_ret \<lparr>lc_n = 0, lc_max = True, lc_span = mk_span (tk_pos kw) (tk_end t)\<rparr>
       else if tk_kind t \<noteq> tokNumber then p_fail (unexpected t ''a number or MAX'')
       else case parse_int64 (tk_text t) of
         None \<Rightarrow> p_fail (errAt (tk_pos t) (tk_end t) ''LIMIT must be a positive integer'' [])
       | Some n \<Rightarrow>
           if n < 1 \<or> n > 1000000
           then p_fail (errAt (tk_pos t) (tk_end t) ''LIMIT must be a positive integer'' [])
           else p_ret \<lparr>lc_n = n, lc_max = False, lc_span = mk_span (tk_pos kw) (tk_end t)\<rparr>)"

section \<open>Conditions\<close>

definition parse_list :: "oql_value list parse" where
  "parse_list =
     p_bind (expect tokLParen) (\<lambda>_.
     p_bind (comma_list (Some maxInValues)
       (\<lambda>v. span_err (v_span v) ''at most %d values in IN'' [show_nat maxInValues]) parse_value) (\<lambda>vs.
     p_bind (expect tokRParen) (\<lambda>_. p_ret vs)))"

fun op_text :: "tokenKind \<Rightarrow> string option" where
  "op_text tokEq = Some ''=''"
| "op_text tokNeq = Some ''!=''"
| "op_text tokLt = Some ''<''"
| "op_text tokLte = Some ''<=''"
| "op_text tokGt = Some ''>''"
| "op_text tokGte = Some ''>=''"
| "op_text _ = None"

definition one_value :: "string \<Rightarrow> (string \<times> oql_value list) parse" where
  "one_value op = p_bind parse_value (\<lambda>v. p_ret (op, [v]))"

definition op_wanted :: string where
  "op_wanted = ''a comparison operator (=, !=, <, <=, >, >=, IN, LIKE, CONTAINS, IS NULL)''"

text \<open>The operator after an attribute and its values.\<close>

definition parse_operator :: "(string \<times> oql_value list) parse" where
  "parse_operator =
     p_bind next_tok (\<lambda>t.
       case op_text (tk_kind t) of
         Some op \<Rightarrow> one_value op
       | None \<Rightarrow>
           if tk_kind t \<noteq> tokIdent then p_fail (unexpected t op_wanted)
           else (let kw = to_upper (tk_text t) in
             if kw = ''IN'' then p_bind parse_list (\<lambda>vs. p_ret (''in'', vs))
             else if kw = ''LIKE'' \<or> kw = ''CONTAINS'' then one_value (to_lower (tk_text t))
             else if kw = ''NOT'' then
               p_bind next_tok (\<lambda>n.
                 if isKeyword n ''IN'' then p_bind parse_list (\<lambda>vs. p_ret (''not in'', vs))
                 else if isKeyword n ''LIKE'' \<or> isKeyword n ''CONTAINS'' then one_value (''not '' @ to_lower (tk_text n))
                 else p_fail (unexpected n ''IN, LIKE or CONTAINS after NOT''))
             else if kw = ''IS'' then
               p_bind next_tok (\<lambda>n.
                 if isKeyword n ''NOT'' then
                   p_bind next_tok (\<lambda>n'.
                     if \<not> isKeyword n' ''NULL'' then p_fail (unexpected n' ''NULL'') else p_ret (''is not null'', []))
                 else if \<not> isKeyword n ''NULL'' then p_fail (unexpected n ''NULL'')
                 else p_ret (''is null'', []))
             else p_fail (unexpected t op_wanted)))"

definition count_pred :: "attr \<Rightarrow> unit parse" where
  "count_pred a p =
     (let p' = p\<lparr>ps_preds := ps_preds p + 1\<rparr> in
      if ps_preds p' > maxPredicates
      then Inl (Syntax (span_err (at_span a) ''at most %d conditions'' [show_nat maxPredicates]))
      else Inr ((), p'))"

definition prev_end :: "nat parse" where
  "prev_end p = Inr (tk_end (ps_toks p ! (ps_i p - 1)), p)"

definition parse_predicate :: "expr parse" where
  "parse_predicate =
     p_bind parse_attr (\<lambda>a.
     p_bind (count_pred a) (\<lambda>_.
     p_bind parse_operator (\<lambda>(op, vs).
     p_bind prev_end (\<lambda>end.
       p_ret (Predicate a op vs (mk_span (sp_pos (at_span a)) end))))))"

text \<open>\<open>cond := and (OR and)*\<close>, \<open>and := not (AND not)*\<close>.\<close>

fun parse_cond :: "nat \<Rightarrow> expr parse"
and or_loop :: "nat \<Rightarrow> expr \<Rightarrow> expr parse"
and parse_and :: "nat \<Rightarrow> expr parse"
and and_loop :: "nat \<Rightarrow> expr \<Rightarrow> expr parse"
and parse_not :: "nat \<Rightarrow> expr parse" where
  "parse_cond 0 = (\<lambda>p. Inl OutOfFuel)"
| "parse_cond (Suc f) =
     p_bind peek (\<lambda>t. nested t (p_bind (parse_and f) (or_loop f)))"
| "or_loop 0 l = (\<lambda>p. Inl OutOfFuel)"
| "or_loop (Suc f) l =
     p_bind (acceptKeyword ''OR'') (\<lambda>k.
       if k = None then p_ret l
       else p_bind (parse_and f) (\<lambda>r. or_loop f (Logical ''or'' l r)))"
| "parse_and 0 = (\<lambda>p. Inl OutOfFuel)"
| "parse_and (Suc f) = p_bind (parse_not f) (and_loop f)"
| "and_loop 0 l = (\<lambda>p. Inl OutOfFuel)"
| "and_loop (Suc f) l =
     p_bind (acceptKeyword ''AND'') (\<lambda>k.
       if k = None then p_ret l
       else p_bind (parse_not f) (\<lambda>r. and_loop f (Logical ''and'' l r)))"
| "parse_not 0 = (\<lambda>p. Inl OutOfFuel)"
| "parse_not (Suc f) =
     p_bind peek (\<lambda>t.
       if isKeyword t ''NOT'' then
         p_bind next_tok (\<lambda>_. nested t (p_bind (parse_not f) (\<lambda>x.
           p_ret (Not x (mk_span (tk_pos t) (sp_end (exprSpan x)))))))
       else if tk_kind t = tokLParen then
         p_bind next_tok (\<lambda>_.
         p_bind (parse_cond f) (\<lambda>e.
         p_bind (expect tokRParen) (\<lambda>_. p_ret e)))
       else parse_predicate)"

definition cond :: "expr parse" where
  "cond p = parse_cond (4 * length (ps_toks p) + 4) p"

section \<open>Aggregates and the query\<close>

definition blank_agg :: "string \<Rightarrow> string \<Rightarrow> agg" where
  "blank_agg fn name = Agg fn name False None None [] None None (FNum False 0) 0 zero_span []"

definition with_arg :: "string \<Rightarrow> string \<Rightarrow> f64 list \<Rightarrow> agg parse" where
  "with_arg fn name levels =
     p_bind parse_attr (\<lambda>a. p_ret (Agg fn name False (Some a) None levels None None (FNum False 0) 0 zero_span []))"

definition histogram_args :: "string \<Rightarrow> string \<Rightarrow> agg parse" where
  "histogram_args fn name =
     p_bind parse_attr (\<lambda>a.
     p_bind (expect tokComma) (\<lambda>_.
     p_bind parse_number (\<lambda>(ceiling, _).
     p_bind (accept tokComma) (\<lambda>c.
       if c = None then p_ret (Agg fn name False (Some a) None [] None None ceiling 40 zero_span [])
       else p_bind parse_number (\<lambda>(v, sp).
         if \<not> f_eq v (f_trunc v) \<or> f_lt v (f_of_int 1) \<or> f_gt v (f_of_int 200)
         then p_fail (span_err sp ''histogram buckets must be an integer between 1 and 200'' [])
         else p_ret (Agg fn name False (Some a) None [] None None ceiling (f_to_int v) zero_span []))))))"

text \<open>The arguments of one function; \<open>inner\<close> parses a nested aggregate.\<close>

definition agg_args :: "agg parse \<Rightarrow> string \<Rightarrow> string \<Rightarrow> agg parse" where
  "agg_args inner fn name =
     (if fn = ''count'' then
        p_bind (accept tokStar) (\<lambda>st.
          if st \<noteq> None then p_ret (Agg fn name True None None [] None None (FNum False 0) 0 zero_span [])
          else with_arg fn name [])
      else if fn = ''percentile'' then
        p_bind parse_attr (\<lambda>a.
        p_bind (expect tokComma) (\<lambda>_.
        p_bind (comma_list None (\<lambda>_. errAt 0 0 [] []) parse_number) (\<lambda>levels.
          p_ret (Agg fn name False (Some a) None (map fst levels) None None (FNum False 0) 0 zero_span []))))
      else if fn = ''rate'' then
        p_bind inner (\<lambda>i.
        p_bind (expect tokComma) (\<lambda>_.
        p_bind parse_duration (\<lambda>per.
          p_ret (Agg fn name False None (Some i) [] (Some per) None (FNum False 0) 0 zero_span []))))
      else if fn = ''filter'' then
        p_bind inner (\<lambda>i.
        p_bind (expect tokComma) (\<lambda>_.
        p_bind (expectKeyword ''WHERE'') (\<lambda>_.
        p_bind cond (\<lambda>c.
          p_ret (Agg fn name False None (Some i) [] None (Some c) (FNum False 0) 0 zero_span [])))))
      else if fn = ''histogram'' then histogram_args fn name
      else with_arg fn name (if fn = ''median'' then [f_of_int 50] else []))"

definition set_text :: "span \<Rightarrow> string \<Rightarrow> agg \<Rightarrow> agg" where
  "set_text sp txt a =
     Agg (ag_func a) (ag_name a) (ag_star a) (ag_arg a) (ag_inner a) (ag_levels a) (ag_per a) (ag_cond a)
       (ag_ceiling a) (ag_buckets a) sp txt"

definition close_agg :: "token \<Rightarrow> token \<Rightarrow> agg \<Rightarrow> agg parse" where
  "close_agg t lp a =
     p_bind (expect tokRParen) (\<lambda>rp p.
       p_ret (set_text (mk_span (tk_pos t) (tk_end rp))
                (join_with '' '' (str_fields (drop (tk_end lp) (take (tk_pos rp) (ps_src p))))) a) p)"

fun parse_agg :: "nat \<Rightarrow> agg parse" where
  "parse_agg 0 = (\<lambda>p. Inl OutOfFuel)"
| "parse_agg (Suc f) =
     p_bind next_tok (\<lambda>t. nested t (
       if tk_kind t \<noteq> tokIdent then p_fail (unexpected t ''an aggregate function such as count(*)'')
       else case funcNames (to_lower (tk_text t)) of
         None \<Rightarrow>
           p_bind peek (\<lambda>n.
             if tk_kind n = tokLParen
             then p_fail (errAt (tk_pos t) (tk_end t) ''unknown function %q'' [truncate_str (tk_text t) 64])
             else p_fail (errAt (tk_pos t) (tk_end t)
                ''expected an aggregate function such as count(*), found %q (select items must be aggregates)''
                [truncate_str (tk_text t) 64]))
       | Some fn \<Rightarrow>
           p_bind (expect tokLParen) (\<lambda>lp.
           p_bind (agg_args (parse_agg f) fn (tk_text t)) (close_agg t lp))))"

definition agg :: "agg parse" where
  "agg p = parse_agg (Suc (length (ps_toks p))) p"

definition parse_item :: "selectItem parse" where
  "parse_item =
     p_bind agg (\<lambda>a.
     p_bind (acceptKeyword ''AS'') (\<lambda>as.
       if as = None then p_ret \<lparr>si_agg = a, si_alias = [], si_span = ag_span a\<rparr>
       else p_bind next_tok (\<lambda>t.
         if (tk_kind t \<noteq> tokIdent \<and> tk_kind t \<noteq> tokString \<and> tk_kind t \<noteq> tokQuotedIdent) \<or>
            (tk_kind t = tokIdent \<and> reserved (to_lower (tk_text t)))
         then p_fail (unexpected t ''an alias'')
         else if tk_text t = [] \<or> length (tk_text t) > maxAliasBytes \<or> list_ex isControl (tk_text t)
         then p_fail (errAt (tk_pos t) (tk_end t) ''alias must be 1-%d bytes without control characters''
                [show_nat maxAliasBytes])
         else p_ret \<lparr>si_agg = a, si_alias = tk_text t, si_span = mk_span (sp_pos (ag_span a)) (tk_end t)\<rparr>)))"

definition compare_clause :: "token \<Rightarrow> durationLit parse" where
  "compare_clause t =
     p_bind (expectKeyword ''WITH'') (\<lambda>_.
     p_bind parse_duration (\<lambda>d.
     p_bind (expectKeyword ''AGO'') (\<lambda>_.
       p_ret (d\<lparr>dl_span := mk_span (tk_pos t) (sp_end (dl_span d))\<rparr>))))"

definition parse_facets :: "attr list parse" where
  "parse_facets =
     comma_list (Some maxFacets)
       (\<lambda>a. span_err (at_span a) ''at most %d FACET attributes'' [show_nat maxFacets]) parse_attr"

text \<open>One clause after its keyword token \<open>t\<close>.\<close>

definition parse_clause :: "string \<Rightarrow> token \<Rightarrow> oql_query \<Rightarrow> oql_query parse" where
  "parse_clause kw t q =
     (if kw = ''WHERE'' then p_bind cond (\<lambda>c. p_ret (q\<lparr>qu_where := Some c\<rparr>))
      else if kw = ''FACET'' then p_bind parse_facets (\<lambda>fs. p_ret (q\<lparr>qu_facets := fs\<rparr>))
      else if kw = ''SINCE'' then p_bind parse_timeSpec (\<lambda>s. p_ret (q\<lparr>qu_since := Some s\<rparr>))
      else if kw = ''UNTIL'' then p_bind parse_timeSpec (\<lambda>s. p_ret (q\<lparr>qu_until := Some s\<rparr>))
      else if kw = ''TIMESERIES'' then p_bind (parse_timeseries t) (\<lambda>c. p_ret (q\<lparr>qu_timeseries := Some c\<rparr>))
      else if kw = ''LIMIT'' then p_bind (parse_limit t) (\<lambda>c. p_ret (q\<lparr>qu_limit := Some c\<rparr>))
      else p_bind (compare_clause t) (\<lambda>d. p_ret (q\<lparr>qu_compare := Some d\<rparr>)))"

definition clause_keywords :: "string list" where
  "clause_keywords = [''WHERE'', ''FACET'', ''SINCE'', ''UNTIL'', ''TIMESERIES'', ''LIMIT'', ''COMPARE'']"

fun clauses :: "nat \<Rightarrow> string list \<Rightarrow> oql_query \<Rightarrow> oql_query parse" where
  "clauses 0 seen q = (\<lambda>p. Inl OutOfFuel)"
| "clauses (Suc f) seen q =
     p_bind peek (\<lambda>t.
       if tk_kind t = tokEOF then p_ret q
       else (let kw = (if tk_kind t = tokIdent then to_upper (tk_text t) else []) in
         if kw \<notin> set clause_keywords
         then p_fail (unexpected t ''WHERE, FACET, SINCE, UNTIL, TIMESERIES, LIMIT or COMPARE WITH'')
         else if kw \<in> set seen then p_fail (errAt (tk_pos t) (tk_end t) ''duplicate %s clause'' [kw])
         else p_bind next_tok (\<lambda>_. p_bind (parse_clause kw t q) (clauses f (kw # seen)))))"

definition unknown_event :: string where
  "unknown_event =
     ''unknown event type %q (expected Log, Span, Transaction, Metric, Host, Container, Profile, RumPageView, '' @
     ''RumVital, RumSession, AnalyticsEvent or DbQuery)''"

definition parse_query :: "oql_query parse" where
  "parse_query =
     p_bind (expectKeyword ''SELECT'') (\<lambda>_.
     p_bind (comma_list (Some maxSelectItems)
       (\<lambda>it. span_err (si_span it) ''at most %d select items'' [show_nat maxSelectItems]) parse_item) (\<lambda>items.
     p_bind (expectKeyword ''FROM'') (\<lambda>_.
     p_bind next_tok (\<lambda>et.
       if tk_kind et \<noteq> tokIdent \<and> tk_kind et \<noteq> tokQuotedIdent
       then p_fail (unexpected et ''an event type (Log, Span, Transaction, Metric, Host or Container)'')
       else case lookupEventType (tk_text et) of
         None \<Rightarrow> p_fail (errAt (tk_pos et) (tk_end et) unknown_event [truncate_str (tk_text et) 64])
       | Some def \<Rightarrow>
           (\<lambda>p. clauses (Suc (length (ps_toks p))) []
              \<lparr>qu_select = items, qu_eventType = et_name def, qu_eventSpan = tok_span et, qu_where = None,
               qu_facets = [], qu_since = None, qu_until = None, qu_timeseries = None, qu_limit = None,
               qu_compare = None\<rparr> p)))))"

definition Parse :: "string \<Rightarrow> perr + oql_query" where
  "Parse src =
     (case lex src of
        Inl e \<Rightarrow> Inl (Syntax e)
      | Inr toks \<Rightarrow>
          (case parse_query \<lparr>ps_src = src, ps_toks = toks, ps_i = 0, ps_depth = 0, ps_preds = 0\<rparr> of
             Inl e \<Rightarrow> Inl e
           | Inr (q, _) \<Rightarrow> Inr q))"

text \<open>\<^verbatim>\<open>ParseAttribute\<close> of \<^verbatim>\<open>filters.go\<close>.\<close>

definition ParseAttribute :: "string \<Rightarrow> perr + attr" where
  "ParseAttribute src =
     (case lex src of
        Inl e \<Rightarrow> Inl (Syntax e)
      | Inr toks \<Rightarrow>
          (case p_bind parse_attr (\<lambda>a. p_bind peek (\<lambda>t.
                  if tk_kind t \<noteq> tokEOF then p_fail (unexpected t ''the end of the attribute'') else p_ret a))
                \<lparr>ps_src = src, ps_toks = toks, ps_i = 0, ps_depth = 0, ps_preds = 0\<rparr> of
             Inl e \<Rightarrow> Inl e
           | Inr (a, _) \<Rightarrow> Inr a))"

end
