(* ===== verification/OqlParserCorrect.thy ===== *)
theory OqlParserCorrect
  imports OqlParser
begin

text \<open>
  Correctness of the parser: it always ends with a query or a positioned error, errors and spans lie
  inside the query text, and the tree it returns keeps the limits of the language. The proofs are a
  weakest-precondition calculus over parse functions (\<open>wp\<close>), with one rule for each grammar rule.
\<close>

section \<open>Weakest preconditions\<close>

text \<open>
  \<open>wp n f Q p\<close>: on state \<open>p\<close> of a query of \<open>n\<close> bytes, \<open>f\<close> does not run out of fuel, an error
  it reports lies inside the query, and a result satisfies \<open>Q\<close>.
\<close>

definition wp :: "nat \<Rightarrow> 'a parse \<Rightarrow> ('a \<Rightarrow> parser \<Rightarrow> bool) \<Rightarrow> parser \<Rightarrow> bool" where
  "wp n f Q p =
     (case f p of
        Inl OutOfFuel \<Rightarrow> False
      | Inl (Syntax e) \<Rightarrow> err_within n e
      | Inr (x, p') \<Rightarrow> Q x p')"

named_theorems wp_simp \<open>weakest preconditions of the combinators\<close>

lemma wp_bind [wp_simp]: "wp n (p_bind f g) Q = wp n f (\<lambda>x. wp n (g x) Q)"
  by (auto simp: wp_def p_bind_def fun_eq_iff split: sum.splits perr.splits)

lemma wp_ret [wp_simp]: "wp n (p_ret x) Q = Q x"
  by (simp add: wp_def p_ret_def fun_eq_iff)

lemma wp_fail [wp_simp]: "wp n (p_fail e) Q = (\<lambda>_. err_within n e)"
  by (simp add: wp_def p_fail_def fun_eq_iff)

lemma wp_if [wp_simp]: "wp n (if b then f else g) Q = (if b then wp n f Q else wp n g Q)"
  by simp

lemma wp_mono: "wp n f Q p \<Longrightarrow> (\<And>x p'. Q x p' \<Longrightarrow> R x p') \<Longrightarrow> wp n f R p"
  by (auto simp: wp_def split: sum.splits perr.splits)

lemma wp_peek [wp_simp]: "wp n peek Q p \<longleftrightarrow> Q (ps_toks p ! ps_i p) p"
  by (simp add: wp_def peek_def)

section \<open>The state invariant\<close>

text \<open>
  The tokens are those of a query of \<open>n\<close> bytes and the current index is inside the list, so no access
  of the Go code to \<^verbatim>\<open>p.toks[p.i]\<close> is out of range.
\<close>

definition pinv :: "nat \<Rightarrow> parser \<Rightarrow> bool" where
  "pinv n p \<longleftrightarrow> toks_ok n (ps_toks p) \<and> ps_i p < length (ps_toks p)"

text \<open>
  What every parse function keeps: the text, the tokens and the depth; it only moves forward, and it
  counts \<open>k\<close> predicates.
\<close>

definition adv :: "nat \<Rightarrow> parser \<Rightarrow> parser \<Rightarrow> bool" where
  "adv k p p' \<longleftrightarrow>
     ps_src p' = ps_src p \<and> ps_toks p' = ps_toks p \<and> ps_depth p' = ps_depth p \<and>
     ps_i p \<le> ps_i p' \<and> ps_preds p' = ps_preds p + k"

definition rem :: "parser \<Rightarrow> nat" where
  "rem p = length (ps_toks p) - ps_i p"

lemma adv_refl [simp]: "adv 0 p p"
  by (simp add: adv_def)

lemma adv_trans: "adv k p q \<Longrightarrow> adv l q r \<Longrightarrow> adv (k + l) p r"
  by (auto simp: adv_def)

lemma adv_rem: "adv k p q \<Longrightarrow> rem q \<le> rem p"
  by (auto simp: adv_def rem_def)

lemma adv_length: "adv k p q \<Longrightarrow> length (ps_toks q) = length (ps_toks p)"
  by (auto simp: adv_def)

lemma rem_less_length: "pinv n p \<Longrightarrow> rem p \<le> length (ps_toks p)"
  by (auto simp: rem_def)

definition tok_within :: "nat \<Rightarrow> token \<Rightarrow> bool" where
  "tok_within n t \<longleftrightarrow> tk_pos t \<le> tk_end t \<and> tk_end t \<le> n \<and> text_ok t"

definition span_within :: "nat \<Rightarrow> span \<Rightarrow> bool" where
  "span_within n s \<longleftrightarrow> sp_pos s \<le> n \<and> sp_end s \<le> n"

lemma toks_ok_nth:
  assumes "toks_ok n ts" and "i < length ts"
  shows "tok_within n (ts ! i)" and "tk_kind (ts ! i) \<noteq> tokEOF \<Longrightarrow> Suc i < length ts"
proof -
  obtain us where us: "ts = us @ [eof_token n]"
    and ok: "list_all (\<lambda>t. tk_kind t \<noteq> tokEOF \<and> tk_pos t < tk_end t \<and> tk_end t \<le> n \<and> text_ok t) us"
    using assms(1) by (auto simp: toks_ok_def)
  show "tok_within n (ts ! i)"
    using us ok assms(2)
    by (cases "i < length us") (auto simp: nth_append tok_within_def eof_token_def list_all_length less_imp_le text_ok_def)
  show "tk_kind (ts ! i) \<noteq> tokEOF \<Longrightarrow> Suc i < length ts"
    using us assms(2) by (cases "i < length us") (auto simp: nth_append eof_token_def)
qed

lemma pinv_tok: "pinv n p \<Longrightarrow> tok_within n (ps_toks p ! ps_i p)"
  by (auto simp: pinv_def intro: toks_ok_nth)

lemma span_err_within [simp]: "err_within n (span_err s f as) \<longleftrightarrow> span_within n s"
  by (simp add: span_err_def span_within_def)

lemma unexpected_within [simp]: "tok_within n t \<Longrightarrow> err_within n (unexpected t w)"
  by (auto simp: unexpected_def tok_within_def)

lemma tok_span_within [simp]: "span_within n (tok_span t) \<longleftrightarrow> tk_pos t \<le> n \<and> tk_end t \<le> n"
  by (simp add: tok_span_def span_within_def)

lemma mk_span_within [simp]: "span_within n (mk_span a b) \<longleftrightarrow> a \<le> n \<and> b \<le> n"
  by (simp add: span_within_def)

lemma tok_withinD [dest]: "tok_within n t \<Longrightarrow> tk_pos t \<le> n \<and> tk_end t \<le> n"
  by (auto simp: tok_within_def)

section \<open>Token operations\<close>

text \<open>
  \<open>next_tok\<close> yields a token inside the query. It moves forward unless it is at the end marker.
\<close>

lemma wp_next:
  assumes "pinv n p"
    and "\<And>t p'. pinv n p' \<Longrightarrow> adv 0 p p' \<Longrightarrow> tok_within n t \<Longrightarrow> t = ps_toks p ! ps_i p \<Longrightarrow>
           (tk_kind t \<noteq> tokEOF \<Longrightarrow> ps_i p' = Suc (ps_i p) \<and> rem p' < rem p) \<Longrightarrow> Q t p'"
  shows "wp n next_tok Q p"
proof -
  let ?t = "ps_toks p ! ps_i p"
  have i: "ps_i p < length (ps_toks p)" and t: "tok_within n ?t"
    using assms(1) by (auto simp: pinv_def intro: toks_ok_nth)
  show ?thesis
  proof (cases "tk_kind ?t = tokEOF")
    case True
    then show ?thesis using assms t by (simp add: wp_def next_tok_def Let_def)
  next
    case False
    have "Suc (ps_i p) < length (ps_toks p)"
      using toks_ok_nth(2) assms(1) i False by (auto simp: pinv_def)
    then show ?thesis
      using assms t False
      by (auto simp: wp_def next_tok_def Let_def pinv_def adv_def rem_def intro!: assms(2))
  qed
qed

lemma wp_accept:
  assumes "pinv n p"
    and "\<And>p'. pinv n p' \<Longrightarrow> adv 0 p p' \<Longrightarrow> Q None p'"
    and "\<And>t p'. pinv n p' \<Longrightarrow> adv 0 p p' \<Longrightarrow> tok_within n t \<Longrightarrow> tk_kind t = k \<Longrightarrow>
           (k \<noteq> tokEOF \<Longrightarrow> rem p' < rem p) \<Longrightarrow> Q (Some t) p'"
  shows "wp n (accept k) Q p"
  unfolding accept_def using assms by (auto simp: wp_simp intro!: wp_next)

lemma wp_acceptKeyword:
  assumes "pinv n p"
    and "\<And>p'. pinv n p' \<Longrightarrow> adv 0 p p' \<Longrightarrow> Q None p'"
    and "\<And>t p'. pinv n p' \<Longrightarrow> adv 0 p p' \<Longrightarrow> tok_within n t \<Longrightarrow> rem p' < rem p \<Longrightarrow> Q (Some t) p'"
  shows "wp n (acceptKeyword kw) Q p"
  unfolding acceptKeyword_def using assms by (auto simp: wp_simp isKeyword_def intro!: wp_next)

lemma wp_expect:
  assumes "pinv n p"
    and "\<And>t p'. pinv n p' \<Longrightarrow> adv 0 p p' \<Longrightarrow> tok_within n t \<Longrightarrow> tk_kind t = k \<Longrightarrow>
           (k \<noteq> tokEOF \<Longrightarrow> ps_i p' = Suc (ps_i p) \<and> rem p' < rem p) \<Longrightarrow> Q t p'"
  shows "wp n (expect k) Q p"
  unfolding expect_def using assms by (auto simp: wp_simp split: if_splits intro!: wp_next)

lemma wp_expectKeyword:
  assumes "pinv n p"
    and "\<And>t p'. pinv n p' \<Longrightarrow> adv 0 p p' \<Longrightarrow> tok_within n t \<Longrightarrow> rem p' < rem p \<Longrightarrow> Q t p'"
  shows "wp n (expectKeyword kw) Q p"
  unfolding expectKeyword_def using assms by (auto simp: wp_simp isKeyword_def intro!: wp_next)

section \<open>Attributes, numbers and values\<close>

text \<open>
  A parsed attribute: a map lookup has a key of 1 to 256 bytes without control characters, a name has
  at most 256 bytes, and a bare name is no keyword.
\<close>

definition key_ok :: "string \<Rightarrow> bool" where
  "key_ok k \<longleftrightarrow> k \<noteq> [] \<and> length k \<le> 256 \<and> \<not> list_ex isControl k"

definition attr_ok :: "nat \<Rightarrow> attr \<Rightarrow> bool" where
  "attr_ok n a \<longleftrightarrow>
     span_within n (at_span a) \<and> at_res a = None \<and>
     (if at_map a = [] then
        at_name a \<noteq> [] \<and> length (at_name a) \<le> 256 \<and> (\<not> at_quoted a \<longrightarrow> \<not> reserved (to_lower (at_name a)))
      else at_map a \<in> {''attributes'', ''resource''} \<and> at_name a = [] \<and> key_ok (at_key a))"

lemma checkMapKey_None: "checkMapKey k sp = None \<longleftrightarrow> key_ok k"
  by (auto simp: checkMapKey_def key_ok_def maxMapKeyBytes_def)

lemma wp_checkMapKey [wp_simp]:
  "wp n (case checkMapKey k sp of None \<Rightarrow> f | Some e \<Rightarrow> p_fail e) Q p \<longleftrightarrow>
     (key_ok k \<longrightarrow> wp n f Q p) \<and> (\<not> key_ok k \<longrightarrow> span_within n sp)"
  by (auto simp: checkMapKey_def key_ok_def maxMapKeyBytes_def wp_fail)

lemma wp_plain_attr:
  assumes "pinv n p" and "tok_within n t" and "tk_kind t = tokIdent" and "\<not> reserved (to_lower (tk_text t))"
    and "\<And>a. attr_ok n a \<Longrightarrow> Q a p"
  shows "wp n (plain_attr t) Q p"
proof -
  have t: "tk_pos t \<le> n" "tk_end t \<le> n" "tk_text t \<noteq> []"
    using assms(2,3) by (auto simp: tok_within_def text_ok_def)
  have "attr_ok n (mk_attr (tk_text t) [] [] False (tok_span t))" if "length (tk_text t) \<le> 256"
    using that t assms(4) by (simp add: attr_ok_def mk_attr_def)
  moreover have "attr_ok n (mk_attr [] ''resource'' k False (tok_span t))" if "key_ok k" for k
    using that t by (simp add: attr_ok_def mk_attr_def)
  ultimately show ?thesis
    using t assms(5)
    by (auto simp: plain_attr_def wp_simp Let_def maxMapKeyBytes_def)
qed

lemma wp_indexed_attr:
  assumes "pinv n p" and "tok_within n t"
    and "\<And>a p'. pinv n p' \<Longrightarrow> adv 0 p p' \<Longrightarrow> attr_ok n a \<Longrightarrow> Q a p'"
  shows "wp n (indexed_attr t) Q p"
  unfolding indexed_attr_def
  apply (simp only: wp_simp)
  apply (rule wp_expect [OF assms(1)])
  apply (rule wp_expect, assumption)
  using assms(2)
  by (auto simp: wp_simp attr_ok_def mk_attr_def adv_def intro!: assms(3))

lemma wp_parse_attr:
  assumes p: "pinv n p"
    and Q: "\<And>a p'. pinv n p' \<Longrightarrow> adv 0 p p' \<Longrightarrow> rem p' < rem p \<Longrightarrow> attr_ok n a \<Longrightarrow> Q a p'"
  shows "wp n parse_attr Q p"
  unfolding parse_attr_def wp_bind
proof (rule wp_next [OF p], goal_cases)
  case (1 t p1)
  have Q1: "Q a p'" if "pinv n p'" "adv 0 p1 p'" "attr_ok n a" "tk_kind t \<noteq> tokEOF" for a p'
    using that 1 adv_rem [of 0 p1 p'] adv_trans [of 0 p p1 0 p'] by (intro Q) auto
  have t: "tk_pos t \<le> n" "tk_end t \<le> n" using 1(3) by auto
  have quoted: "attr_ok n (mk_attr (tk_text t) [] [] True (tok_span t))" if "tk_kind t = tokQuotedIdent"
    using that 1(3) t by (simp add: attr_ok_def mk_attr_def tok_within_def text_ok_def)
  have plain: "wp n (plain_attr t) Q p2"
    if "tk_kind t = tokIdent" "\<not> reserved (to_lower (tk_text t))" "pinv n p2" "adv 0 p1 p2" for p2
    using that 1(3) by (intro wp_plain_attr) (auto intro: Q1)
  have index: "wp n (accept tokLBracket) (\<lambda>x. wp n (if x \<noteq> None then indexed_attr t else plain_attr t) Q) p1"
    if "tk_kind t = tokIdent" "\<not> reserved (to_lower (tk_text t))"
  proof (rule wp_accept [OF 1(1)], goal_cases)
    case (2 t' p2)
    then show ?case
      using that \<open>tok_within n t\<close> adv_trans [of 0 p1 p2 0] by (auto intro!: wp_indexed_attr Q1)
  qed (simp add: plain that)
  show ?case
    using quoted plain [of p1] index Q1 [of p1] 1(1,3) t
    by (auto simp: wp_ret wp_fail wp_bind simp del: not_None_eq)
qed

text \<open>A number is finite, with a non-negative magnitude.\<close>

definition finite_num :: "f64 \<Rightarrow> bool" where
  "finite_num v \<longleftrightarrow> (\<exists>s m. v = FNum s m \<and> 0 \<le> m)"

lemma wp_number_of:
  assumes "pinv n p" and "tok_within n t" and "start \<le> n"
    and "\<And>v sp. finite_num v \<Longrightarrow> span_within n sp \<Longrightarrow> tk_kind t = tokNumber \<Longrightarrow> Q (v, sp) p"
  shows "wp n (number_of start neg t) Q p"
proof -
  have "finite_num v \<and> finite_num (f_neg v)" if "ParseFloat s = Some v" "\<not> is_inf v" "\<not> is_nan v" for s v
    using that ParseFloat_nonneg by (cases v) (auto simp: finite_num_def)
  then show ?thesis
    using assms by (auto simp: number_of_def wp_simp split: option.splits)
qed

lemma wp_parse_number:
  assumes p: "pinv n p"
    and Q: "\<And>v sp p'. pinv n p' \<Longrightarrow> adv 0 p p' \<Longrightarrow> rem p' < rem p \<Longrightarrow> finite_num v \<Longrightarrow> span_within n sp \<Longrightarrow>
           Q (v, sp) p'"
  shows "wp n parse_number Q p"
  unfolding parse_number_def wp_bind
proof (rule wp_next [OF p], goal_cases)
  case (1 t p1)
  have Q1: "Q (v, sp) p'" if "pinv n p'" "adv 0 p1 p'" "finite_num v" "span_within n sp" "tk_kind t \<noteq> tokEOF" for v sp p'
    using that 1 adv_rem [of 0 p1 p'] adv_trans [of 0 p p1 0 p'] by (intro Q) auto
  have t: "tk_pos t \<le> n" using 1(3) by auto
  have neg: "wp n next_tok (\<lambda>t'. wp n (number_of (tk_pos t) True t') Q) p1" if "tk_kind t = tokMinus"
    by (rule wp_next [OF 1(1)], rule wp_number_of) (use t that in \<open>auto intro: Q1\<close>)
  have pos: "wp n (number_of (tk_pos t) False t) Q p1" if "tk_kind t \<noteq> tokMinus"
    by (rule wp_number_of) (use 1 t in \<open>auto intro: Q1\<close>)
  show ?case using neg pos by (simp add: wp_bind)
qed

definition value_ok :: "nat \<Rightarrow> oql_value \<Rightarrow> bool" where
  "value_ok n v \<longleftrightarrow>
     span_within n (v_span v) \<and> (v_kind v = ValNumber \<longrightarrow> finite_num (v_num v)) \<and>
     (v_kind v = ValString \<longrightarrow> length (v_str v) \<le> 4096) \<and> (v_kind v = ValVariable \<longrightarrow> validVariableName (v_var v))"

lemma keyword_not_eof: "isKeyword t kw \<Longrightarrow> tk_kind t \<noteq> tokEOF"
  by (auto simp: isKeyword_def)

lemma wp_parse_value:
  assumes p: "pinv n p"
    and Q: "\<And>v p'. pinv n p' \<Longrightarrow> adv 0 p p' \<Longrightarrow> rem p' < rem p \<Longrightarrow> value_ok n v \<Longrightarrow> Q v p'"
  shows "wp n parse_value Q p"
proof -
  let ?t = "ps_toks p ! ps_i p"
  have t: "tok_within n ?t" by (rule pinv_tok [OF p])
  have tok: "wp n next_tok (\<lambda>_. Q v) p" if "value_ok n v" "tk_kind ?t \<noteq> tokEOF" for v
    using that by (intro wp_next [OF p] Q) auto
  have num: "wp n parse_number (\<lambda>x. wp n (case x of (v, sp) \<Rightarrow>
      p_ret (zero_value\<lparr>v_kind := ValNumber, v_num := v, v_str := format_f v, v_span := sp\<rparr>)) Q) p"
    by (rule wp_parse_number [OF p]) (auto simp: wp_simp value_ok_def intro!: Q)
  have bad: "wp n next_tok (\<lambda>_ _. err_within n (unexpected ?t w)) p" for w
    by (rule wp_next [OF p]) (simp add: t)
  have v: "value_ok n (zero_value\<lparr>v_kind := ValString, v_str := tk_text ?t, v_span := tok_span ?t\<rparr>)"
    if "tk_kind ?t = tokString"
    using t that by (auto simp: value_ok_def tok_within_def text_ok_def maxStringBytes_def)
  have v': "value_ok n (zero_value\<lparr>v_kind := ValVariable, v_var := tk_text ?t, v_span := tok_span ?t\<rparr>)"
    if "tk_kind ?t = tokVariable"
    using t that by (auto simp: value_ok_def tok_within_def text_ok_def)
  have v'': "value_ok n (zero_value\<lparr>v_kind := ValBool, v_bool := b, v_str := s, v_span := tok_span ?t\<rparr>)" for b s
    using t by (auto simp: value_ok_def tok_within_def)
  show ?thesis
    using tok [OF v] tok [OF v'] tok [OF v''] num bad
    by (simp add: parse_value_def wp_bind wp_peek wp_ret wp_fail keyword_not_eof Let_def)
qed

section \<open>Durations and times\<close>

lemma floorlog_one: "floorlog 2 (nat 1) = 1"
  by (simp add: floorlog_def)

lemma f_of_int_exact_even:
  assumes "2 ^ (52 + k) \<le> N" and "N < 2 ^ (53 + k)" and "N = M * 2 ^ k" and "k \<le> 900"
  shows "f_of_int N = FNum False (of_int N)"
proof -
  have pos: "0 < N" using assms(1) by (smt (verit) zero_less_power)
  have "floorlog 2 (nat N) = 53 + k"
    using assms(1,2) pos
    by (intro antisym floorlog_leI floorlog_geI) (auto simp: nat_less_iff le_nat_iff)
  then have "ilog2 (of_int N) = 52 + int k"
    using floorlog_one assms(1)
    unfolding ilog2_def quotient_of_int
    by (simp add: Let_def power_int_def nat_add_distrib)
  then have ul: "ulp_exp (of_int N) = int k" by (simp add: ulp_exp_def)
  have "round_mag (of_int N) = of_int N"
  proof (rule round_mag_exact [of _ M])
    show "0 < (of_int N :: rat)" using pos by simp
    show "(of_int N :: rat) = of_int M * 2 powi ulp_exp (of_int N)" using ul assms(3) by simp
  qed
  moreover have "(of_int N :: rat) < 2 ^ 1024"
  proof -
    have "(of_int N :: rat) < of_int (2 ^ (53 + k))" using assms(2) by (simp only: of_int_less_iff)
    also have "(of_int (2 ^ (53 + k)) :: rat) = 2 ^ (53 + k)" by simp
    also have "(2 :: rat) ^ (53 + k) \<le> 2 ^ 1024" using assms(4) by (intro power_increasing) auto
    finally show ?thesis .
  qed
  ultimately show ?thesis using pos by (simp add: f_of_int_def of_exact_def round64_def)
qed

lemma ten_years_exact: "f_of_int ten_years = FNum False (of_int ten_years)"
  by (rule f_of_int_exact_even [where k = 6 and M = 4927500000000000])
    (simp_all add: ten_years_def hour_def minute_def second_def)

lemma year_exact: "f_of_int (365 * 24 * hour) = FNum False (of_int (365 * 24 * hour))"
  by (rule f_of_int_exact_even [where k = 2 and M = 7884000000000000])
    (simp_all add: hour_def minute_def second_def)

definition dur_ok :: "nat \<Rightarrow> durationLit \<Rightarrow> bool" where
  "dur_ok n d \<longleftrightarrow> span_within n (dl_span d) \<and> second \<le> dl_d d \<and> dl_d d \<le> ten_years"

lemma duration_bounds:
  assumes "finite_num v" and "\<not> f_gt (f_mul v (f_of_int u)) (f_of_int ten_years)"
    and "\<not> f_lt (f_mul v (f_of_int u)) (f_of_int second)" and u: "f_of_int u = FNum b w"
  shows "second \<le> f_to_int (f_mul v (f_of_int u)) \<and> f_to_int (f_mul v (f_of_int u)) \<le> ten_years"
proof -
  let ?d = "f_mul v (f_of_int u)"
  have sec: "f_of_int second = FNum False (of_int second)"
    using f_of_int_exact [of second] by (simp add: second_def)
  obtain s m where v: "v = FNum s m" using assms(1) by (auto simp: finite_num_def)
  have d: "?d = round64 (s \<noteq> b) (m * w)" using v u by simp
  then have "\<not> is_nan ?d" by (simp add: round64_def Let_def)
  then have "f_le (f_of_int second) ?d" "f_le ?d (f_of_int ten_years)"
    using assms(2,3) sec ten_years_exact by (simp_all add: not_f_lt_le)
  then obtain t k where tk: "?d = FNum t k" "of_int second \<le> fval ?d" "fval ?d \<le> of_int ten_years"
    unfolding sec ten_years_exact by (elim f_between_finite) auto
  moreover have "0 \<le> k" using d tk(1) round64_num_nonneg by metis
  ultimately show ?thesis
    by (intro f_to_int_bounds [OF _ _ tk(1)]) (simp_all add: second_def)
qed

lemma if_Some_bound: "(if b then Some x else r) = Some d \<Longrightarrow> P x \<Longrightarrow> (r = Some d \<Longrightarrow> P d) \<Longrightarrow> P d"
  by (cases b) auto

lemma durationUnits_num:
  assumes "durationUnits u = Some d"
  shows "\<exists>b w. f_of_int d = FNum b w"
  using assms unfolding durationUnits_def
  by (elim if_Some_bound) (auto simp: f_of_int_exact second_def minute_def hour_def year_exact [unfolded hour_def minute_def second_def, simplified])

lemma wp_parse_duration:
  assumes p: "pinv n p"
    and Q: "\<And>d p'. pinv n p' \<Longrightarrow> adv 0 p p' \<Longrightarrow> rem p' < rem p \<Longrightarrow> dur_ok n d \<Longrightarrow> Q d p'"
  shows "wp n parse_duration Q p"
  unfolding parse_duration_def wp_bind
proof (rule wp_parse_number [OF p], unfold prod.case wp_bind, rule wp_next, assumption, goal_cases)
  case (1 v sp p1 u p2)
  have a: "adv 0 p p2" "rem p2 < rem p"
    using 1 adv_trans [of 0 p p1 0 p2] adv_rem [of 0 p1 p2] by auto
  have u: "tk_end u \<le> n" "sp_pos sp \<le> n" using 1 by (auto simp: span_within_def)
  have d: "second \<le> f_to_int (f_mul v (f_of_int x)) \<and> f_to_int (f_mul v (f_of_int x)) \<le> ten_years"
    if "durationUnits s = Some x" "\<not> f_gt (f_mul v (f_of_int x)) (f_of_int ten_years)"
      "\<not> f_lt (f_mul v (f_of_int x)) (f_of_int second)" for s x
    using that durationUnits_num duration_bounds [OF 1(4)] by blast
  show ?case
    using a u 1(4,6,8) d
    by (auto simp: wp_simp Let_def dur_ok_def split: option.splits intro!: Q)
qed

definition time_ok :: "nat \<Rightarrow> timeSpec \<Rightarrow> bool" where
  "time_ok n t \<longleftrightarrow>
     span_within n (ts_span t) \<and> (ts_kind t = TimeAgo \<longrightarrow> second \<le> ts_ago t \<and> ts_ago t \<le> ten_years)"

lemma wp_peekAt [wp_simp]:
  "wp n (peekAt k) Q p \<longleftrightarrow>
     Q (if ps_i p + k < length (ps_toks p) then ps_toks p ! (ps_i p + k) else last (ps_toks p)) p"
  by (simp add: wp_def peekAt_def)

lemma wp_unix_time:
  assumes p: "pinv n p" and "t = ps_toks p ! ps_i p" and "tk_kind t = tokNumber"
    and Q: "\<And>s p'. pinv n p' \<Longrightarrow> adv 0 p p' \<Longrightarrow> rem p' < rem p \<Longrightarrow> time_ok n s \<Longrightarrow> Q s p'"
  shows "wp n (unix_time t) Q p"
  unfolding unix_time_def wp_bind
proof (rule wp_next [OF p], goal_cases)
  case (1 t' p1)
  then have "tok_within n t" using assms(2) by simp
  then show ?case
    using 1 assms(2,3)
    by (auto simp: wp_simp time_ok_def mk_time_def split: option.splits intro!: Q)
qed

lemma wp_parse_timeSpec:
  assumes p: "pinv n p"
    and Q: "\<And>s p'. pinv n p' \<Longrightarrow> adv 0 p p' \<Longrightarrow> rem p' < rem p \<Longrightarrow> time_ok n s \<Longrightarrow> Q s p'"
  shows "wp n parse_timeSpec Q p"
proof -
  let ?t = "ps_toks p ! ps_i p"
  have t: "tok_within n ?t" by (rule pinv_tok [OF p])
  have now: "wp n next_tok (\<lambda>_. Q (mk_time TimeNow 0 0 (tok_span ?t))) p" if "tk_kind ?t \<noteq> tokEOF"
    by (rule wp_next [OF p]) (use t that in \<open>auto simp: time_ok_def mk_time_def intro!: Q\<close>)
  have str: "wp n next_tok (\<lambda>_. wp n (case parse_date dateLayouts (tk_text ?t) of
        None \<Rightarrow> p_fail (errAt (tk_pos ?t) (tk_end ?t) bad_time [truncate_str (tk_text ?t) 64])
      | Some inst \<Rightarrow> p_ret (mk_time TimeAbsolute 0 inst (tok_span ?t))) Q) p" if "tk_kind ?t \<noteq> tokEOF"
    by (rule wp_next [OF p])
      (use t that in \<open>auto simp: wp_simp time_ok_def mk_time_def split: option.splits intro!: Q\<close>)
  have ago: "wp n parse_duration (\<lambda>d. wp n (expectKeyword ''AGO'') (\<lambda>a.
      Q (mk_time TimeAgo (dl_d d) 0 (mk_span (sp_pos (dl_span d)) (tk_end a))))) p"
  proof (rule wp_parse_duration [OF p], rule wp_expectKeyword, assumption, goal_cases)
    case (1 d p1 a p2)
    then show ?case
      using adv_trans [of 0 p p1 0 p2]
      by (intro Q) (auto simp: time_ok_def mk_time_def dur_ok_def span_within_def)
  qed
  have unix: "wp n (unix_time ?t) Q p" if "tk_kind ?t = tokNumber"
    using that by (intro wp_unix_time [OF p]) (auto intro: Q)
  have bad: "wp n next_tok (\<lambda>_ _. err_within n (unexpected ?t w)) p" for w
    by (rule wp_next [OF p]) (simp add: t)
  show ?thesis
    unfolding parse_timeSpec_def wp_bind wp_peek wp_ret wp_fail
    using now str ago unix bad by (auto simp: wp_bind wp_ret wp_fail wp_peekAt keyword_not_eof)
qed

definition series_ok :: "nat \<Rightarrow> timeseriesClause \<Rightarrow> bool" where
  "series_ok n c \<longleftrightarrow>
     span_within n (tc_span c) \<and> (\<not> tc_auto c \<longrightarrow> second \<le> tc_bucket c \<and> tc_bucket c \<le> ten_years)"

lemma wp_parse_timeseries:
  assumes p: "pinv n p" and kw: "tok_within n kw"
    and Q: "\<And>s p'. pinv n p' \<Longrightarrow> adv 0 p p' \<Longrightarrow> series_ok n s \<Longrightarrow> Q s p'"
  shows "wp n (parse_timeseries kw) Q p"
proof -
  let ?t = "ps_toks p ! ps_i p"
  have t: "tok_within n ?t" by (rule pinv_tok [OF p])
  have auto_ok: "wp n next_tok (\<lambda>_. Q \<lparr>tc_auto = True, tc_bucket = 0, tc_span = mk_span (tk_pos kw) (tk_end ?t)\<rparr>) p"
    by (rule wp_next [OF p]) (use t kw in \<open>auto simp: series_ok_def intro!: Q\<close>)
  have dur: "wp n parse_duration (\<lambda>d. Q \<lparr>tc_auto = False, tc_bucket = dl_d d,
      tc_span = mk_span (tk_pos kw) (sp_end (dl_span d))\<rparr>) p"
    by (rule wp_parse_duration [OF p])
      (use kw in \<open>auto simp: series_ok_def dur_ok_def span_within_def intro!: Q\<close>)
  have plain: "Q \<lparr>tc_auto = True, tc_bucket = 0, tc_span = tok_span kw\<rparr> p"
    using kw p by (auto simp: series_ok_def intro!: Q)
  show ?thesis
    unfolding parse_timeseries_def wp_bind wp_peek
    using auto_ok dur plain by (simp add: wp_simp)
qed

definition limit_ok :: "nat \<Rightarrow> limitClause \<Rightarrow> bool" where
  "limit_ok n l \<longleftrightarrow> span_within n (lc_span l) \<and> (\<not> lc_max l \<longrightarrow> 1 \<le> lc_n l \<and> lc_n l \<le> 1000000)"

lemma wp_parse_limit:
  assumes p: "pinv n p" and kw: "tok_within n kw"
    and Q: "\<And>s p'. pinv n p' \<Longrightarrow> adv 0 p p' \<Longrightarrow> limit_ok n s \<Longrightarrow> Q s p'"
  shows "wp n (parse_limit kw) Q p"
  unfolding parse_limit_def wp_bind
  by (rule wp_next [OF p]) (use kw in \<open>auto simp: wp_simp limit_ok_def split: option.splits intro!: Q\<close>)

section \<open>Lists\<close>

text \<open>
  A comma list whose elements satisfy \<open>E\<close> and count \<open>c x\<close> predicates: it ends within the fuel, its
  result is non-empty and keeps the limit.
\<close>

lemma wp_comma_loop:
  assumes inv: "\<And>p. J p \<Longrightarrow> pinv n p" and keep: "\<And>p p'. J p \<Longrightarrow> pinv n p' \<Longrightarrow> adv 0 p p' \<Longrightarrow> J p'"
    and elem: "\<And>p Q. J p \<Longrightarrow>
        (\<And>x p'. J p' \<Longrightarrow> adv (c x) p p' \<Longrightarrow> E x \<Longrightarrow> Q x p') \<Longrightarrow> wp n elem Q p"
    and over: "\<And>x. E x \<Longrightarrow> cap \<noteq> None \<Longrightarrow> err_within n (over x)"
  shows "J p \<Longrightarrow> rem p < f \<Longrightarrow> list_all E acc \<Longrightarrow> (\<forall>k. cap = Some k \<longrightarrow> length acc \<le> k) \<Longrightarrow>
    (\<And>xs p'. J p' \<Longrightarrow> adv (sum_list (map c xs)) p p' \<Longrightarrow> xs \<noteq> [] \<Longrightarrow> list_all E xs \<Longrightarrow>
       (\<forall>k. cap = Some k \<longrightarrow> length (acc @ xs) \<le> k) \<Longrightarrow> Q (acc @ xs) p') \<Longrightarrow>
    wp n (comma_loop f cap over elem acc) Q p"
proof (induction f arbitrary: acc p Q)
  case (Suc f)
  show ?case
    unfolding comma_loop.simps wp_bind
  proof (rule elem [OF Suc.prems(1)], goal_cases)
    case (1 x p1)
    have rem: "rem p1 \<le> rem p" using 1(2) by (rule adv_rem)
    have last: "Q (acc @ [x]) p2" if "cap \<noteq> Some (length acc)" "J p2" "adv 0 p1 p2" for p2
      using that 1 Suc.prems(3,4) adv_trans [OF 1(2) that(3)] by (intro Suc.prems(5)) auto
    have more: "wp n (comma_loop f cap over elem (acc @ [x])) Q p2"
      if "cap \<noteq> Some (length acc)" "J p2" "adv 0 p1 p2" "rem p2 < rem p1" for p2
    proof (rule Suc.IH [OF that(2)])
      show "rem p2 < f" using that(4) rem Suc.prems(2) by simp
      show "list_all E (acc @ [x])" using 1 Suc.prems(3) by simp
      show "\<forall>k. cap = Some k \<longrightarrow> length (acc @ [x]) \<le> k" using that(1) Suc.prems(4) by (auto simp: Suc_le_eq order_le_less)
    next
      fix xs p3
      assume "J p3" and a3: "adv (sum_list (map c xs)) p2 p3" and "list_all E xs"
        and "\<forall>k. cap = Some k \<longrightarrow> length ((acc @ [x]) @ xs) \<le> k"
      moreover have "adv (sum_list (map c (x # xs))) p p3"
        using adv_trans [OF adv_trans [OF 1(2) that(3)] a3] by simp
      ultimately show "Q ((acc @ [x]) @ xs) p3"
        using 1(3) Suc.prems(5) [of p3 "x # xs"] by simp
    qed
    have acc: "wp n (accept tokComma) (\<lambda>cm. wp n (if cm = None then p_ret (acc @ [x])
        else comma_loop f cap over elem (acc @ [x])) Q) p1" if "cap \<noteq> Some (length acc)"
      by (rule wp_accept [OF inv [OF 1(1)]]) (use last more that keep [OF 1(1)] in \<open>auto simp: wp_ret\<close>)
    show ?case
      using acc over [OF 1(3)] by (auto simp: wp_fail wp_bind)
  qed
qed simp

lemma wp_comma_list_inv:
  assumes "J p" and "\<And>p. J p \<Longrightarrow> pinv n p" and "\<And>p p'. J p \<Longrightarrow> pinv n p' \<Longrightarrow> adv 0 p p' \<Longrightarrow> J p'"
    and "\<And>p Q. J p \<Longrightarrow> (\<And>x p'. J p' \<Longrightarrow> adv (c x) p p' \<Longrightarrow> E x \<Longrightarrow> Q x p') \<Longrightarrow> wp n elem Q p"
    and "\<And>x. E x \<Longrightarrow> cap \<noteq> None \<Longrightarrow> err_within n (over x)"
    and "\<And>xs p'. J p' \<Longrightarrow> adv (sum_list (map c xs)) p p' \<Longrightarrow> xs \<noteq> [] \<Longrightarrow> list_all E xs \<Longrightarrow>
       (\<forall>k. cap = Some k \<longrightarrow> length xs \<le> k) \<Longrightarrow> Q xs p'"
  shows "wp n (comma_list cap over elem) Q p"
proof -
  have "rem p < Suc (length (ps_toks p))" by (simp add: rem_def)
  then have "wp n (comma_loop (Suc (length (ps_toks p))) cap over elem []) Q p"
    by (intro wp_comma_loop [where c = c and E = E and J = J, OF assms(2-5) assms(1)])
      (use assms(6) in auto)
  then show ?thesis by (simp add: wp_def comma_list_def)
qed

lemma wp_comma_list:
  assumes "pinv n p"
    and "\<And>p Q. pinv n p \<Longrightarrow>
        (\<And>x p'. pinv n p' \<Longrightarrow> adv (c x) p p' \<Longrightarrow> E x \<Longrightarrow> Q x p') \<Longrightarrow> wp n elem Q p"
    and "\<And>x. E x \<Longrightarrow> cap \<noteq> None \<Longrightarrow> err_within n (over x)"
    and "\<And>xs p'. pinv n p' \<Longrightarrow> adv (sum_list (map c xs)) p p' \<Longrightarrow> xs \<noteq> [] \<Longrightarrow> list_all E xs \<Longrightarrow>
       (\<forall>k. cap = Some k \<longrightarrow> length xs \<le> k) \<Longrightarrow> Q xs p'"
  shows "wp n (comma_list cap over elem) Q p"
  by (rule wp_comma_list_inv [where J = "pinv n" and c = c and E = E]) (use assms in auto)

section \<open>Conditions\<close>

fun npreds :: "expr \<Rightarrow> nat" where
  "npreds (Logical op l r) = npreds l + npreds r"
| "npreds (Not x s) = npreds x"
| "npreds (Predicate a op vs s) = 1"

text \<open>
  A parsed condition: spans inside the query, at most 500 values in a list, exactly one for the other
  operators that take a value, none for the null tests.
\<close>

definition arity_ok :: "string \<Rightarrow> nat \<Rightarrow> bool" where
  "arity_ok op k \<longleftrightarrow>
     (if op = ''in'' \<or> op = ''not in'' then 1 \<le> k \<and> k \<le> 500
      else if op = ''is null'' \<or> op = ''is not null'' then k = 0 else k = 1)"

definition ops :: "string list" where
  "ops = [''='', ''!='', ''<'', ''<='', ''>'', ''>='', ''in'', ''not in'', ''like'', ''not like'', ''contains'',
     ''not contains'', ''is null'', ''is not null'']"

fun expr_ok :: "nat \<Rightarrow> expr \<Rightarrow> bool" where
  "expr_ok n (Logical op l r) = ((op = ''and'' \<or> op = ''or'') \<and> expr_ok n l \<and> expr_ok n r)"
| "expr_ok n (Not x s) = (span_within n s \<and> expr_ok n x)"
| "expr_ok n (Predicate a op vs s) =
     (span_within n s \<and> attr_ok n a \<and> op \<in> set ops \<and> arity_ok op (length vs) \<and> list_all (value_ok n) vs)"

lemma expr_ok_span: "expr_ok n e \<Longrightarrow> span_within n (exprSpan e)"
  by (induction e) (auto simp: span_within_def)

lemma wp_parse_list:
  assumes p: "pinv n p"
    and Q: "\<And>vs p'. pinv n p' \<Longrightarrow> adv 0 p p' \<Longrightarrow> rem p' < rem p \<Longrightarrow> list_all (value_ok n) vs \<Longrightarrow>
          1 \<le> length vs \<Longrightarrow> length vs \<le> 500 \<Longrightarrow> Q vs p'"
  shows "wp n parse_list Q p"
  unfolding parse_list_def wp_bind
proof (rule wp_expect [OF p], goal_cases)
  case (1 t p1)
  show ?case
  proof (rule wp_comma_list [where c = "\<lambda>_. 0" and E = "value_ok n", OF 1(1)], goal_cases)
    case (3 vs p2)
    then show ?case
    proof (intro wp_expect, goal_cases)
      case (2 t' p3)
      have "adv 0 p p3" "rem p3 < rem p"
        using 1 2 adv_trans [of 0 p p1 0 p2] adv_trans [of 0 p p2 0 p3] adv_rem [of 0 p1 p2] by auto
      then show ?case using 2 by (auto simp: wp_ret maxInValues_def Suc_le_eq intro!: Q)
    qed
  qed (auto intro: wp_parse_value simp: value_ok_def)
qed

lemma op_text_ops: "op_text k = Some op \<Longrightarrow> op \<in> set ops \<and> arity_ok op 1 \<and> k \<noteq> tokEOF"
  by (cases k) (auto simp: ops_def arity_ok_def)

lemma wp_one_value:
  assumes "pinv n p" and "op \<in> set ops" and "arity_ok op 1"
    and "\<And>v p'. pinv n p' \<Longrightarrow> adv 0 p p' \<Longrightarrow> value_ok n v \<Longrightarrow> Q (op, [v]) p'"
  shows "wp n (one_value op) Q p"
  unfolding one_value_def wp_bind
  by (rule wp_parse_value [OF assms(1)]) (use assms in \<open>auto simp: wp_ret\<close>)

lemma lower_upper_char: "lower_char (upper_char c) = lower_char c"
  by (auto simp: lower_char_def upper_char_def is_lower_def is_upper_def)

lemma to_lower_upper: "to_lower (to_upper s) = to_lower s"
  by (simp add: to_lower_def to_upper_def lower_upper_char)

lemma lower_like:
  "to_upper s = ''LIKE'' \<Longrightarrow> to_lower s = ''like''" "to_upper s = ''CONTAINS'' \<Longrightarrow> to_lower s = ''contains''"
  "isKeyword t ''LIKE'' \<Longrightarrow> to_lower (tk_text t) = ''like''"
  "isKeyword t ''CONTAINS'' \<Longrightarrow> to_lower (tk_text t) = ''contains''"
proof -
  have l: "to_lower ''LIKE'' = ''like''" "to_lower ''CONTAINS'' = ''contains''"
    by code_simp+
  then show "to_upper s = ''LIKE'' \<Longrightarrow> to_lower s = ''like''" "to_upper s = ''CONTAINS'' \<Longrightarrow> to_lower s = ''contains''"
    using to_lower_upper [of s] by auto
  show "isKeyword t ''LIKE'' \<Longrightarrow> to_lower (tk_text t) = ''like''"
    "isKeyword t ''CONTAINS'' \<Longrightarrow> to_lower (tk_text t) = ''contains''"
    using l by (auto simp: isKeyword_def)
qed

lemma text_ops:
  "''like'' \<in> set ops \<and> arity_ok ''like'' 1" "''contains'' \<in> set ops \<and> arity_ok ''contains'' 1"
  "''not like'' \<in> set ops \<and> arity_ok ''not like'' 1" "''not contains'' \<in> set ops \<and> arity_ok ''not contains'' 1"
  by (simp_all add: ops_def arity_ok_def)

lemma wp_parse_operator:
  assumes p: "pinv n p"
    and Q: "\<And>op vs p'. pinv n p' \<Longrightarrow> adv 0 p p' \<Longrightarrow> op \<in> set ops \<Longrightarrow> arity_ok op (length vs) \<Longrightarrow>
          list_all (value_ok n) vs \<Longrightarrow> Q (op, vs) p'"
  shows "wp n parse_operator Q p"
  unfolding parse_operator_def wp_bind
proof (rule wp_next [OF p], goal_cases)
  case (1 t p1)
  have one: "wp n (one_value op) Q p2"
    if "pinv n p2" "adv 0 p1 p2" "op \<in> set ops \<and> arity_ok op 1" for op p2
    by (rule wp_one_value)
      (use that adv_trans [OF 1(2), of 0] adv_trans [of 0 p1 p2 0] in \<open>auto intro!: Q\<close>)
  have lst: "wp n parse_list (\<lambda>vs. Q (op, vs)) p2"
    if "pinv n p2" "adv 0 p1 p2" "op = ''in'' \<or> op = ''not in''" for op p2
    by (rule wp_parse_list [OF that(1)])
      (use that adv_trans [OF 1(2), of 0] adv_trans [of 0 p1 p2 0] in \<open>auto simp: ops_def arity_ok_def intro!: Q\<close>)
  have nul: "Q (op, []) p2" if "pinv n p2" "adv 0 p1 p2" "op = ''is null'' \<or> op = ''is not null''" for op p2
    using that adv_trans [OF 1(2) that(2)] by (intro Q) (auto simp: ops_def arity_ok_def)
  have not_kw: "wp n next_tok (\<lambda>k. wp n (
      if isKeyword k ''IN'' then p_bind parse_list (\<lambda>vs. p_ret (''not in'', vs))
      else if isKeyword k ''LIKE'' \<or> isKeyword k ''CONTAINS'' then one_value (''not '' @ to_lower (tk_text k))
      else p_fail (unexpected k ''IN, LIKE or CONTAINS after NOT'')) Q) p1"
    by (rule wp_next [OF 1(1)]) (auto simp: wp_simp lower_like text_ops arity_ok_def intro!: one lst)
  have is_kw: "wp n next_tok (\<lambda>k. wp n (
      if isKeyword k ''NOT'' then
        p_bind next_tok (\<lambda>n'.
          if \<not> isKeyword n' ''NULL'' then p_fail (unexpected n' ''NULL'') else p_ret (''is not null'', []))
      else if \<not> isKeyword k ''NULL'' then p_fail (unexpected k ''NULL'')
      else p_ret (''is null'', [])) Q) p1"
  proof (rule wp_next [OF 1(1)], goal_cases)
    case (1 k p2)
    have "wp n next_tok (\<lambda>n'. wp n (if \<not> isKeyword n' ''NULL'' then p_fail (unexpected n' ''NULL'')
        else p_ret (''is not null'', [])) Q) p2"
      by (rule wp_next [OF 1(1)]) (use 1 adv_trans [OF 1(2), of 0] in \<open>auto simp: wp_ret wp_fail intro!: nul\<close>)
    then show ?case using 1 nul by (auto simp: wp_bind wp_ret wp_fail)
  qed
  show ?case
    using 1(1,3) one [of p1] lst [of p1] not_kw is_kw op_text_ops lower_like(1,2) text_ops
    by (auto simp: wp_fail wp_bind wp_ret Let_def split: option.splits)
qed

lemma wp_count_pred:
  assumes "pinv n p" and "attr_ok n a" and "ps_preds p \<le> 100"
    and "\<And>p'. pinv n p' \<Longrightarrow> adv 1 p p' \<Longrightarrow> ps_preds p' \<le> 100 \<Longrightarrow> rem p' = rem p \<Longrightarrow> ps_i p' = ps_i p \<Longrightarrow> Q () p'"
  shows "wp n (count_pred a) Q p"
  using assms
  by (auto simp: wp_def count_pred_def Let_def maxPredicates_def attr_ok_def pinv_def adv_def rem_def)

lemma wp_prev_end:
  assumes "pinv n p" and "\<And>e. e \<le> n \<Longrightarrow> Q e p"
  shows "wp n prev_end Q p"
proof -
  have "tok_within n (ps_toks p ! (ps_i p - 1))"
    using assms(1) by (intro toks_ok_nth) (auto simp: pinv_def)
  then show ?thesis using assms(2) by (auto simp: wp_def prev_end_def)
qed

text \<open>The nesting of negations, which the depth counter bounds.\<close>

fun not_depth :: "expr \<Rightarrow> nat" where
  "not_depth (Logical op l r) = max (not_depth l) (not_depth r)"
| "not_depth (Not x s) = Suc (not_depth x)"
| "not_depth (Predicate a op vs s) = 0"

lemma wp_parse_predicate:
  assumes p: "pinv n p" and le: "ps_preds p \<le> 100"
    and Q: "\<And>e p'. pinv n p' \<Longrightarrow> adv (npreds e) p p' \<Longrightarrow> rem p' < rem p \<Longrightarrow> expr_ok n e \<Longrightarrow> ps_preds p' \<le> 100 \<Longrightarrow>
          not_depth e = 0 \<Longrightarrow> Q e p'"
  shows "wp n parse_predicate Q p"
  unfolding parse_predicate_def wp_bind
proof (rule wp_parse_attr [OF p], rule wp_count_pred, assumption+, goal_cases)
  case (1 a p1)
  then show ?case using le by (simp add: adv_def)
next
  case (2 a p1 p2)
  show ?case
  proof (rule wp_parse_operator [OF 2(5)], unfold prod.case wp_bind, rule wp_prev_end, assumption, unfold wp_ret, goal_cases)
    case (1 op vs p3 e)
    have "adv 1 p p3" using adv_trans [OF 2(2,6)] 1(2) adv_trans by fastforce
    moreover have "rem p3 < rem p" using 2(3,8) adv_rem [OF 1(2)] by simp
    moreover have "sp_pos (at_span a) \<le> n" using 2(4) by (simp add: attr_ok_def span_within_def)
    ultimately show ?case using 1 2(4,7) by (intro Q) (auto simp: adv_def)
  qed
qed

definition cpre :: "nat \<Rightarrow> parser \<Rightarrow> bool" where
  "cpre n p \<longleftrightarrow> pinv n p \<and> ps_preds p \<le> 100 \<and> ps_depth p \<le> 20"

text \<open>\<open>cpost n p l e p'\<close>: from state \<open>p\<close> the condition \<open>l\<close> read before was extended to \<open>e\<close>.\<close>

definition cgrow :: "nat \<Rightarrow> parser \<Rightarrow> nat \<Rightarrow> expr \<Rightarrow> parser \<Rightarrow> bool" where
  "cgrow n p k e p' \<longleftrightarrow>
     cpre n p' \<and> expr_ok n e \<and> not_depth e + ps_depth p \<le> 20 \<and> k \<le> npreds e \<and> adv (npreds e - k) p p'"

definition cpost :: "nat \<Rightarrow> parser \<Rightarrow> expr \<Rightarrow> parser \<Rightarrow> bool" where
  "cpost n p e p' \<longleftrightarrow> cgrow n p 0 e p' \<and> rem p' < rem p"

lemma wp_nested:
  assumes "pinv n p" and "tok_within n t"
    and "ps_depth p + 1 \<le> 20 \<Longrightarrow> wp n f (\<lambda>x p'. Q x (p'\<lparr>ps_depth := ps_depth p' - 1\<rparr>)) (p\<lparr>ps_depth := ps_depth p + 1\<rparr>)"
  shows "wp n (nested t f) Q p"
proof (cases "ps_depth p + 1 \<le> 20")
  case True
  then show ?thesis
    using assms(3) by (auto simp: wp_def nested_def maxDepth_def split: sum.splits perr.splits)
next
  case False
  then show ?thesis using assms(2) by (auto simp: wp_def nested_def maxDepth_def tok_within_def)
qed

lemma npreds_pos: "0 < npreds e"
  by (induction e) auto

lemma cpre_deeper: "cpre n p \<Longrightarrow> ps_depth p + 1 \<le> 20 \<Longrightarrow> cpre n (p\<lparr>ps_depth := ps_depth p + 1\<rparr>)"
  by (simp add: cpre_def pinv_def)

lemma rem_deeper [simp]: "rem (p\<lparr>ps_depth := d\<rparr>) = rem p"
  by (simp add: rem_def)

lemma cgrow_leave:
  assumes "cgrow n (p\<lparr>ps_depth := ps_depth p + 1\<rparr>) k e p'"
  shows "cpre n (p'\<lparr>ps_depth := ps_depth p' - 1\<rparr>)" "expr_ok n e" "not_depth e + ps_depth p + 1 \<le> 20"
    "k \<le> npreds e" "adv (npreds e - k) p (p'\<lparr>ps_depth := ps_depth p' - 1\<rparr>)"
  using assms by (auto simp: cgrow_def cpre_def pinv_def adv_def)

lemma cpost_leave:
  assumes "cpost n (p\<lparr>ps_depth := ps_depth p + 1\<rparr>) e p'"
  shows "cpost n p e (p'\<lparr>ps_depth := ps_depth p' - 1\<rparr>)"
  using assms cgrow_leave [of n p 0 e p'] by (auto simp: cpost_def cgrow_def)

lemma cgrow_logical:
  assumes "cgrow n p 0 l p1" and "cpost n p1 r p2" and "op = ''and'' \<or> op = ''or''"
  shows "cgrow n p 0 (Logical op l r) p2"
  using assms adv_trans [of "npreds l" p p1 "npreds r" p2]
  by (auto simp: cpost_def cgrow_def adv_def)

lemma cgrow_step:
  assumes "cgrow n p 0 l p1" and "pinv n p2" and "adv 0 p1 p2"
  shows "cgrow n p 0 l p2"
  using assms adv_trans [of "npreds l" p p1 0 p2] by (auto simp: cgrow_def cpre_def adv_def)

text \<open>
  Enough fuel for each rule, counted in the tokens that remain; the loops are stated from the state
  \<open>p0\<close> at which the condition they extend began.
\<close>

definition cfuel :: "nat \<Rightarrow> nat \<Rightarrow> bool" where
  "cfuel n f \<longleftrightarrow>
     (\<forall>p. cpre n p \<longrightarrow> 4 * rem p + 4 \<le> f \<longrightarrow> wp n (parse_cond f) (cpost n p) p) \<and>
     (\<forall>p0 p l. cgrow n p0 0 l p \<longrightarrow> 4 * rem p + 1 \<le> f \<longrightarrow> wp n (or_loop f l) (\<lambda>e p'. cgrow n p0 0 e p' \<and> rem p' \<le> rem p) p) \<and>
     (\<forall>p. cpre n p \<longrightarrow> 4 * rem p + 3 \<le> f \<longrightarrow> wp n (parse_and f) (cpost n p) p) \<and>
     (\<forall>p0 p l. cgrow n p0 0 l p \<longrightarrow> 4 * rem p + 1 \<le> f \<longrightarrow> wp n (and_loop f l) (\<lambda>e p'. cgrow n p0 0 e p' \<and> rem p' \<le> rem p) p) \<and>
     (\<forall>p. cpre n p \<longrightarrow> 4 * rem p + 2 \<le> f \<longrightarrow> wp n (parse_not f) (cpost n p) p)"

lemma wp_or_loop:
  assumes IH: "cfuel n f" and g: "cgrow n p0 0 l p" and f: "4 * rem p + 1 \<le> Suc f"
  shows "wp n (or_loop (Suc f) l) (\<lambda>e p'. cgrow n p0 0 e p' \<and> rem p' \<le> rem p) p"
proof -
  have p: "pinv n p" using g by (simp add: cgrow_def cpre_def)
  show ?thesis
    unfolding or_loop.simps wp_bind
  proof (rule wp_acceptKeyword [OF p], goal_cases)
    case (1 p1)
    then show ?case using cgrow_step [OF g] adv_rem [OF 1(2)] by (simp add: wp_ret)
  next
    case (2 t p1)
    have g1: "cgrow n p0 0 l p1" using cgrow_step [OF g 2(1,2)] .
    then have "wp n (parse_and f) (cpost n p1) p1"
      using IH 2(4) f by (auto simp: cfuel_def cgrow_def)
    then have "wp n (parse_and f) (\<lambda>r. wp n (or_loop f (Logical ''or'' l r))
        (\<lambda>e p'. cgrow n p0 0 e p' \<and> rem p' \<le> rem p)) p1"
    proof (rule wp_mono)
      fix r p2 assume r: "cpost n p1 r p2"
      then have "cgrow n p0 0 (Logical ''or'' l r) p2" using g1 by (blast intro: cgrow_logical)
      moreover have "4 * rem p2 + 1 \<le> f" "rem p2 \<le> rem p" using r 2(4) f by (auto simp: cpost_def)
      ultimately show "wp n (or_loop f (Logical ''or'' l r)) (\<lambda>e p'. cgrow n p0 0 e p' \<and> rem p' \<le> rem p) p2"
        using IH unfolding cfuel_def by (blast intro: wp_mono order_trans)
    qed
    then show ?case by (simp add: wp_bind)
  qed
qed

lemma wp_and_loop:
  assumes IH: "cfuel n f" and g: "cgrow n p0 0 l p" and f: "4 * rem p + 1 \<le> Suc f"
  shows "wp n (and_loop (Suc f) l) (\<lambda>e p'. cgrow n p0 0 e p' \<and> rem p' \<le> rem p) p"
proof -
  have p: "pinv n p" using g by (simp add: cgrow_def cpre_def)
  show ?thesis
    unfolding and_loop.simps wp_bind
  proof (rule wp_acceptKeyword [OF p], goal_cases)
    case (1 p1)
    then show ?case using cgrow_step [OF g] adv_rem [OF 1(2)] by (simp add: wp_ret)
  next
    case (2 t p1)
    have g1: "cgrow n p0 0 l p1" using cgrow_step [OF g 2(1,2)] .
    then have "wp n (parse_not f) (cpost n p1) p1"
      using IH 2(4) f by (auto simp: cfuel_def cgrow_def)
    then have "wp n (parse_not f) (\<lambda>r. wp n (and_loop f (Logical ''and'' l r))
        (\<lambda>e p'. cgrow n p0 0 e p' \<and> rem p' \<le> rem p)) p1"
    proof (rule wp_mono)
      fix r p2 assume r: "cpost n p1 r p2"
      then have "cgrow n p0 0 (Logical ''and'' l r) p2" using g1 by (blast intro: cgrow_logical)
      moreover have "4 * rem p2 + 1 \<le> f" "rem p2 \<le> rem p" using r 2(4) f by (auto simp: cpost_def)
      ultimately show "wp n (and_loop f (Logical ''and'' l r)) (\<lambda>e p'. cgrow n p0 0 e p' \<and> rem p' \<le> rem p) p2"
        using IH unfolding cfuel_def by (blast intro: wp_mono order_trans)
    qed
    then show ?case by (simp add: wp_bind)
  qed
qed

lemma wp_parse_and:
  assumes IH: "cfuel n f" and p: "cpre n p" and f: "4 * rem p + 3 \<le> Suc f"
  shows "wp n (parse_and (Suc f)) (cpost n p) p"
proof -
  have "wp n (parse_not f) (cpost n p) p" using IH p f by (auto simp: cfuel_def)
  then show ?thesis
    unfolding parse_and.simps wp_bind
  proof (rule wp_mono)
    fix l p1 assume l: "cpost n p l p1"
    then have "wp n (and_loop f l) (\<lambda>e p'. cgrow n p 0 e p' \<and> rem p' \<le> rem p1) p1"
      using IH f unfolding cfuel_def cpost_def by auto
    then show "wp n (and_loop f l) (cpost n p) p1"
      by (rule wp_mono) (use l in \<open>auto simp: cpost_def\<close>)
  qed
qed

lemma wp_parse_cond:
  assumes IH: "cfuel n f" and p: "cpre n p" and f: "4 * rem p + 4 \<le> Suc f"
  shows "wp n (parse_cond (Suc f)) (cpost n p) p"
proof -
  have pi: "pinv n p" using p by (simp add: cpre_def)
  let ?p = "p\<lparr>ps_depth := ps_depth p + 1\<rparr>"
  have "wp n (p_bind (parse_and f) (or_loop f)) (\<lambda>e p'. cpost n p e (p'\<lparr>ps_depth := ps_depth p' - 1\<rparr>)) ?p"
    if d: "ps_depth p + 1 \<le> 20"
  proof -
    have "wp n (parse_and f) (cpost n ?p) ?p"
      using IH cpre_deeper [OF p d] f by (auto simp: cfuel_def)
    then show ?thesis
      unfolding wp_bind
    proof (rule wp_mono)
      fix l p1 assume l: "cpost n ?p l p1"
      then have "wp n (or_loop f l) (\<lambda>e p'. cgrow n ?p 0 e p' \<and> rem p' \<le> rem p1) p1"
        using IH f unfolding cfuel_def cpost_def by auto
      then show "wp n (or_loop f l) (\<lambda>e p'. cpost n p e (p'\<lparr>ps_depth := ps_depth p' - 1\<rparr>)) p1"
      proof (rule wp_mono)
        fix e p2 assume "cgrow n ?p 0 e p2 \<and> rem p2 \<le> rem p1"
        then have "cpost n ?p e p2" using l by (simp add: cpost_def)
        then show "cpost n p e (p2\<lparr>ps_depth := ps_depth p2 - 1\<rparr>)" by (rule cpost_leave)
      qed
    qed
  qed
  then show ?thesis
    unfolding parse_cond.simps wp_bind wp_peek using pi pinv_tok [OF pi] by (intro wp_nested) (auto simp: wp_bind)
qed

lemma wp_parse_not:
  assumes IH: "cfuel n f" and p: "cpre n p" and f: "4 * rem p + 2 \<le> Suc f"
  shows "wp n (parse_not (Suc f)) (cpost n p) p"
proof -
  let ?t = "ps_toks p ! ps_i p"
  have pi: "pinv n p" and t: "tok_within n ?t" using p pinv_tok by (auto simp: cpre_def)
  have after: "wp n next_tok (\<lambda>_. wp n g (cpost n p)) p"
    if "tk_kind ?t \<noteq> tokEOF"
      and g: "\<And>p1. cpre n p1 \<Longrightarrow> adv 0 p p1 \<Longrightarrow> rem p1 < rem p \<Longrightarrow> wp n g (cpost n p) p1" for g
    by (rule wp_next [OF pi]) (use that(1) p in \<open>auto simp: cpre_def adv_def intro!: g\<close>)
  have neg: "wp n (nested ?t (p_bind (parse_not f) (\<lambda>x.
      p_ret (Not x (mk_span (tk_pos ?t) (sp_end (exprSpan x))))))) (cpost n p) p1"
    if p1: "cpre n p1" "adv 0 p p1" "rem p1 < rem p" for p1
  proof (rule wp_nested)
    show "pinv n p1" using p1 by (simp add: cpre_def)
    show "tok_within n ?t" by (rule t)
    let ?p = "p1\<lparr>ps_depth := ps_depth p1 + 1\<rparr>"
    assume d: "ps_depth p1 + 1 \<le> 20"
    have "wp n (parse_not f) (cpost n ?p) ?p"
      using IH cpre_deeper [OF p1(1) d] p1(3) f by (auto simp: cfuel_def)
    then show "wp n (p_bind (parse_not f) (\<lambda>x. p_ret (Not x (mk_span (tk_pos ?t) (sp_end (exprSpan x))))))
        (\<lambda>e p'. cpost n p e (p'\<lparr>ps_depth := ps_depth p' - 1\<rparr>)) ?p"
      unfolding wp_bind wp_ret
    proof (rule wp_mono)
      fix x p2 assume x: "cpost n ?p x p2"
      have "sp_end (exprSpan x) \<le> n"
        using x expr_ok_span [of n x] by (auto simp: cpost_def cgrow_def span_within_def)
      then show "cpost n p (Not x (mk_span (tk_pos ?t) (sp_end (exprSpan x)))) (p2\<lparr>ps_depth := ps_depth p2 - 1\<rparr>)"
        using x t p1 cgrow_leave [of n p1 0 x p2] by (auto simp: cpost_def cgrow_def adv_def)
    qed
  qed
  have paren: "wp n (p_bind (parse_cond f) (\<lambda>e. p_bind (expect tokRParen) (\<lambda>_. p_ret e))) (cpost n p) p1"
    if p1: "cpre n p1" "adv 0 p p1" "rem p1 < rem p" for p1
  proof -
    have "wp n (parse_cond f) (cpost n p1) p1" using IH p1 f by (auto simp: cfuel_def)
    then show ?thesis
      unfolding wp_bind wp_ret
    proof (rule wp_mono)
      fix e p2 assume e: "cpost n p1 e p2"
      then have "pinv n p2" by (simp add: cpost_def cgrow_def cpre_def)
      then show "wp n (expect tokRParen) (\<lambda>_. cpost n p e) p2"
        by (rule wp_expect) (use e p1 in \<open>auto simp: cpost_def cgrow_def cpre_def adv_def\<close>)
    qed
  qed
  have pred: "wp n parse_predicate (cpost n p) p"
  proof (rule wp_parse_predicate [OF pi], goal_cases)
    case 1
    then show ?case using p by (simp add: cpre_def)
  next
    case (2 e p')
    then show ?case using p by (auto simp: cpost_def cgrow_def cpre_def adv_def)
  qed
  show ?thesis
    using after [OF _ neg] after [OF _ paren] pred
    by (simp add: wp_bind wp_peek keyword_not_eof)
qed

lemma cfuel_all: "cfuel n f"
proof (induction f)
  case (Suc f)
  show ?case
    unfolding cfuel_def
    using wp_parse_cond [OF Suc] wp_or_loop [OF Suc] wp_parse_and [OF Suc] wp_and_loop [OF Suc] wp_parse_not [OF Suc]
    by blast
qed (simp add: cfuel_def)

lemma wp_cond: "cpre n p \<Longrightarrow> wp n cond (cpost n p) p"
proof -
  assume p: "cpre n p"
  have "4 * rem p + 4 \<le> 4 * length (ps_toks p) + 4" by (simp add: rem_def)
  then have "wp n (parse_cond (4 * length (ps_toks p) + 4)) (cpost n p) p"
    using cfuel_all [of n "4 * length (ps_toks p) + 4"] p unfolding cfuel_def by blast
  then show ?thesis by (simp add: wp_def cond_def)
qed

section \<open>Aggregates\<close>

fun apreds :: "agg \<Rightarrow> nat" where
  "apreds (Agg fn name star arg inner levels per c ceil buckets sp txt) =
     (case inner of None \<Rightarrow> 0 | Some i \<Rightarrow> apreds i) + (case c of None \<Rightarrow> 0 | Some e \<Rightarrow> npreds e)"

fun agg_depth :: "agg \<Rightarrow> nat" where
  "agg_depth (Agg fn name star arg inner levels per c ceil buckets sp txt) =
     Suc (case inner of None \<Rightarrow> 0 | Some i \<Rightarrow> agg_depth i)"

text \<open>The arguments each function has, so that no field it uses is nil.\<close>

definition shape_ok :: "string \<Rightarrow> bool \<Rightarrow> attr option \<Rightarrow> agg option \<Rightarrow> f64 list \<Rightarrow> durationLit option \<Rightarrow> expr option \<Rightarrow> bool" where
  "shape_ok fn star arg inner levels per c \<longleftrightarrow>
     (if fn = ''rate'' then arg = None \<and> inner \<noteq> None \<and> per \<noteq> None \<and> c = None
      else if fn = ''filter'' then arg = None \<and> inner \<noteq> None \<and> c \<noteq> None
      else inner = None \<and> c = None \<and> (arg \<noteq> None \<or> (fn = ''count'' \<and> star))) \<and>
     (levels \<noteq> [] \<longleftrightarrow> fn = ''percentile'' \<or> fn = ''median'')"

fun agg_ok :: "nat \<Rightarrow> agg \<Rightarrow> bool" where
  "agg_ok n (Agg fn name star arg inner levels per c ceil buckets sp txt) \<longleftrightarrow>
     span_within n sp \<and> funcNames fn = Some fn \<and> shape_ok fn star arg inner levels per c \<and>
     (\<forall>a. arg = Some a \<longrightarrow> attr_ok n a) \<and> list_all finite_num levels \<and> (\<forall>d. per = Some d \<longrightarrow> dur_ok n d) \<and>
     (\<forall>e. c = Some e \<longrightarrow> expr_ok n e) \<and>
     (fn = ''histogram'' \<longrightarrow> finite_num ceil \<and> 1 \<le> buckets \<and> buckets \<le> 200) \<and>
     (case inner of None \<Rightarrow> True | Some i \<Rightarrow> agg_ok n i)"

text \<open>\<open>m\<close> bounds the depth counter plus the nesting of the result.\<close>

definition apost :: "nat \<Rightarrow> nat \<Rightarrow> parser \<Rightarrow> agg \<Rightarrow> parser \<Rightarrow> bool" where
  "apost n m p a p' \<longleftrightarrow>
     cpre n p' \<and> adv (apreds a) p p' \<and> agg_ok n a \<and> agg_depth a + ps_depth p \<le> m"

lemma set_text_ok [simp]:
  "apreds (set_text sp txt a) = apreds a" "agg_depth (set_text sp txt a) = agg_depth a"
  "span_within n sp \<Longrightarrow> agg_ok n a \<Longrightarrow> agg_ok n (set_text sp txt a)"
  by (cases a; simp add: set_text_def span_within_def zero_span_def)+

lemma apostI:
  assumes "cpre n p" "pinv n p'" "adv 0 p p'" "agg_ok n a" "apreds a = 0" "agg_depth a = 1"
  shows "apost n 21 p a p'"
  using assms by (auto simp: apost_def cpre_def adv_def)

lemma zero_span_within [simp]: "span_within n zero_span"
  by (simp add: zero_span_def)

lemma wp_with_arg:
  assumes p: "cpre n p" and fn: "funcNames fn = Some fn" "fn \<notin> {''rate'', ''filter'', ''histogram''}"
    and lv: "levels \<noteq> [] \<longleftrightarrow> fn = ''percentile'' \<or> fn = ''median''" "list_all finite_num levels"
  shows "wp n (with_arg fn name levels) (apost n 21 p) p"
proof -
  have "pinv n p" using p by (simp add: cpre_def)
  then show ?thesis
    unfolding with_arg_def wp_bind wp_ret
    by (rule wp_parse_attr, intro apostI) (use assms in \<open>simp_all add: shape_ok_def\<close>)
qed

lemma buckets_bounds:
  assumes "finite_num v" and "\<not> f_lt v (f_of_int 1)" and "\<not> f_gt v (f_of_int 200)"
  shows "1 \<le> f_to_int v \<and> f_to_int v \<le> 200"
proof -
  have c: "f_of_int 1 = FNum False 1" "f_of_int 200 = FNum False 200"
    using f_of_int_exact [of 1] f_of_int_exact [of 200] by simp_all
  obtain s m where v: "v = FNum s m" "0 \<le> m" using assms(1) by (auto simp: finite_num_def)
  have "of_int 1 \<le> fval v" "fval v \<le> of_int 200"
    using assms(2,3) v c by (simp_all del: fval.simps) simp_all
  then show ?thesis using v by (intro f_to_int_bounds) auto
qed

lemma wp_histogram_args:
  assumes p: "cpre n p"
  shows "wp n (histogram_args ''histogram'' name) (apost n 21 p) p"
proof -
  have pi: "pinv n p" using p by (simp add: cpre_def)
  have hist: "apost n 21 p (Agg ''histogram'' name False (Some a) None [] None None ceil b zero_span []) p'"
    if "pinv n p'" "adv 0 p p'" "attr_ok n a" "finite_num ceil" "1 \<le> b" "b \<le> 200" for a ceil b p'
    using p that by (intro apostI) (auto simp: shape_ok_def funcNames_def)
  show ?thesis
    unfolding histogram_args_def wp_bind
  proof (rule wp_parse_attr [OF pi], rule wp_expect, assumption, rule wp_parse_number, assumption, unfold prod.case wp_bind,
      rule wp_accept, assumption, goal_cases)
    case (1 a p1 t p2 ceil sp p3 p4)
    have "adv 0 p p4" using 1 by (auto simp: adv_def)
    then show ?case using 1 by (auto simp: wp_ret intro!: hist)
  next
    case (2 a p1 t p2 ceil sp p3 cm p4)
    have a4: "adv 0 p p4" using 2 by (auto simp: adv_def)
    have num: "wp n parse_number (\<lambda>x. wp n (case x of (v, sp) \<Rightarrow>
         if \<not> f_eq v (f_trunc v) \<or> f_lt v (f_of_int 1) \<or> f_gt v (f_of_int 200)
         then p_fail (span_err sp ''histogram buckets must be an integer between 1 and 200'' [])
         else p_ret (Agg ''histogram'' name False (Some a) None [] None None ceil (f_to_int v) zero_span [])) (apost n 21 p)) p4"
    proof (rule wp_parse_number [OF 2(15)], goal_cases)
      case (1 v sp' p5)
      then show ?case
        using 2 adv_trans [OF a4 1(2)] buckets_bounds [OF 1(4)] by (auto simp: wp_fail wp_ret intro!: hist)
    qed
    show ?case using num by (simp add: wp_bind)
  qed
qed

text \<open>The functions that contain another aggregate.\<close>

lemma apost_wrap:
  assumes "apost n 20 p i p1" and "cpre n p2" and "adv k p1 p2"
    and "fn = ''rate'' \<and> k = 0 \<and> per \<noteq> None \<and> c = None \<or> fn = ''filter'' \<and> (\<exists>e. c = Some e \<and> k = npreds e \<and> expr_ok n e)"
    and "\<forall>d. per = Some d \<longrightarrow> dur_ok n d"
  shows "apost n 21 p (Agg fn name False None (Some i) [] per c (FNum False 0) 0 zero_span []) p2"
  using assms adv_trans [of "apreds i" p p1 k p2]
  by (auto simp: apost_def shape_ok_def funcNames_def)

lemma wp_agg_args:
  assumes p: "cpre n p" and fn: "funcNames fn = Some fn"
    and inner: "wp n inner (apost n 20 p) p"
  shows "wp n (agg_args inner fn name) (apost n 21 p) p"
proof -
  have pi: "pinv n p" using p by (simp add: cpre_def)
  have star: "apost n 21 p (Agg ''count'' name True None None [] None None (FNum False 0) 0 zero_span []) p'"
    if "pinv n p'" "adv 0 p p'" for p'
    using p that by (intro apostI) (auto simp: shape_ok_def funcNames_def)
  have count: "wp n (accept tokStar) (\<lambda>st. wp n (if st \<noteq> None
        then p_ret (Agg ''count'' name True None None [] None None (FNum False 0) 0 zero_span [])
        else with_arg ''count'' name []) (apost n 21 p)) p"
  proof (rule wp_accept [OF pi], goal_cases)
    case (1 p1)
    then have p1: "cpre n p1" using p by (simp add: cpre_def adv_def)
    have "wp n (with_arg ''count'' name []) (apost n 21 p1) p1"
      by (rule wp_with_arg [OF p1]) (auto simp: funcNames_def)
    then have "wp n (with_arg ''count'' name []) (apost n 21 p) p1"
      by (rule wp_mono) (use 1 in \<open>auto simp: apost_def adv_def\<close>)
    then show ?case by simp
  next
    case (2 t p1)
    then show ?case using star by (simp add: wp_ret)
  qed
  have perc: "wp n parse_attr (\<lambda>a. wp n (expect tokComma) (\<lambda>_.
      wp n (comma_list None (\<lambda>_. errAt 0 0 [] []) parse_number) (\<lambda>levels. apost n 21 p
        (Agg ''percentile'' name False (Some a) None (map fst levels) None None (FNum False 0) 0 zero_span [])))) p"
  proof (rule wp_parse_attr [OF pi], rule wp_expect, assumption, goal_cases)
    case (1 a p1 t p2)
    show ?case
    proof (rule wp_comma_list [where c = "\<lambda>_. 0" and E = "\<lambda>x. finite_num (fst x)", OF 1(5)], goal_cases)
      case (1 p' Q')
      then show ?case by (auto intro: wp_parse_number)
    next
      case (3 lv p3)
      have "adv 0 p p3" using 3 1(1-9) \<open>adv 0 p p1\<close> \<open>adv 0 p1 p2\<close> by (auto simp: adv_def)
      then show ?case
        using 3 p \<open>attr_ok n a\<close> by (intro apostI) (auto simp: shape_ok_def funcNames_def list_all_iff)
    qed simp
  qed
  have rate: "wp n inner (\<lambda>i. wp n (expect tokComma) (\<lambda>_. wp n parse_duration (\<lambda>per. apost n 21 p
      (Agg ''rate'' name False None (Some i) [] (Some per) None (FNum False 0) 0 zero_span [])))) p"
    using inner
  proof (rule wp_mono)
    fix i p1 assume i: "apost n 20 p i p1"
    then have "pinv n p1" by (simp add: apost_def cpre_def)
    then show "wp n (expect tokComma) (\<lambda>_. wp n parse_duration (\<lambda>per. apost n 21 p
        (Agg ''rate'' name False None (Some i) [] (Some per) None (FNum False 0) 0 zero_span []))) p1"
    proof (rule wp_expect, intro wp_parse_duration, goal_cases)
      case (2 t p2 d p3)
      have "adv 0 p1 p3" "cpre n p3" using 2 i by (auto simp: adv_def apost_def cpre_def)
      then show ?case using 2 apost_wrap [OF i, of p3 0] by auto
    qed
  qed
  have filt: "wp n inner (\<lambda>i. wp n (expect tokComma) (\<lambda>_. wp n (expectKeyword ''WHERE'') (\<lambda>_. wp n cond (\<lambda>c. apost n 21 p
      (Agg ''filter'' name False None (Some i) [] None (Some c) (FNum False 0) 0 zero_span []))))) p"
    using inner
  proof (rule wp_mono)
    fix i p1 assume i: "apost n 20 p i p1"
    then have "pinv n p1" by (simp add: apost_def cpre_def)
    then show "wp n (expect tokComma) (\<lambda>_. wp n (expectKeyword ''WHERE'') (\<lambda>_. wp n cond (\<lambda>c. apost n 21 p
        (Agg ''filter'' name False None (Some i) [] None (Some c) (FNum False 0) 0 zero_span [])))) p1"
    proof (rule wp_expect, intro wp_expectKeyword, goal_cases)
      case (2 t p2 k p3)
      have a: "adv 0 p1 p3" "cpre n p3" using 2 i by (auto simp: adv_def apost_def cpre_def)
      show ?case
        using wp_cond [OF a(2)]
      proof (rule wp_mono)
        fix c p4 assume c: "cpost n p3 c p4"
        then have "cpre n p4" "adv (npreds c) p1 p4" "expr_ok n c"
          using adv_trans [OF a(1)] by (auto simp: cpost_def cgrow_def)
        then show "apost n 21 p (Agg ''filter'' name False None (Some i) [] None (Some c) (FNum False 0) 0 zero_span []) p4"
          by (intro apost_wrap [OF i]) auto
      qed
    qed
  qed
  have fifty: "finite_num (f_of_int 50)" using f_of_int_exact [of 50] by (auto simp: finite_num_def)
  consider "fn = ''count''" | "fn = ''percentile''" | "fn = ''rate''" | "fn = ''filter''" | "fn = ''histogram''"
    | "fn \<notin> {''count'', ''percentile'', ''rate'', ''filter'', ''histogram''}" by blast
  then show ?thesis
  proof cases
    case 6
    have "wp n (with_arg fn name (if fn = ''median'' then [f_of_int 50] else [])) (apost n 21 p) p"
      by (rule wp_with_arg [OF p fn]) (use 6 fifty in auto)
    then show ?thesis using 6 by (simp add: agg_args_def)
  qed (use count perc rate filt wp_histogram_args [OF p] in \<open>simp_all add: agg_args_def wp_bind wp_ret\<close>)
qed

lemma apost_leave:
  assumes "apost n 21 (p\<lparr>ps_depth := ps_depth p + 1\<rparr>) a p'"
  shows "apost n 20 p a (p'\<lparr>ps_depth := ps_depth p' - 1\<rparr>)"
  using assms by (auto simp: apost_def cpre_def pinv_def adv_def)

lemma wp_state: "wp n (\<lambda>p. f (g p) p) Q p \<longleftrightarrow> wp n (f (g p)) Q p"
  by (simp add: wp_def)

lemma wp_close_agg:
  assumes a: "apost n 21 p a p1" and t: "tok_within n t"
  shows "wp n (close_agg t lp a) (apost n 21 p) p1"
proof -
  have p1: "pinv n p1" using a by (simp add: apost_def cpre_def)
  show ?thesis
    unfolding close_agg_def wp_bind
  proof (rule wp_expect [OF p1], goal_cases)
    case (1 rp p2)
    have "tk_pos t \<le> n" "tk_end rp \<le> n" using t 1(3) by auto
    then have "apost n 21 p (set_text (mk_span (tk_pos t) (tk_end rp)) args a) p2" for args
      using a 1 adv_trans [of "apreds a" p p1 0 p2] by (auto simp: apost_def cpre_def adv_def)
    then show ?case by (simp add: wp_def p_ret_def)
  qed
qed

lemma funcNames_idem:
  assumes "funcNames s = Some fn"
  shows "funcNames fn = Some fn"
proof (cases "s = ''avg''")
  case True
  then show ?thesis using assms by (simp add: funcNames_def)
next
  case False
  then have "s = fn" using assms by (simp add: funcNames_def split: if_split_asm)
  then show ?thesis using assms by simp
qed

lemma wp_parse_agg: "cpre n p \<Longrightarrow> rem p < f \<Longrightarrow> wp n (parse_agg f) (apost n 20 p) p"
proof (induction f arbitrary: p)
  case (Suc f)
  have pi: "pinv n p" using Suc.prems by (simp add: cpre_def)
  show ?case
    unfolding parse_agg.simps wp_bind
  proof (rule wp_next [OF pi], goal_cases)
    case (1 t p1)
    have t: "tk_pos t \<le> n" "tk_end t \<le> n" using 1(3) by auto
    let ?p = "p1\<lparr>ps_depth := ps_depth p1 + 1\<rparr>"
    have call: "wp n (p_bind (expect tokLParen) (\<lambda>lp. p_bind (agg_args (parse_agg f) fn (tk_text t)) (close_agg t lp)))
        (apost n 21 ?p) ?p" if fn: "funcNames fn = Some fn" and k: "tk_kind t = tokIdent" and d: "ps_depth p1 + 1 \<le> 20" for fn
      unfolding wp_bind
    proof (rule wp_expect, goal_cases)
      case 1
      then show ?case using \<open>pinv n p1\<close> by (simp add: pinv_def)
    next
      case (2 lp p2)
      have p2: "cpre n p2" using 2 Suc.prems(1) \<open>adv 0 p p1\<close> d by (auto simp: cpre_def adv_def)
      have "rem p2 < f" using 2 1(5) k Suc.prems(2) by simp
      then have "wp n (agg_args (parse_agg f) fn (tk_text t)) (apost n 21 p2) p2"
        using wp_agg_args [OF p2 fn Suc.IH [OF p2]] by blast
      then show ?case
      proof (rule wp_mono)
        fix a p3 assume "apost n 21 p2 a p3"
        then have "apost n 21 ?p a p3" using 2(2) adv_trans [of 0 ?p p2 "apreds a" p3] by (auto simp: apost_def adv_def)
        then show "wp n (close_agg t lp a) (apost n 21 ?p) p3" using 1(3) by (rule wp_close_agg)
      qed
    qed
    have body: "wp n (if tk_kind t \<noteq> tokIdent then p_fail (unexpected t ''an aggregate function such as count(*)'')
       else case funcNames (to_lower (tk_text t)) of
         None \<Rightarrow>
           p_bind peek (\<lambda>n.
             if tk_kind n = tokLParen
             then p_fail (errAt (tk_pos t) (tk_end t) ''unknown function %q'' [truncate_str (tk_text t) 64])
             else p_fail (errAt (tk_pos t) (tk_end t)
                ''expected an aggregate function such as count(*), found %q (select items must be aggregates)''
                [truncate_str (tk_text t) 64]))
       | Some fn \<Rightarrow>
           p_bind (expect tokLParen) (\<lambda>lp.
           p_bind (agg_args (parse_agg f) fn (tk_text t)) (close_agg t lp)))
       (\<lambda>a p'. apost n 20 p a (p'\<lparr>ps_depth := ps_depth p' - 1\<rparr>)) ?p" if d: "ps_depth p1 + 1 \<le> 20"
    proof (cases "funcNames (to_lower (tk_text t))")
      case None
      then show ?thesis using t 1(3) by (simp add: wp_simp)
    next
      case (Some fn)
      have "wp n (p_bind (expect tokLParen) (\<lambda>lp. p_bind (agg_args (parse_agg f) fn (tk_text t)) (close_agg t lp)))
          (\<lambda>a p'. apost n 20 p a (p'\<lparr>ps_depth := ps_depth p' - 1\<rparr>)) ?p" if "tk_kind t = tokIdent"
        by (rule wp_mono [OF call [OF funcNames_idem [OF Some] that d]])
          (use apost_leave [of n p1] 1(2) in \<open>auto simp: apost_def adv_def\<close>)
      then show ?thesis using Some 1(3) by (simp add: wp_fail)
    qed
    show ?case using 1(1,3) body by (rule wp_nested)
  qed
qed simp

lemma wp_agg: "cpre n p \<Longrightarrow> wp n agg (apost n 20 p) p"
  using wp_parse_agg [of n p "Suc (length (ps_toks p))"] by (simp add: wp_def agg_def rem_def)

section \<open>The query\<close>

definition item_ok :: "nat \<Rightarrow> selectItem \<Rightarrow> bool" where
  "item_ok n it \<longleftrightarrow>
     agg_ok n (si_agg it) \<and> agg_depth (si_agg it) \<le> 20 \<and> span_within n (si_span it) \<and>
     length (si_alias it) \<le> 128 \<and> \<not> list_ex isControl (si_alias it)"

lemma agg_ok_span: "agg_ok n a \<Longrightarrow> span_within n (ag_span a)"
  by (cases a) simp

lemma wp_parse_item:
  assumes p: "cpre n p" and d: "ps_depth p = 0"
    and Q: "\<And>it p'. cpre n p' \<Longrightarrow> adv (apreds (si_agg it)) p p' \<Longrightarrow> item_ok n it \<Longrightarrow> Q it p'"
  shows "wp n parse_item Q p"
  unfolding parse_item_def wp_bind
proof (rule wp_mono [OF wp_agg [OF p]])
  fix a p1 assume a: "apost n 20 p a p1"
  then have p1: "pinv n p1" and sp: "span_within n (ag_span a)" using agg_ok_span by (auto simp: apost_def cpre_def)
  have named: "Q \<lparr>si_agg = a, si_alias = s, si_span = e\<rparr> p'"
    if "pinv n p'" "adv 0 p1 p'" "span_within n e" "length s \<le> 128" "\<not> list_ex isControl s" for p' s e
    using that a d adv_trans [of "apreds a" p p1 0 p'] by (intro Q) (auto simp: apost_def item_ok_def cpre_def adv_def)
  show "wp n (acceptKeyword ''AS'') (\<lambda>as. wp n (if as = None
      then p_ret \<lparr>si_agg = a, si_alias = [], si_span = ag_span a\<rparr>
      else p_bind next_tok (\<lambda>t.
         if (tk_kind t \<noteq> tokIdent \<and> tk_kind t \<noteq> tokString \<and> tk_kind t \<noteq> tokQuotedIdent) \<or>
            (tk_kind t = tokIdent \<and> reserved (to_lower (tk_text t)))
         then p_fail (unexpected t ''an alias'')
         else if tk_text t = [] \<or> length (tk_text t) > maxAliasBytes \<or> list_ex isControl (tk_text t)
         then p_fail (errAt (tk_pos t) (tk_end t) ''alias must be 1-%d bytes without control characters''
                [show_nat maxAliasBytes])
         else p_ret \<lparr>si_agg = a, si_alias = tk_text t, si_span = mk_span (sp_pos (ag_span a)) (tk_end t)\<rparr>)) Q) p1"
  proof (rule wp_acceptKeyword [OF p1], goal_cases)
    case (1 p2)
    then show ?case using named [of p2] sp by (simp add: wp_ret)
  next
    case (2 k p2)
    show ?case
      unfolding if_not_P [OF option.simps(3)] wp_bind
    proof (rule wp_next [OF 2(1)], goal_cases)
      case (1 t p3)
      have "adv 0 p1 p3" using adv_trans [OF 2(2) 1(2)] by simp
      moreover have "tk_pos t \<le> n" "tk_end t \<le> n" using 1(3) by auto
      moreover have "sp_pos (ag_span a) \<le> n" using sp by (simp add: span_within_def)
      ultimately show ?case using 1(1,3) named [of p3] by (auto simp: wp_ret wp_fail maxAliasBytes_def)
    qed
  qed
qed

definition qpreds :: "oql_query \<Rightarrow> nat" where
  "qpreds q = sum_list (map (\<lambda>it. apreds (si_agg it)) (qu_select q)) +
     (case qu_where q of None \<Rightarrow> 0 | Some e \<Rightarrow> npreds e)"

text \<open>A query that keeps the limits of the language.\<close>

definition query_ok :: "nat \<Rightarrow> oql_query \<Rightarrow> bool" where
  "query_ok n q \<longleftrightarrow>
     qu_select q \<noteq> [] \<and> length (qu_select q) \<le> 20 \<and> list_all (item_ok n) (qu_select q) \<and>
     length (qu_facets q) \<le> 5 \<and> list_all (attr_ok n) (qu_facets q) \<and>
     (\<exists>et \<in> set eventTypes. qu_eventType q = et_name et) \<and> span_within n (qu_eventSpan q) \<and>
     (\<forall>e. qu_where q = Some e \<longrightarrow> expr_ok n e \<and> not_depth e \<le> 20) \<and> qpreds q \<le> 100 \<and>
     (\<forall>t. qu_since q = Some t \<longrightarrow> time_ok n t) \<and> (\<forall>t. qu_until q = Some t \<longrightarrow> time_ok n t) \<and>
     (\<forall>c. qu_timeseries q = Some c \<longrightarrow> series_ok n c) \<and> (\<forall>l. qu_limit q = Some l \<longrightarrow> limit_ok n l) \<and>
     (\<forall>d. qu_compare q = Some d \<longrightarrow> dur_ok n d)"

text \<open>Between clauses the predicate counter is the number of predicates of the query so far.\<close>

definition qstate :: "nat \<Rightarrow> oql_query \<Rightarrow> parser \<Rightarrow> bool" where
  "qstate n q p \<longleftrightarrow> cpre n p \<and> ps_depth p = 0 \<and> query_ok n q \<and> ps_preds p = qpreds q"

lemma wp_compare_clause:
  assumes p: "pinv n p" and t: "tok_within n t"
    and Q: "\<And>d p'. pinv n p' \<Longrightarrow> adv 0 p p' \<Longrightarrow> dur_ok n d \<Longrightarrow> Q d p'"
  shows "wp n (compare_clause t) Q p"
  unfolding compare_clause_def wp_bind
proof (rule wp_expectKeyword [OF p], rule wp_parse_duration, assumption, rule wp_expectKeyword, assumption, goal_cases)
  case (1 k p1 d p2 k' p3)
  have "adv 0 p p3" using 1 by (auto simp: adv_def)
  moreover have "tk_pos t \<le> n" using t by auto
  ultimately show ?case using 1 by (auto simp: wp_ret dur_ok_def span_within_def intro!: Q)
qed

lemma wp_parse_facets:
  assumes p: "pinv n p"
    and Q: "\<And>fs p'. pinv n p' \<Longrightarrow> adv 0 p p' \<Longrightarrow> list_all (attr_ok n) fs \<Longrightarrow> length fs \<le> 5 \<Longrightarrow> Q fs p'"
  shows "wp n parse_facets Q p"
  unfolding parse_facets_def
proof (rule wp_comma_list [where c = "\<lambda>_. 0" and E = "attr_ok n", OF p], goal_cases)
  case (1 p Q)
  then show ?case by (auto intro: wp_parse_attr)
next
  case (3 xs p')
  then show ?case by (auto simp: maxFacets_def intro!: Q)
qed (simp add: attr_ok_def)

lemma wp_parse_clause:
  assumes q: "qstate n q p" and t: "tok_within n t"
    and w: "kw = ''WHERE'' \<Longrightarrow> qu_where q = None"
  shows "wp n (parse_clause kw t q) (\<lambda>q' p'. qstate n q' p' \<and> rem p' \<le> rem p \<and> (qu_where q' = qu_where q \<or> kw = ''WHERE'')) p"
proof -
  have p: "cpre n p" "pinv n p" using q by (auto simp: qstate_def cpre_def)
  have same: "qstate n q' p' \<and> rem p' \<le> rem p \<and> qu_where q' = qu_where q"
    if "pinv n p'" "adv 0 p p'" "query_ok n q'" "qpreds q' = qpreds q" "qu_where q' = qu_where q" for q' p'
    using that q adv_rem [OF that(2)] by (auto simp: qstate_def cpre_def adv_def)
  have where_c: "wp n cond (\<lambda>c p'. qstate n (q\<lparr>qu_where := Some c\<rparr>) p' \<and> rem p' \<le> rem p) p" if "qu_where q = None"
    using wp_cond [OF p(1)]
  proof (rule wp_mono)
    fix c p' assume "cpost n p c p'"
    then show "qstate n (q\<lparr>qu_where := Some c\<rparr>) p' \<and> rem p' \<le> rem p"
      using q that by (auto simp: qstate_def query_ok_def qpreds_def cpost_def cgrow_def cpre_def adv_def)
  qed
  have facet: "wp n parse_facets (\<lambda>fs p'. qstate n (q\<lparr>qu_facets := fs\<rparr>) p' \<and> rem p' \<le> rem p) p"
    by (rule wp_parse_facets [OF p(2)]) (use q same in \<open>auto simp: qstate_def query_ok_def qpreds_def\<close>)
  have since: "wp n parse_timeSpec (\<lambda>s p'. qstate n (q\<lparr>qu_since := Some s\<rparr>) p' \<and> rem p' \<le> rem p) p"
    by (rule wp_parse_timeSpec [OF p(2)]) (use q same in \<open>auto simp: qstate_def query_ok_def qpreds_def\<close>)
  have until: "wp n parse_timeSpec (\<lambda>s p'. qstate n (q\<lparr>qu_until := Some s\<rparr>) p' \<and> rem p' \<le> rem p) p"
    by (rule wp_parse_timeSpec [OF p(2)]) (use q same in \<open>auto simp: qstate_def query_ok_def qpreds_def\<close>)
  have series: "wp n (parse_timeseries t) (\<lambda>s p'. qstate n (q\<lparr>qu_timeseries := Some s\<rparr>) p' \<and> rem p' \<le> rem p) p"
    by (rule wp_parse_timeseries [OF p(2) t]) (use q same in \<open>auto simp: qstate_def query_ok_def qpreds_def\<close>)
  have limit: "wp n (parse_limit t) (\<lambda>s p'. qstate n (q\<lparr>qu_limit := Some s\<rparr>) p' \<and> rem p' \<le> rem p) p"
    by (rule wp_parse_limit [OF p(2) t]) (use q same in \<open>auto simp: qstate_def query_ok_def qpreds_def\<close>)
  have comp: "wp n (compare_clause t) (\<lambda>s p'. qstate n (q\<lparr>qu_compare := Some s\<rparr>) p' \<and> rem p' \<le> rem p) p"
    by (rule wp_compare_clause [OF p(2) t]) (use q same in \<open>auto simp: qstate_def query_ok_def qpreds_def\<close>)
  show ?thesis
    using where_c w facet since until series limit comp
    by (simp add: parse_clause_def wp_bind wp_ret)
qed

text \<open>The clauses: a repeated \<open>WHERE\<close> is refused, so its predicates are counted once.\<close>

lemma wp_clauses:
  assumes "qstate n q p" and "rem p < f" and "''WHERE'' \<notin> set seen \<Longrightarrow> qu_where q = None"
  shows "wp n (clauses f seen q) (\<lambda>q' p'. query_ok n q') p"
  using assms
proof (induction f arbitrary: seen q p)
  case (Suc f)
  let ?t = "ps_toks p ! ps_i p" and ?kw = "to_upper (tk_text (ps_toks p ! ps_i p))"
  have p: "pinv n p" using Suc.prems(1) by (simp add: qstate_def cpre_def)
  have t: "tok_within n ?t" by (rule pinv_tok [OF p])
  have clause: "wp n next_tok (\<lambda>_. wp n (parse_clause ?kw ?t q) (\<lambda>q'. wp n (clauses f (?kw # seen) q') (\<lambda>q' p'. query_ok n q'))) p"
    if k: "tk_kind ?t = tokIdent" and seen: "?kw \<notin> set seen"
  proof (rule wp_next [OF p], goal_cases)
    case (1 t' p1)
    have "qstate n q p1" using 1 Suc.prems(1) by (auto simp: qstate_def cpre_def adv_def)
    then have "wp n (parse_clause ?kw ?t q)
        (\<lambda>q' p'. qstate n q' p' \<and> rem p' \<le> rem p1 \<and> (qu_where q' = qu_where q \<or> ?kw = ''WHERE'')) p1"
      using t by (rule wp_parse_clause) (use Suc.prems(3) seen in auto)
    then show ?case
    proof (rule wp_mono)
      fix q' p2 assume "qstate n q' p2 \<and> rem p2 \<le> rem p1 \<and> (qu_where q' = qu_where q \<or> ?kw = ''WHERE'')"
      then show "wp n (clauses f (?kw # seen) q') (\<lambda>q' p'. query_ok n q') p2"
        using 1 k Suc.prems(2,3) by (intro Suc.IH) auto
    qed
  qed
  have "[] \<notin> set clause_keywords" by (simp add: clause_keywords_def)
  then show ?case
    using clause t Suc.prems(1)
    by (auto simp: wp_simp Let_def qstate_def dest: tok_withinD)
qed simp

lemma wp_parse_query:
  assumes p: "pinv n p" and d: "ps_depth p = 0" and k: "ps_preds p = 0"
  shows "wp n parse_query (\<lambda>q p'. query_ok n q) p"
  unfolding parse_query_def wp_bind
proof (rule wp_expectKeyword [OF p], rule wp_comma_list_inv
    [where J = "\<lambda>p. cpre n p \<and> ps_depth p = 0" and c = "\<lambda>it. apreds (si_agg it)" and E = "item_ok n"], goal_cases)
  case (6 t p1 items p2)
  then have p2: "pinv n p2" by (simp add: cpre_def)
  show ?case
  proof (rule wp_expectKeyword [OF p2], rule wp_next, assumption, goal_cases)
    case (1 t' p3 et p4)
    have p4: "cpre n p4" "ps_depth p4 = 0" "ps_preds p4 = sum_list (map (\<lambda>it. apreds (si_agg it)) items)"
      using 1 6 k by (auto simp: adv_def cpre_def)
    let ?q = "\<lambda>def. \<lparr>qu_select = items, qu_eventType = et_name def, qu_eventSpan = tok_span et, qu_where = None,
               qu_facets = [], qu_since = None, qu_until = None, qu_timeseries = None, qu_limit = None,
               qu_compare = None\<rparr>"
    have "qstate n (?q def) p4" if "lookupEventType (tk_text et) = Some def" for def
      using that lookupEventType_in [OF that] p4 6 tok_withinD [OF 1(7)]
      by (auto simp: qstate_def query_ok_def qpreds_def maxSelectItems_def cpre_def)
    then have "wp n (\<lambda>p. clauses (Suc (length (ps_toks p))) [] (?q def) p) (\<lambda>q p'. query_ok n q) p4"
      if "lookupEventType (tk_text et) = Some def" for def
      using wp_clauses [of n "?q def" p4 "Suc (length (ps_toks p4))" "[]"] that by (simp add: wp_def rem_def)
    moreover have "tk_pos et \<le> n" "tk_end et \<le> n" using 1(7) by auto
    ultimately show ?case using 1(7) by (auto simp: wp_fail split: option.split)
  qed
qed (use d k in \<open>auto simp: cpre_def item_ok_def adv_def intro: wp_parse_item\<close>)

section \<open>Parse and ParseAttribute\<close>

lemma start_pinv:
  "lex src = Inr toks \<Longrightarrow> pinv (length src) \<lparr>ps_src = src, ps_toks = toks, ps_i = 0, ps_depth = 0, ps_preds = 0\<rparr>"
  using lex_ok [of src] by (auto simp: pinv_def toks_ok_def)

lemma Parse_ok:
  "case Parse src of
     Inl OutOfFuel \<Rightarrow> False
   | Inl (Syntax e) \<Rightarrow> err_within (length src) e
   | Inr q \<Rightarrow> query_ok (length src) q"
proof (cases "lex src")
  case (Inl e)
  then show ?thesis using lex_ok [of src] by (simp add: Parse_def)
next
  case (Inr toks)
  then show ?thesis
    using wp_parse_query [OF start_pinv [OF Inr]] by (auto simp: wp_def Parse_def split: sum.splits perr.splits)
qed

text \<open>
  C9: \<^verbatim>\<open>Parse\<close> ends on every text. It gives a query or a syntax error, the error points inside the text,
  and the fuel of the model never runs out.
\<close>

theorem Parse_total:
  "(\<exists>q. Parse src = Inr q) \<or> (\<exists>e. Parse src = Inl (Syntax e) \<and> e_offset e + e_length e \<le> length src)"
  using Parse_ok [of src] by (auto simp: err_within_def split: sum.splits perr.splits)


definition demo_query :: string where
  "demo_query = ''SELECT count(*) FROM Log WHERE NOT a IS NULL''"

lemma demo_query_parses: "\<not> isl (Parse demo_query)"
  by code_simp


lemma ParseAttribute_ok:
  "(\<exists>a. ParseAttribute src = Inr a \<and> attr_ok (length src) a) \<or>
   (\<exists>e. ParseAttribute src = Inl (Syntax e) \<and> err_within (length src) e)"
proof (cases "lex src")
  case (Inl e)
  then show ?thesis using lex_ok [of src] by (simp add: ParseAttribute_def)
next
  case (Inr toks)
  have "wp (length src) (p_bind parse_attr (\<lambda>a. p_bind peek (\<lambda>t.
      if tk_kind t \<noteq> tokEOF then p_fail (unexpected t ''the end of the attribute'') else p_ret a)))
      (\<lambda>a p. attr_ok (length src) a) \<lparr>ps_src = src, ps_toks = toks, ps_i = 0, ps_depth = 0, ps_preds = 0\<rparr>"
    unfolding wp_bind
    by (rule wp_parse_attr [OF start_pinv [OF Inr]]) (auto simp: wp_simp dest: pinv_tok)
  then show ?thesis
    using Inr by (auto simp: wp_def ParseAttribute_def split: sum.splits perr.splits)
qed

text \<open>
  \<^verbatim>\<open>ParseAttribute\<close> ends on every text, with an attribute of the language (a name of at most 256 bytes
  that is no bare keyword, or a map key of 1 to 256 bytes without control characters) or with a
  syntax error inside the text.
\<close>

lemma ParseAttribute_total:
  "(\<exists>a. ParseAttribute src = Inr a \<and> attr_ok (length src) a) \<or>
   (\<exists>e. ParseAttribute src = Inl (Syntax e) \<and> e_offset e + e_length e \<le> length src)"
  using ParseAttribute_ok [of src] by (auto simp: err_within_def)

end
