(* ===== verification/OqlPlan.thy ===== *)
theory OqlPlan
  imports OqlParserCorrect Ordering "HOL-Library.Signed_Division"
begin

text \<open>
  Compilation of a parsed query to a plan (\<^verbatim>\<open>internal/oql/plan.go\<close>) with the dashboard filters of
  \<^verbatim>\<open>internal/oql/filters.go\<close>. Go resolves attributes by writing into the shared syntax tree; here every
  check returns the tree with its attributes resolved. The other effects (result columns, warnings,
  referenced variables, ignored filters) are the state of the checks. A nil dereference or a division
  by zero of the Go code is the result \<open>CPanic\<close>.
\<close>

section \<open>Plan, options and the state of the compiler\<close>

datatype plan_kind = KindSingle | KindFacets | KindTimeseries | KindHistogram

fun kind_text :: "plan_kind \<Rightarrow> string" where
  "kind_text KindSingle = ''single''"
| "kind_text KindFacets = ''facets''"
| "kind_text KindTimeseries = ''timeseries''"
| "kind_text KindHistogram = ''histogram''"

definition DefaultLimit :: int where "DefaultLimit = 10"
definition MaxTableLimit :: int where "MaxTableLimit = 2000"
definition MaxTimeseriesFacets :: int where "MaxTimeseriesFacets = 50"
definition maxColumns :: nat where "maxColumns = 30"
definition maxSeries :: int where "maxSeries = 500"
definition maxPoints :: int where "maxPoints = 100000"
definition maxBuckets :: int where "maxBuckets = 1000"
definition autoBuckets :: int where "autoBuckets = 300"
definition maxLevels :: nat where "maxLevels = 10"
definition maxCompare :: duration where "maxCompare = 400 * 24 * hour"
definition MaxFilters :: nat where "MaxFilters = 10"

definition niceBuckets :: "duration list" where
  "niceBuckets =
     [10 * second, 30 * second, minute, 5 * minute, 10 * minute, 15 * minute, 30 * minute, hour, 3 * hour, 6 * hour,
      12 * hour, 24 * hour, 7 * 24 * hour]"

record oql_filter =
  fl_attribute :: string
  fl_value :: string
  fl_eventType :: string

record options =
  op_now :: gtime
  op_from :: gtime
  op_to :: gtime
  op_variables :: "string \<rightharpoonup> string list"
  op_defaultLimit :: int
  op_maxLimit :: int
  op_noRollup :: bool
  op_filters :: "oql_filter list"

definition r_typ :: "resolved \<Rightarrow> attrType" where
  "r_typ r = (case r_def r of Some d \<Rightarrow> ad_typ d | None \<Rightarrow> TString)"

definition r_isMap :: "resolved \<Rightarrow> bool" where
  "r_isMap r \<longleftrightarrow> r_def r = None"

record column =
  cl_name :: string
  cl_function :: string
  cl_type :: attrType
  cl_agg :: agg
  cl_level :: f64
  cl_zeroFill :: bool

record plan =
  pl_source :: string
  pl_query :: oql_query
  pl_event :: eventType
  pl_kind :: plan_kind
  pl_from :: gtime
  pl_to :: gtime
  pl_bucket :: duration
  pl_rollup :: bool
  pl_columns :: "column list"
  pl_facets :: "attr list"
  pl_limit :: int
  pl_compare :: duration
  pl_warnings :: "oql_error list"
  pl_variables :: "string list"
  pl_ignored :: "string list"
  pl_vars :: "string \<rightharpoonup> string list"
  pl_hist :: "agg option"

definition Table :: "plan \<Rightarrow> string" where
  "Table p =
     (if pl_rollup p then ''metrics_1m''
      else case map_of
        [(''Log'', ''logs''), (''Span'', ''spans''), (''Transaction'', ''spans''), (''Metric'', ''metrics''),
         (''Host'', ''hosts''), (''Container'', ''containers''), (''Profile'', ''profiles''),
         (''RumPageView'', ''rum_page_views_1m''), (''RumVital'', ''rum_vitals_1m''), (''RumSession'', ''rum_sessions''),
         (''AnalyticsEvent'', ''analytics_events''), (''DbQuery'', ''db_query_stats'')] (et_name (pl_event p)) of
        Some t \<Rightarrow> t
      | None \<Rightarrow> [])"

definition FacetNames :: "plan \<Rightarrow> string list" where
  "FacetNames p = map attr_String (pl_facets p)"

datatype cerr = CErr oql_error | CPanic

record cstate =
  cs_columns :: "column list"
  cs_warnings :: "oql_error list"
  cs_vars :: "string list"
  cs_ignored :: "string list"
  cs_hist :: "agg option"

type_synonym 'a comp = "cstate \<Rightarrow> cerr + 'a \<times> cstate"

definition c_ret :: "'a \<Rightarrow> 'a comp" where
  "c_ret x s = Inr (x, s)"

definition c_fail :: "oql_error \<Rightarrow> 'a comp" where
  "c_fail e s = Inl (CErr e)"

definition c_panic :: "'a comp" where
  "c_panic s = Inl CPanic"

definition c_bind :: "'a comp \<Rightarrow> ('a \<Rightarrow> 'b comp) \<Rightarrow> 'b comp" where
  "c_bind f g s = (case f s of Inl e \<Rightarrow> Inl e | Inr (x, s') \<Rightarrow> g x s')"

definition c_mod :: "(cstate \<Rightarrow> cstate) \<Rightarrow> unit comp" where
  "c_mod f s = Inr ((), f s)"

fun c_map :: "('a \<Rightarrow> 'b comp) \<Rightarrow> 'a list \<Rightarrow> 'b list comp" where
  "c_map f [] = c_ret []"
| "c_map f (x # xs) = c_bind (f x) (\<lambda>y. c_bind (c_map f xs) (\<lambda>ys. c_ret (y # ys)))"

lemma c_bind_cong [fundef_cong]:
  "f = f' \<Longrightarrow> (\<And>x. g x = g' x) \<Longrightarrow> c_bind f g = c_bind f' g'"
  by (simp add: c_bind_def fun_eq_iff split: sum.split)

definition need :: "'a option \<Rightarrow> ('a \<Rightarrow> 'b comp) \<Rightarrow> 'b comp" where
  "need x f = (case x of None \<Rightarrow> c_panic | Some y \<Rightarrow> f y)"

lemma need_cong [fundef_cong]:
  "x = x' \<Longrightarrow> (\<And>y. x' = Some y \<Longrightarrow> f y = f' y) \<Longrightarrow> need x f = need x' f'"
  by (simp add: need_def split: option.split)

section \<open>Attributes\<close>

definition map_res :: "string \<Rightarrow> string \<Rightarrow> bool \<Rightarrow> resolved" where
  "map_res m key implicit = \<lparr>r_def = None, r_mapKind = m, r_key = key, r_implicit = implicit\<rparr>"

definition def_res :: "attrDef \<Rightarrow> resolved" where
  "def_res d = \<lparr>r_def = Some d, r_mapKind = [], r_key = [], r_implicit = False\<rparr>"

definition set_res :: "resolved \<Rightarrow> attr \<Rightarrow> attr" where
  "set_res r a = a\<lparr>at_res := Some r\<rparr>"

definition unknown_attr :: "eventType \<Rightarrow> attr \<Rightarrow> oql_error" where
  "unknown_attr et a = span_err (at_span a) ''unknown attribute %q for %s'' [truncate_str (at_name a) 64, et_name et]"

definition implicit_warning :: "eventType \<Rightarrow> attr \<Rightarrow> oql_error" where
  "implicit_warning et a =
     span_err (at_span a)
       (''%q is not a known attribute of %s; it is read from attributes['' @ [CHR 0x27] @ ''%s'' @ [CHR 0x27] @ '']'')
       [truncate_str (at_name a) 64, et_name et, truncate_str (at_name a) 64]"

definition add_warning :: "oql_error \<Rightarrow> unit comp" where
  "add_warning w = c_mod (\<lambda>s. s\<lparr>cs_warnings := cs_warnings s @ [w]\<rparr>)"

definition resolve :: "eventType \<Rightarrow> attr \<Rightarrow> attr comp" where
  "resolve et a =
     (if at_res a \<noteq> None then c_ret a
      else if at_map a \<noteq> [] then
        (if at_map a = ''attributes'' \<and> et_attrMap et = []
         then c_fail (span_err (at_span a) ''%s has no attributes map'' [et_name et])
         else if at_map a = ''resource'' \<and> et_resource et = []
         then c_fail (span_err (at_span a) ''%s has no resource attributes'' [et_name et])
         else c_ret (set_res (map_res (at_map a) (at_key a) False) a))
      else case byName et (at_name a) of
        Some d \<Rightarrow> c_ret (set_res (def_res d) a)
      | None \<Rightarrow>
          if at_name a = ''tenant_id'' \<or> has_prefix (at_name a) ''_'' then c_fail (unknown_attr et a)
          else if et_attrMap et = [] then c_fail (unknown_attr et a)
          else c_bind (add_warning (implicit_warning et a))
                 (\<lambda>_. c_ret (set_res (map_res ''attributes'' (at_name a) True) a)))"

definition resolve_opt :: "eventType \<Rightarrow> attr option \<Rightarrow> attr option comp" where
  "resolve_opt et x = (case x of None \<Rightarrow> c_ret None | Some a \<Rightarrow> c_bind (resolve et a) (\<lambda>a'. c_ret (Some a')))"

definition numeric :: "resolved \<Rightarrow> bool" where
  "numeric r \<longleftrightarrow> r_isMap r \<or> r_typ r \<noteq> TString"

section \<open>Conditions\<close>

definition boolOf :: "oql_value \<Rightarrow> bool option" where
  "boolOf v =
     (case v_kind v of
        ValBool \<Rightarrow> Some (v_bool v)
      | ValNumber \<Rightarrow>
          if f_eq (v_num v) (f_of_int 0) \<or> f_eq (v_num v) (f_of_int 1) then Some (f_eq (v_num v) (f_of_int 1)) else None
      | ValString \<Rightarrow>
          (let s = lower_utf8 (v_str v) in
           if s = ''true'' \<or> s = ''1'' then Some True
           else if s = ''false'' \<or> s = ''0'' then Some False else None)
      | ValVariable \<Rightarrow> None)"

definition equality_op :: "string \<Rightarrow> bool" where
  "equality_op op \<longleftrightarrow> op = ''='' \<or> op = ''!='' \<or> op = ''in'' \<or> op = ''not in''"

text \<open>\<open>checkValue\<close>: \<open>None\<close> is Go's nil error.\<close>

definition checkValue :: "attr \<Rightarrow> string \<Rightarrow> span \<Rightarrow> resolved \<Rightarrow> oql_value \<Rightarrow> oql_error option" where
  "checkValue a op sp r v =
     (let name = attr_String a; kw = to_upper (trim_prefix op ''not '') in
      if op \<in> {''like'', ''not like'', ''contains'', ''not contains''} then
        (if \<not> r_isMap r \<and> r_typ r \<noteq> TString
         then Some (span_err sp ''%s needs a string attribute; %s is a %s'' [kw, name, attrType_String (r_typ r)])
         else if v_kind v \<noteq> ValString then Some (span_err (v_span v) ''%s needs a string value'' [kw])
         else None)
      else if r_isMap r then
        (if v_kind v = ValBool \<and> \<not> equality_op op then Some (span_err (v_span v) ''cannot order booleans'' []) else None)
      else case r_typ r of
        TString \<Rightarrow>
          if v_kind v = ValBool
          then Some (span_err (v_span v) ''%s is a string; compare it with a string'' [name]) else None
      | TNumber \<Rightarrow>
          if v_kind v = ValBool \<or> (v_kind v = ValString \<and> ParseFloat (v_str v) = None)
          then Some (span_err (v_span v) ''%s is a number; compare it with a number'' [name]) else None
      | TBool \<Rightarrow>
          if \<not> equality_op op then Some (span_err sp ''%s is a boolean; use = or !='' [name])
          else if boolOf v = None
          then Some (span_err (v_span v) ''%s is a boolean; compare it with true or false'' [name]) else None)"

definition add_var :: "string \<Rightarrow> unit comp" where
  "add_var x = c_mod (\<lambda>s. s\<lparr>cs_vars := List.insert x (cs_vars s)\<rparr>)"

fun check_values :: "attr \<Rightarrow> string \<Rightarrow> span \<Rightarrow> resolved \<Rightarrow> oql_value list \<Rightarrow> unit comp" where
  "check_values a op sp r [] = c_ret ()"
| "check_values a op sp r (v # vs) =
     (if v_kind v = ValVariable then c_bind (add_var (v_var v)) (\<lambda>_. check_values a op sp r vs)
      else case checkValue a op sp r v of
             Some e \<Rightarrow> c_fail e
           | None \<Rightarrow> check_values a op sp r vs)"

fun check_cond :: "eventType \<Rightarrow> expr \<Rightarrow> expr comp" where
  "check_cond et (Logical op l r) =
     c_bind (check_cond et l) (\<lambda>l'. c_bind (check_cond et r) (\<lambda>r'. c_ret (Logical op l' r')))"
| "check_cond et (Not x sp) = c_bind (check_cond et x) (\<lambda>x'. c_ret (Not x' sp))"
| "check_cond et (Predicate a op vs sp) =
     c_bind (resolve et a) (\<lambda>a'. need (at_res a') (\<lambda>r.
       c_bind (check_values a' op sp r vs) (\<lambda>_. c_ret (Predicate a' op vs sp))))"

section \<open>Dashboard filters\<close>

definition text_value :: "string \<Rightarrow> oql_value" where
  "text_value s = zero_value\<lparr>v_kind := ValString, v_str := s\<rparr>"

definition filter_res :: "eventType \<Rightarrow> attr \<Rightarrow> oql_filter \<Rightarrow> resolved option" where
  "filter_res et a f =
     (if at_map a = ''attributes'' \<and> et_attrMap et \<noteq> [] \<or> at_map a = ''resource'' \<and> et_resource et \<noteq> []
      then Some (map_res (at_map a) (at_key a) False)
      else if at_map a \<noteq> [] then None
      else case byName et (at_name a) of
        Some d \<Rightarrow> Some (def_res d)
      | None \<Rightarrow>
          if at_name a = ''tenant_id'' \<or> has_prefix (at_name a) ''_'' \<or> et_attrMap et = [] \<or> fl_eventType f \<noteq> et_name et
          then None else Some (map_res ''attributes'' (at_name a) True))"

definition filter_value :: "resolved \<Rightarrow> string \<Rightarrow> oql_value option" where
  "filter_value r s =
     (case r_typ r of
        TNumber \<Rightarrow>
          if r_isMap r then Some (text_value s)
          else map_option (\<lambda>n. zero_value\<lparr>v_kind := ValNumber, v_num := n, v_str := s\<rparr>) (ParseFloat s)
      | TBool \<Rightarrow> map_option (\<lambda>b. zero_value\<lparr>v_kind := ValBool, v_bool := b, v_str := s\<rparr>) (boolOf (text_value s))
      | TString \<Rightarrow> Some (text_value s))"

definition filterPredicate :: "eventType \<Rightarrow> attr \<Rightarrow> oql_filter \<Rightarrow> expr option" where
  "filterPredicate et a f =
     (case filter_res et a f of
        None \<Rightarrow> None
      | Some r \<Rightarrow>
          (case filter_value r (fl_value f) of
             None \<Rightarrow> None
           | Some v \<Rightarrow>
               if checkValue (set_res r a) ''='' zero_span r v \<noteq> None then None
               else Some (Predicate (set_res r a) ''='' [v] zero_span)))"

text \<open>The message of a parse error inside a filter error is kept as its format and arguments.\<close>

definition filter_attr_err :: "nat \<Rightarrow> perr \<Rightarrow> cerr" where
  "filter_attr_err i pe =
     (case pe of
        Syntax e \<Rightarrow> CErr (errAt 0 0 ''filters[%d].attribute: %s'' (show_nat i # e_format e # e_args e))
      | OutOfFuel \<Rightarrow> CPanic)"

fun filter_loop :: "eventType \<Rightarrow> nat \<Rightarrow> oql_filter list \<Rightarrow> expr option \<Rightarrow> expr option comp" where
  "filter_loop et i [] w = c_ret w"
| "filter_loop et i (f # fs) w =
     (case ParseAttribute (fl_attribute f) of
        Inl pe \<Rightarrow> (\<lambda>s. Inl (filter_attr_err i pe))
      | Inr a \<Rightarrow>
          if length (fl_value f) > maxStringBytes \<or> list_ex isControl (fl_value f)
          then c_fail (errAt 0 0 ''filters[%d].value must be at most %d bytes without control characters''
                 [show_nat i, show_nat maxStringBytes])
          else case filterPredicate et a f of
            None \<Rightarrow>
              c_bind (c_mod (\<lambda>s. s\<lparr>cs_ignored := cs_ignored s @ [attr_String a]\<rparr>)) (\<lambda>_. filter_loop et (Suc i) fs w)
          | Some pr \<Rightarrow>
              filter_loop et (Suc i) fs (Some (case w of None \<Rightarrow> pr | Some e \<Rightarrow> Logical ''and'' e pr)))"

definition applyFilters :: "eventType \<Rightarrow> oql_filter list \<Rightarrow> expr option \<Rightarrow> expr option comp" where
  "applyFilters et fs w =
     (if fs = [] then c_ret w
      else if length fs > MaxFilters then c_fail (errAt 0 0 ''at most %d dashboard filters'' [show_nat MaxFilters])
      else filter_loop et 0 fs w)"

section \<open>Aggregates and result columns\<close>

definition string_arg_err :: "string \<Rightarrow> attr \<Rightarrow> oql_error" where
  "string_arg_err name a = span_err (at_span a) ''%s needs a number attribute; %s is a string'' [name, attr_String a]"

definition numeric_arg :: "attr option \<Rightarrow> string \<Rightarrow> 'a comp \<Rightarrow> 'a comp" where
  "numeric_arg arg name k =
     need arg (\<lambda>a. need (at_res a) (\<lambda>r. if \<not> numeric r then c_fail (string_arg_err name a) else k))"

definition bad_level :: "f64 \<Rightarrow> bool" where
  "bad_level lv \<longleftrightarrow> f_le lv (f_of_int 0) \<or> f_ge lv (f_of_int 100)"

text \<open>The functions that take no aggregate: the type of the result, from the resolved argument.\<close>

definition leaf_type :: "string \<Rightarrow> string \<Rightarrow> attr option \<Rightarrow> f64 list \<Rightarrow> span \<Rightarrow> attrType comp" where
  "leaf_type fn name arg levels sp =
     (if fn = ''count'' \<or> fn = ''uniquecount'' then c_ret TNumber
      else if fn = ''sum'' \<or> fn = ''average'' \<or> fn = ''min'' \<or> fn = ''max'' then numeric_arg arg name (c_ret TNumber)
      else if fn = ''percentile'' \<or> fn = ''median'' then
        numeric_arg arg name
          (if length levels > maxLevels then c_fail (span_err sp ''at most %d percentile levels'' [show_nat maxLevels])
           else if list_ex bad_level levels
           then c_fail (span_err sp ''percentile levels must be between 0 and 100 (exclusive)'' [])
           else c_ret TNumber)
      else if fn = ''latest'' \<or> fn = ''earliest'' then
        need arg (\<lambda>a. need (at_res a) (\<lambda>r. c_ret (if r_typ r = TString then TString else TNumber)))
      else if fn = ''histogram'' then c_fail (span_err sp ''histogram must be the only select item'' [])
      else c_fail (span_err sp ''unknown function %q'' [name]))"

text \<open>What \<open>rate\<close> and \<open>filter\<close> demand of the aggregate they wrap.\<close>

definition check_rate :: "agg \<Rightarrow> durationLit option \<Rightarrow> unit comp" where
  "check_rate i per =
     need (if ag_func i = ''filter'' then ag_inner i else Some i) (\<lambda>b.
       if ag_func b \<noteq> ''count'' \<and> ag_func b \<noteq> ''sum'' \<and> ag_func b \<noteq> ''uniquecount''
       then c_fail (span_err (ag_span i) ''rate takes count, sum or uniqueCount (optionally inside filter)'' [])
       else need per (\<lambda>d.
         if dl_d d < second then c_fail (span_err (dl_span d) ''rate duration must be at least 1 second'' [])
         else c_ret ()))"

definition check_filtered :: "agg \<Rightarrow> unit comp" where
  "check_filtered i =
     (if ag_func i = ''rate'' \<or> ag_func i = ''filter'' \<or> ag_func i = ''histogram''
      then c_fail (span_err (ag_span i) ''filter cannot contain %s'' [ag_name i]) else c_ret ())"

fun check_agg :: "eventType \<Rightarrow> agg \<Rightarrow> (agg \<times> attrType) comp" where
  "check_agg et (Agg fn name star arg inner levels per cnd roof nb sp txt) =
     c_bind (resolve_opt et arg) (\<lambda>arg'.
       if fn = ''rate'' then
         need inner (\<lambda>i.
         c_bind (check_rate i per) (\<lambda>_.
         c_bind (check_agg et i) (\<lambda>(i', ty). c_ret (Agg fn name star arg' (Some i') levels per cnd roof nb sp txt, ty))))
       else if fn = ''filter'' then
         need inner (\<lambda>i.
         c_bind (check_filtered i) (\<lambda>_.
         need cnd (\<lambda>e.
         c_bind (check_cond et e) (\<lambda>e'.
         c_bind (check_agg et i) (\<lambda>(i', ty). c_ret (Agg fn name star arg' (Some i') levels per (Some e') roof nb sp txt, ty))))))
       else
         c_bind (leaf_type fn name arg' levels sp) (\<lambda>ty.
           c_ret (Agg fn name star arg' inner levels per cnd roof nb sp txt, ty)))"

fun base_agg :: "agg \<Rightarrow> agg option" where
  "base_agg (Agg fn name star arg inner levels per cnd roof nb sp txt) =
     (if fn = ''rate'' \<or> fn = ''filter'' then (case inner of None \<Rightarrow> None | Some i \<Rightarrow> base_agg i)
      else Some (Agg fn name star arg inner levels per cnd roof nb sp txt))"

definition zeroFillFuncs :: "string \<Rightarrow> bool" where
  "zeroFillFuncs fn \<longleftrightarrow> fn = ''count'' \<or> fn = ''sum'' \<or> fn = ''uniquecount''"

abbreviation formatNum :: "f64 \<Rightarrow> string" where
  "formatNum \<equiv> format_f"

definition columnWithLevel :: "agg \<Rightarrow> f64 \<Rightarrow> string option" where
  "columnWithLevel a lv =
     (if ag_func a = ''percentile'' then
        map_option (\<lambda>x. ''percentile('' @ attr_String x @ '', '' @ formatNum lv @ '')'') (ag_arg a)
      else if ag_func a = ''median'' then map_option (\<lambda>x. ''median('' @ attr_String x @ '')'') (ag_arg a)
      else Some (ag_name a @ ''('' @ ag_argsText a @ '') ('' @ formatNum lv @ '')''))"

definition add_column :: "column \<Rightarrow> unit comp" where
  "add_column c = c_mod (\<lambda>s. s\<lparr>cs_columns := cs_columns s @ [c]\<rparr>)"

definition level_name :: "selectItem \<Rightarrow> agg \<Rightarrow> bool \<Rightarrow> bool \<Rightarrow> string \<Rightarrow> f64 \<Rightarrow> string option" where
  "level_name it a same multi name lv =
     (if si_alias it = [] \<and> same then columnWithLevel a lv
      else if multi then Some (name @ '' ('' @ formatNum lv @ '')'')
      else Some name)"

definition add_levels :: "selectItem \<Rightarrow> agg \<Rightarrow> bool \<Rightarrow> string \<Rightarrow> string \<Rightarrow> bool \<Rightarrow> f64 list \<Rightarrow> unit comp" where
  "add_levels it a same name fname zero levels =
     c_bind (c_map (\<lambda>lv. need (level_name it a same (length levels > 1) name lv) (\<lambda>cn.
         add_column \<lparr>cl_name = cn, cl_function = fname, cl_type = TNumber, cl_agg = a, cl_level = lv, cl_zeroFill = zero\<rparr>))
       levels) (\<lambda>_. c_ret ())"

definition set_arg :: "attr \<Rightarrow> agg \<Rightarrow> agg" where
  "set_arg x a =
     Agg (ag_func a) (ag_name a) (ag_star a) (Some x) (ag_inner a) (ag_levels a) (ag_per a) (ag_cond a)
       (ag_ceiling a) (ag_buckets a) (ag_span a) (ag_argsText a)"

text \<open>A histogram with its resolved argument \<open>x\<close>.\<close>

definition histogram_column :: "selectItem \<Rightarrow> attr \<Rightarrow> selectItem comp" where
  "histogram_column it x =
     (let a = set_arg x (si_agg it) in
      need (at_res x) (\<lambda>r.
        if \<not> numeric r then c_fail (string_arg_err ''histogram'' x)
        else if f_le (ag_ceiling a) (f_of_int 0) \<or> f_gt (ag_ceiling a) (f_of_int (10 ^ 15))
        then c_fail (span_err (ag_span a) ''histogram ceiling must be a positive number'' [])
        else c_bind (c_mod (\<lambda>s. s\<lparr>cs_hist := Some a\<rparr>)) (\<lambda>_.
             c_bind (add_column \<lparr>cl_name = ''histogram('' @ ag_argsText a @ '')'', cl_function = ''histogram'',
                       cl_type = TNumber, cl_agg = a, cl_level = f_of_int 0, cl_zeroFill = True\<rparr>) (\<lambda>_.
               c_ret (it\<lparr>si_agg := a\<rparr>)))))"

definition histogram_item :: "eventType \<Rightarrow> selectItem \<Rightarrow> nat \<Rightarrow> selectItem comp" where
  "histogram_item et it items =
     (if items \<noteq> 1 then c_fail (span_err (ag_span (si_agg it)) ''histogram must be the only select item'' [])
      else need (ag_arg (si_agg it)) (\<lambda>x. c_bind (resolve et x) (histogram_column it)))"

text \<open>
  The columns of a checked aggregate \<open>a\<close> of type \<open>typ\<close>. The Go code compares the pointers
  \<^verbatim>\<open>base == a\<close>: they differ when a rate or filter wraps the base.
\<close>

definition add_columns :: "selectItem \<Rightarrow> agg \<Rightarrow> attrType \<Rightarrow> agg \<Rightarrow> unit comp" where
  "add_columns it a typ base =
     (let zero = (zeroFillFuncs (ag_func base) \<or> ag_func a = ''rate'');
          fname = (if ag_func a = ''uniquecount'' then ''uniqueCount'' else ag_func a);
          name = (if si_alias it = [] then ag_name a @ ''('' @ ag_argsText a @ '')'' else si_alias it);
          same = (ag_func a \<noteq> ''rate'' \<and> ag_func a \<noteq> ''filter'')
      in if ag_levels base \<noteq> [] then add_levels it a same name fname zero (ag_levels base)
         else add_column \<lparr>cl_name = name, cl_function = fname, cl_type = typ, cl_agg = a,
                cl_level = f_of_int 0, cl_zeroFill = zero \<and> typ = TNumber\<rparr>)"

definition compile_item :: "eventType \<Rightarrow> nat \<Rightarrow> selectItem \<Rightarrow> selectItem comp" where
  "compile_item et items it =
     (if ag_func (si_agg it) = ''histogram'' then histogram_item et it items
      else c_bind (check_agg et (si_agg it)) (\<lambda>(a, typ).
           need (base_agg a) (\<lambda>base. c_bind (add_columns it a typ base) (\<lambda>_. c_ret (it\<lparr>si_agg := a\<rparr>)))))"

section \<open>Rollup eligibility\<close>

text \<open>
  The short-circuit evaluation of Go over checks that read resolved attributes: \<open>None\<close> is the nil
  dereference of an attribute that is not resolved.
\<close>

definition o_and :: "bool option \<Rightarrow> bool option \<Rightarrow> bool option" where
  "o_and a b = (case a of Some True \<Rightarrow> b | _ \<Rightarrow> a)"

definition o_or :: "bool option \<Rightarrow> bool option \<Rightarrow> bool option" where
  "o_or a b = (case a of Some False \<Rightarrow> b | _ \<Rightarrow> a)"

definition okAttr :: "attr \<Rightarrow> bool option" where
  "okAttr a =
     map_option (\<lambda>r. case r_def r of None \<Rightarrow> r_mapKind r = ''attributes'' | Some d \<Rightarrow> ad_rollup d \<noteq> []) (at_res a)"

definition okArg :: "attr option \<Rightarrow> bool option" where
  "okArg arg = (case arg of None \<Rightarrow> None | Some a \<Rightarrow> okAttr a)"

definition isValue :: "attr option \<Rightarrow> bool option" where
  "isValue arg =
     (case arg of
        None \<Rightarrow> Some False
      | Some a \<Rightarrow> map_option (\<lambda>r. case r_def r of None \<Rightarrow> False | Some d \<Rightarrow> ad_value d) (at_res a))"

fun okCond :: "expr \<Rightarrow> bool option" where
  "okCond (Logical op l r) = o_and (okCond l) (okCond r)"
| "okCond (Not x sp) = okCond x"
| "okCond (Predicate a op vs sp) = okAttr a"

fun okAgg :: "bool \<Rightarrow> agg \<Rightarrow> bool option" where
  "okAgg inFilter (Agg fn name star arg inner levels per cnd roof nb sp txt) =
     (case isValue arg of
        None \<Rightarrow> None
      | Some val \<Rightarrow>
          if fn = ''count'' then o_or (Some star) (o_or (Some val) (okArg arg))
          else if fn = ''sum'' \<or> fn = ''average'' \<or> fn = ''min'' \<or> fn = ''max'' then Some val
          else if fn = ''latest'' then Some (val \<and> \<not> inFilter)
          else if fn = ''uniquecount'' then o_and (Some (\<not> val)) (okArg arg)
          else if fn = ''rate'' then (case inner of None \<Rightarrow> None | Some i \<Rightarrow> okAgg inFilter i)
          else if fn = ''filter'' then
            (case cnd of
               None \<Rightarrow> Some False
             | Some e \<Rightarrow> o_and (okCond e) (case inner of None \<Rightarrow> None | Some i \<Rightarrow> okAgg True i))
          else Some False)"

fun o_all :: "('a \<Rightarrow> bool option) \<Rightarrow> 'a list \<Rightarrow> bool option" where
  "o_all f [] = Some True"
| "o_all f (x # xs) = o_and (f x) (o_all f xs)"

definition rollupEligible :: "agg option \<Rightarrow> oql_query \<Rightarrow> bool option" where
  "rollupEligible hist q =
     (if hist \<noteq> None then Some False
      else o_and (o_all (\<lambda>it. okAgg False (si_agg it)) (qu_select q))
          (o_and (o_all okAttr (qu_facets q))
                 (case qu_where q of None \<Rightarrow> Some True | Some w \<Rightarrow> okCond w)))"

section \<open>Time range and buckets\<close>

definition resolveTime :: "timeSpec \<Rightarrow> gtime \<Rightarrow> gtime" where
  "resolveTime t now =
     (case ts_kind t of TimeAgo \<Rightarrow> now + (- ts_ago t) | TimeAbsolute \<Rightarrow> ts_at t | TimeNow \<Rightarrow> now)"

text \<open>\<open>None\<close> is the integer division by zero of a step below one millisecond.\<close>

definition alignDown :: "gtime \<Rightarrow> duration \<Rightarrow> gtime option" where
  "alignDown t d =
     (let ms = to_unix_milli t; step = d sdiv 1000000 in
      if step = 0 then None
      else Some (unix_milli (ms - ((ms smod step) + step) smod step)))"

definition bucketCount :: "gtime \<Rightarrow> gtime \<Rightarrow> duration \<Rightarrow> int option" where
  "bucketCount from to bucket =
     (if bucket \<le> 0 then Some 0
      else map_option (\<lambda>start. wrap64 (time_sub to start + bucket - 1) sdiv bucket) (alignDown from bucket))"

definition minBucket :: duration where
  "minBucket = 10 * second"

definition auto_bucket :: "duration \<Rightarrow> bool \<Rightarrow> duration" where
  "auto_bucket rng rollup =
     (let want = max (rng sdiv autoBuckets) (if rollup then minute else minBucket) in
      case find (\<lambda>nb. nb \<ge> want) niceBuckets of Some nb \<Rightarrow> nb | None \<Rightarrow> last niceBuckets)"

definition count_err :: "timeseriesClause \<Rightarrow> int \<Rightarrow> oql_error" where
  "count_err ts nb =
     span_err (tc_span ts) ''TIMESERIES would produce %d buckets (at most %d); use a larger bucket''
       [show_int nb, show_int maxBuckets]"

text \<open>\<open>buckets\<close> yields the bucket and whether the rollup is still used.\<close>

definition choose_bucket :: "timeseriesClause \<Rightarrow> duration \<Rightarrow> bool \<Rightarrow> oql_error + duration \<times> bool" where
  "choose_bucket ts rng rollup =
     (if tc_auto ts then Inr (auto_bucket rng rollup, rollup)
      else if tc_bucket ts < minBucket
      then Inl (span_err (tc_span ts) ''the TIMESERIES bucket must be at least 10 seconds'' [])
      else if tc_bucket ts smod second \<noteq> 0
      then Inl (span_err (tc_span ts) ''the TIMESERIES bucket must be a whole number of seconds'' [])
      else Inr (tc_bucket ts, rollup \<and> tc_bucket ts smod minute = 0))"

definition buckets :: "timeseriesClause \<Rightarrow> gtime \<Rightarrow> gtime \<Rightarrow> duration \<Rightarrow> bool \<Rightarrow> cerr + duration \<times> bool" where
  "buckets ts from to rng rollup =
     (case choose_bucket ts rng rollup of
        Inl e \<Rightarrow> Inl (CErr e)
      | Inr (b, ru) \<Rightarrow>
          (case bucketCount from to b of
             None \<Rightarrow> Inl CPanic
           | Some nb \<Rightarrow> if nb > maxBuckets then Inl (CErr (count_err ts nb)) else Inr (b, ru)))"

section \<open>compile\<close>

definition spanOfAttrs :: "attr list \<Rightarrow> span" where
  "spanOfAttrs as = (if as = [] then zero_span else mk_span (sp_pos (at_span (hd as))) (sp_end (at_span (last as))))"

text \<open>The select list, facets, filters and the condition, in the order Go checks them.\<close>

definition check_where :: "eventType \<Rightarrow> expr option \<Rightarrow> expr option comp" where
  "check_where et w = (case w of None \<Rightarrow> c_ret None | Some e \<Rightarrow> c_bind (check_cond et e) (\<lambda>e'. c_ret (Some e')))"

definition analyse_rest :: "eventType \<Rightarrow> oql_query \<Rightarrow> oql_filter list \<Rightarrow> selectItem list \<Rightarrow> oql_query comp" where
  "analyse_rest et q filters sel =
     c_bind (c_map (resolve et) (qu_facets q)) (\<lambda>fs.
     c_bind (applyFilters et filters (qu_where q)) (\<lambda>w.
     c_bind (check_where et w) (\<lambda>w'.
       c_ret (q\<lparr>qu_select := sel, qu_facets := fs, qu_where := w'\<rparr>))))"

definition analyse :: "eventType \<Rightarrow> oql_query \<Rightarrow> oql_filter list \<Rightarrow> oql_query comp" where
  "analyse et q filters =
     c_bind (c_map (compile_item et (length (qu_select q))) (qu_select q)) (\<lambda>sel s.
       if length (cs_columns s) > maxColumns
       then (if qu_select q = [] then Inl CPanic
             else Inl (CErr (span_err (si_span (last (qu_select q)))
                    ''at most %d result columns (percentile levels count separately)'' [show_nat maxColumns])))
       else analyse_rest et q filters sel s)"

definition histogram_with :: "oql_query \<Rightarrow> (span \<times> string) option" where
  "histogram_with q =
     (if qu_facets q \<noteq> [] then Some (spanOfAttrs (qu_facets q), ''FACET'')
      else case qu_timeseries q of
        Some t \<Rightarrow> Some (tc_span t, ''TIMESERIES'')
      | None \<Rightarrow> map_option (\<lambda>d. (dl_span d, ''COMPARE WITH'')) (qu_compare q))"

definition plan_kind_of :: "agg option \<Rightarrow> oql_query \<Rightarrow> oql_error + plan_kind" where
  "plan_kind_of hist q =
     (if hist \<noteq> None then
        (case histogram_with q of
           Some (sp, what) \<Rightarrow> Inl (span_err sp ''histogram cannot be combined with %s'' [what])
         | None \<Rightarrow> Inr KindHistogram)
      else if qu_timeseries q \<noteq> None then Inr KindTimeseries
      else if qu_facets q \<noteq> [] then Inr KindFacets
      else Inr KindSingle)"

definition raw_range :: "gtime \<Rightarrow> options \<Rightarrow> oql_query \<Rightarrow> gtime \<times> gtime \<times> span" where
  "raw_range now opt q =
     (if op_from opt \<noteq> 0 \<and> op_to opt \<noteq> 0 then (op_from opt, op_to opt, qu_eventSpan q)
      else (case qu_since q of Some t \<Rightarrow> resolveTime t now | None \<Rightarrow> now + (- hour),
            case qu_until q of Some t \<Rightarrow> resolveTime t now | None \<Rightarrow> now,
            case (qu_since q, qu_until q) of
              (Some t, _) \<Rightarrow> ts_span t
            | (None, Some t) \<Rightarrow> ts_span t
            | (None, None) \<Rightarrow> qu_eventSpan q))"

definition in_days :: "duration \<Rightarrow> string" where
  "in_days d = show_int (d sdiv (24 * hour))"

definition check_range :: "eventType \<Rightarrow> gtime \<Rightarrow> gtime \<Rightarrow> gtime \<Rightarrow> span \<Rightarrow> oql_error option" where
  "check_range et now from to anchor =
     (if \<not> from < to then Some (span_err anchor ''the start of the time range must be before its end'' [])
      else if from < now + (- maxLookback)
      then Some (span_err anchor ''the time range starts more than %d days ago'' [in_days maxLookback])
      else if time_sub to from > et_maxRange et
      then Some (span_err anchor ''the time range of %s queries is at most %d days'' [et_name et, in_days (et_maxRange et)])
      else None)"

definition choose_limit :: "int \<Rightarrow> int \<Rightarrow> plan_kind \<Rightarrow> limitClause option \<Rightarrow> oql_error + int" where
  "choose_limit dflt maxLimit kind l =
     (let cap = (if kind = KindTimeseries then min maxLimit MaxTimeseriesFacets else maxLimit) in
      case l of
        None \<Rightarrow> Inr (min dflt cap)
      | Some c \<Rightarrow>
          if lc_max c then Inr cap
          else if lc_n c > cap then Inl (span_err (lc_span c) ''LIMIT must be at most %d here'' [show_int cap])
          else Inr (lc_n c))"

definition check_points :: "timeseriesClause \<Rightarrow> bool \<Rightarrow> int \<Rightarrow> nat \<Rightarrow> gtime \<Rightarrow> gtime \<Rightarrow> duration \<Rightarrow> cerr option" where
  "check_points ts faceted lmt cols from to bucket =
     (let groups = (if faceted then lmt else 1); series = groups * int cols in
      if series > maxSeries
      then Some (CErr (span_err (tc_span ts)
             ''too many series (%d facets x %d columns > %d); lower LIMIT or remove columns''
             [show_int groups, show_nat cols, show_int maxSeries]))
      else case bucketCount from to bucket of
        None \<Rightarrow> Some CPanic
      | Some nb \<Rightarrow>
          if series * nb > maxPoints
          then Some (CErr (span_err (tc_span ts)
                 ''too many points (%d series x %d buckets > %d); use a larger bucket or lower LIMIT''
                 [show_int series, show_int nb, show_int maxPoints]))
          else None)"

definition check_compare :: "durationLit option \<Rightarrow> oql_error + duration" where
  "check_compare c =
     (case c of
        None \<Rightarrow> Inr 0
      | Some d \<Rightarrow>
          if dl_d d < minute \<or> dl_d d > maxCompare
          then Inl (span_err (dl_span d) ''COMPARE WITH must be between 1 minute and %d days'' [in_days maxCompare])
          else Inr (dl_d d))"

definition raw_metric_err :: "span \<Rightarrow> oql_error" where
  "raw_metric_err anchor =
     span_err anchor
       (''Metric queries longer than %d days must be answerable from the 1-minute rollup (oql.md '' @
        [CHR 0xC2, CHR 0xA7] @ ''4)'') [in_days maxRawRange]"

definition empty_cstate :: cstate where
  "empty_cstate = \<lparr>cs_columns = [], cs_warnings = [], cs_vars = [], cs_ignored = [], cs_hist = None\<rparr>"

definition sort_strings :: "string list \<Rightarrow> string list" where
  "sort_strings = sort_desc (\<lambda>a b. str_compare b a)"

definition choose_rollup :: "eventType \<Rightarrow> options \<Rightarrow> agg option \<Rightarrow> oql_query \<Rightarrow> duration \<Rightarrow> cerr + bool" where
  "choose_rollup et opt hist q rng =
     (if et_rollup et \<and> \<not> op_noRollup opt \<and> rng > rollupMinRange
      then (case rollupEligible hist q of None \<Rightarrow> Inl CPanic | Some ru \<Rightarrow> Inr ru) else Inr False)"

definition time_buckets ::
  "plan_kind \<Rightarrow> timeseriesClause option \<Rightarrow> gtime \<Rightarrow> gtime \<Rightarrow> duration \<Rightarrow> bool \<Rightarrow> cerr + duration \<times> bool" where
  "time_buckets kind ts from to rng ru =
     (if kind \<noteq> KindTimeseries then Inr (0, ru)
      else case ts of None \<Rightarrow> Inl CPanic | Some t \<Rightarrow> buckets t from to rng ru)"

definition check_raw :: "eventType \<Rightarrow> bool \<Rightarrow> duration \<Rightarrow> span \<Rightarrow> oql_error option" where
  "check_raw et ru rng anchor = (if et_rollup et \<and> \<not> ru \<and> rng > maxRawRange then Some (raw_metric_err anchor) else None)"

definition check_series :: "plan_kind \<Rightarrow> oql_query \<Rightarrow> int \<Rightarrow> nat \<Rightarrow> gtime \<Rightarrow> gtime \<Rightarrow> duration \<Rightarrow> cerr option" where
  "check_series kind q lmt cols from to bucket =
     (if kind \<noteq> KindTimeseries then None
      else case qu_timeseries q of
        None \<Rightarrow> Some CPanic
      | Some ts \<Rightarrow> check_points ts (qu_facets q \<noteq> []) lmt cols from to bucket)"

definition err_opt :: "'e option \<Rightarrow> 'e + unit" where
  "err_opt e = (case e of None \<Rightarrow> Inr () | Some x \<Rightarrow> Inl x)"

abbreviation lift_err :: "oql_error + 'a \<Rightarrow> cerr + 'a" where
  "lift_err \<equiv> map_sum CErr id"

text \<open>
  The part of \<open>compile\<close> after the checks of the tree: \<open>q\<close> is the resolved query and \<open>s\<close> what the
  checks collected.
\<close>

definition finish_plan :: "string \<Rightarrow> eventType \<Rightarrow> options \<Rightarrow> oql_query \<Rightarrow> cstate \<Rightarrow> cerr + plan" where
  "finish_plan src et opt q s =
     bind_sum (lift_err (plan_kind_of (cs_hist s) q)) (\<lambda>kind.
     (let (from, to, anchor) = raw_range (op_now opt) opt q; rng = time_sub to from in
      bind_sum (lift_err (err_opt (check_range et (op_now opt) from to anchor))) (\<lambda>_.
      bind_sum (lift_err (choose_limit (op_defaultLimit opt) (op_maxLimit opt) kind (qu_limit q))) (\<lambda>lmt.
      bind_sum (choose_rollup et opt (cs_hist s) q rng) (\<lambda>ru.
      bind_sum (time_buckets kind (qu_timeseries q) from to rng ru) (\<lambda>(bucket, ru').
      bind_sum (lift_err (err_opt (check_raw et ru' rng anchor))) (\<lambda>_.
      bind_sum (err_opt (check_series kind q lmt (length (cs_columns s)) from to bucket)) (\<lambda>_.
      bind_sum (lift_err (check_compare (qu_compare q))) (\<lambda>cmp.
        Inr \<lparr>pl_source = src, pl_query = q, pl_event = et, pl_kind = kind, pl_from = from, pl_to = to,
             pl_bucket = bucket, pl_rollup = ru', pl_columns = cs_columns s, pl_facets = qu_facets q,
             pl_limit = lmt, pl_compare = cmp, pl_warnings = cs_warnings s,
             pl_variables = sort_strings (cs_vars s), pl_ignored = cs_ignored s,
             pl_vars = op_variables opt, pl_hist = cs_hist s\<rparr>)))))))))"

definition norm_options :: "gtime \<Rightarrow> options \<Rightarrow> options" where
  "norm_options clock opt =
     opt\<lparr>op_now := (if op_now opt = 0 then clock else op_now opt),
         op_defaultLimit := (if op_defaultLimit opt \<le> 0 then DefaultLimit else op_defaultLimit opt),
         op_maxLimit := (if op_maxLimit opt \<le> 0 then MaxTableLimit else op_maxLimit opt)\<rparr>"

definition compile :: "gtime \<Rightarrow> string \<Rightarrow> oql_query \<Rightarrow> options \<Rightarrow> cerr + plan" where
  "compile clock src q opt =
     (let o' = norm_options clock opt in
      case lookupEventType (qu_eventType q) of
        None \<Rightarrow> Inl CPanic
      | Some et \<Rightarrow> bind_sum (analyse et q (op_filters o') empty_cstate) (\<lambda>(q', s). finish_plan src et o' q' s))"

definition Compile :: "gtime \<Rightarrow> string \<Rightarrow> options \<Rightarrow> cerr + plan" where
  "Compile clock src opt =
     (case Parse src of
        Inl (Syntax e) \<Rightarrow> Inl (CErr e)
      | Inl OutOfFuel \<Rightarrow> Inl CPanic
      | Inr q \<Rightarrow> compile clock src q opt)"

record validation =
  va_valid :: bool
  va_eventType :: "string option"
  va_kind :: "string option"
  va_variables :: "string list"
  va_errors :: "diagnostic list"
  va_warnings :: "diagnostic list"

text \<open>\<open>Validate\<close>; \<open>None\<close> is a panic inside the compiler.\<close>

definition Validate :: "gtime \<Rightarrow> string \<Rightarrow> options \<Rightarrow> validation option" where
  "Validate clock src opt =
     (let bad = (\<lambda>et e. Some \<lparr>va_valid = False, va_eventType = et, va_kind = None, va_variables = [],
                   va_errors = [Diagnose src e], va_warnings = []\<rparr>) in
      case Parse src of
        Inl OutOfFuel \<Rightarrow> None
      | Inl (Syntax e) \<Rightarrow> bad None e
      | Inr q \<Rightarrow>
          (case compile clock src q opt of
             Inl CPanic \<Rightarrow> None
           | Inl (CErr e) \<Rightarrow> bad (Some (qu_eventType q)) e
           | Inr p \<Rightarrow>
               Some \<lparr>va_valid = True, va_eventType = Some (qu_eventType q), va_kind = Some (kind_text (pl_kind p)),
                     va_variables = pl_variables p, va_errors = [], va_warnings = map (Diagnose src) (pl_warnings p)\<rparr>))"

end
