(* ===== verification/OqlTranslate.thy ===== *)
theory OqlTranslate
  imports OqlPlan
begin

text \<open>
  Translation of a plan to a ClickHouse statement (\<^verbatim>\<open>internal/oql/translate.go\<close>). The Go builder
  mutates its parameter map, the parameter counter and the first error; here they are the state
  \<open>bstate\<close> the renderers pass along, in the order Go evaluates its calls. A nil dereference, an index
  outside a slice or a division by zero is the result \<open>None\<close>.
\<close>

section \<open>The builder\<close>

record builder =
  bd_plan :: plan
  bd_rollup :: bool
  bd_rateBase :: duration

record bstate =
  bs_params :: "(string \<times> param_value) list"
  bs_n :: nat
  bs_err :: "oql_error option"

type_synonym 'a bld = "bstate \<Rightarrow> ('a \<times> bstate) option"

definition b_ret :: "'a \<Rightarrow> 'a bld" where
  "b_ret x s = Some (x, s)"

definition b_panic :: "'a bld" where
  "b_panic s = None"

definition b_bind :: "'a bld \<Rightarrow> ('a \<Rightarrow> 'b bld) \<Rightarrow> 'b bld" where
  "b_bind f g s = (case f s of None \<Rightarrow> None | Some (x, s') \<Rightarrow> g x s')"

lemma b_bind_cong [fundef_cong]:
  "f = f' \<Longrightarrow> (\<And>x. g x = g' x) \<Longrightarrow> b_bind f g = b_bind f' g'"
  by (simp add: b_bind_def fun_eq_iff split: option.split)

definition b_need :: "'a option \<Rightarrow> ('a \<Rightarrow> 'b bld) \<Rightarrow> 'b bld" where
  "b_need x f = (case x of None \<Rightarrow> b_panic | Some y \<Rightarrow> f y)"

lemma b_need_cong [fundef_cong]:
  "x = x' \<Longrightarrow> (\<And>y. x' = Some y \<Longrightarrow> f y = f' y) \<Longrightarrow> b_need x f = b_need x' f'"
  by (simp add: b_need_def split: option.split)

fun b_map :: "('a \<Rightarrow> 'b bld) \<Rightarrow> 'a list \<Rightarrow> 'b list bld" where
  "b_map f [] = b_ret []"
| "b_map f (x # xs) = b_bind (f x) (\<lambda>y. b_bind (b_map f xs) (\<lambda>ys. b_ret (y # ys)))"

definition empty_bstate :: bstate where
  "empty_bstate = \<lparr>bs_params = [], bs_n = 0, bs_err = None\<rparr>"

definition newBuilder :: "plan \<Rightarrow> duration \<Rightarrow> builder" where
  "newBuilder p rateBase = \<lparr>bd_plan = p, bd_rollup = pl_rollup p, bd_rateBase = rateBase\<rparr>"

definition param_name :: "nat \<Rightarrow> string" where
  "param_name i = ''p'' @ show_nat i"

definition param_ref :: "string \<Rightarrow> string \<Rightarrow> string" where
  "param_ref name typ = ''{'' @ name @ '':'' @ typ @ ''}''"

definition set_param :: "string \<Rightarrow> param_value \<Rightarrow> unit bld" where
  "set_param name v s = Some ((), s\<lparr>bs_params := AList.update name v (bs_params s)\<rparr>)"

definition param :: "param_value \<Rightarrow> string \<Rightarrow> string bld" where
  "param v typ s =
     (let name = param_name (bs_n s) in
      Some (param_ref name typ, s\<lparr>bs_n := Suc (bs_n s), bs_params := AList.update name v (bs_params s)\<rparr>))"

definition b_fail :: "oql_error \<Rightarrow> unit bld" where
  "b_fail e s = Some ((), if bs_err s = None then s\<lparr>bs_err := Some e\<rparr> else s)"

definition apply_params :: "(string \<times> param_value) list \<Rightarrow> select \<Rightarrow> select" where
  "apply_params ps q = fold (\<lambda>(name, v). Param name v) ps q"

section \<open>Sources and attributes\<close>

definition source :: "builder \<Rightarrow> scope \<Rightarrow> select" where
  "source b sc =
     (let et = pl_event (bd_plan b) in
      if et_container et
      then FromSub sc (GroupBy [''host_id'', ''container_id''] (Columns containerColumns (From sc Containers)))
      else if bd_rollup b then From sc Metrics1m
      else if et_final et then Final (From sc (et_table et)) else From sc (et_table et))"

definition timeMillis :: "builder \<Rightarrow> string" where
  "timeMillis b =
     (if bd_rollup b then ''toInt64(toUnixTimestamp(timestamp)) * 1000''
      else ''toUnixTimestamp64Milli('' @ et_timeCol (pl_event (bd_plan b)) @ '')'')"

definition timeNanos :: "builder \<Rightarrow> string" where
  "timeNanos b =
     (if bd_rollup b then ''toInt64(toUnixTimestamp(timestamp)) * 1000000000''
      else ''toUnixTimestamp64Nano('' @ et_timeCol (pl_event (bd_plan b)) @ '')'')"

definition mapColumn :: "builder \<Rightarrow> string \<Rightarrow> string" where
  "mapColumn b kind =
     (if kind = ''resource'' then et_resource (pl_event (bd_plan b)) else et_attrMap (pl_event (bd_plan b)))"

definition attr_sql :: "builder \<Rightarrow> attr \<Rightarrow> string bld" where
  "attr_sql b a =
     b_need (at_res a) (\<lambda>r.
       case r_def r of
         None \<Rightarrow> b_bind (param (PString (r_key r)) ''String'') (\<lambda>p. b_ret (mapColumn b (r_mapKind r) @ ''['' @ p @ '']''))
       | Some d \<Rightarrow> b_ret (if bd_rollup b then ad_rollup d else ad_sql d))"

definition num_sql :: "builder \<Rightarrow> attr \<Rightarrow> string bld" where
  "num_sql b a =
     b_need (at_res a) (\<lambda>r.
       if r_isMap r then b_bind (attr_sql b a) (\<lambda>x. b_ret (''toFloat64OrNull('' @ x @ '')''))
       else if r_typ r = TBool then b_bind (attr_sql b a) (\<lambda>x. b_ret (''toFloat64('' @ x @ '')''))
       else attr_sql b a)"

section \<open>Conditions\<close>

text \<open>\<open>ContainsSQL\<close> of \<^verbatim>\<open>internal/querybuilder/sql.go\<close>.\<close>

definition ContainsSQL :: "string \<Rightarrow> string \<Rightarrow> string" where
  "ContainsSQL expr needle = ''positionCaseInsensitiveUTF8('' @ expr @ '', '' @ needle @ '') > 0''"

text \<open>
  \<open>var_values\<close> expands the values of one variable, \<open>expand_values\<close> those of a predicate; \<open>None\<close> is Go's
  \<^verbatim>\<open>ok=false\<close>.
\<close>

definition var_value :: "resolved \<Rightarrow> oql_value \<Rightarrow> string \<Rightarrow> oql_value" where
  "var_value r v s =
     (case ParseFloat s of
        Some f \<Rightarrow>
          if r_typ r = TNumber then zero_value\<lparr>v_kind := ValNumber, v_num := f, v_str := s, v_span := v_span v\<rparr>
          else zero_value\<lparr>v_kind := ValString, v_str := s, v_span := v_span v\<rparr>
      | None \<Rightarrow> zero_value\<lparr>v_kind := ValString, v_str := s, v_span := v_span v\<rparr>)"

definition long_var_err :: "oql_value \<Rightarrow> oql_error" where
  "long_var_err v =
     span_err (v_span v) ''value of variable {{%s}} is longer than %d bytes'' [v_var v, show_nat maxStringBytes]"

fun var_values :: "attr \<Rightarrow> string \<Rightarrow> span \<Rightarrow> resolved \<Rightarrow> oql_value \<Rightarrow> string list \<Rightarrow> oql_value list option bld" where
  "var_values a op sp r v [] = b_ret (Some [])"
| "var_values a op sp r v (s # ss) =
     (if s = ''*'' then b_ret None
      else if length s > maxStringBytes then b_bind (b_fail (long_var_err v)) (\<lambda>_. b_ret None)
      else case checkValue a op sp r (var_value r v s) of
        Some e \<Rightarrow> b_bind (b_fail e) (\<lambda>_. b_ret None)
      | None \<Rightarrow> b_bind (var_values a op sp r v ss) (\<lambda>out. b_ret (map_option ((#) (var_value r v s)) out)))"

fun expand_values :: "builder \<Rightarrow> attr \<Rightarrow> string \<Rightarrow> span \<Rightarrow> resolved \<Rightarrow> oql_value list \<Rightarrow> oql_value list option bld" where
  "expand_values b a op sp r [] = b_ret (Some [])"
| "expand_values b a op sp r (v # vs) =
     (if v_kind v \<noteq> ValVariable then b_bind (expand_values b a op sp r vs) (\<lambda>out. b_ret (map_option ((#) v) out))
      else case pl_vars (bd_plan b) (v_var v) of
        None \<Rightarrow> b_ret None
      | Some [] \<Rightarrow> b_ret None
      | Some xs \<Rightarrow>
          b_bind (var_values a op sp r v xs) (\<lambda>first.
            case first of
              None \<Rightarrow> b_ret None
            | Some ws \<Rightarrow> b_bind (expand_values b a op sp r vs) (\<lambda>out. b_ret (map_option ((@) ws) out))))"

definition compareKind :: "resolved \<Rightarrow> oql_value list \<Rightarrow> attrType" where
  "compareKind r vals =
     (if \<not> r_isMap r then r_typ r
      else if list_all (\<lambda>v. v_kind v = ValNumber) vals then TNumber else TString)"

definition scalar :: "builder \<Rightarrow> attr \<Rightarrow> string \<Rightarrow> oql_value \<Rightarrow> attrType \<Rightarrow> string bld" where
  "scalar b a op v cmp =
     (case cmp of
        TNumber \<Rightarrow>
          b_bind (num_sql b a) (\<lambda>x.
          b_bind (param (PFloat (if v_kind v \<noteq> ValNumber then ParseFloat_value (v_str v) else v_num v)) ''Float64'') (\<lambda>p.
            b_ret (x @ '' '' @ op @ '' '' @ p)))
      | TBool \<Rightarrow>
          b_bind (attr_sql b a) (\<lambda>x.
          b_bind (param (PBool (boolOf v = Some True)) ''Bool'') (\<lambda>p. b_ret (x @ '' '' @ op @ '' '' @ p)))
      | TString \<Rightarrow>
          b_bind (attr_sql b a) (\<lambda>x.
          b_bind (param (PString (v_str v)) ''String'') (\<lambda>p. b_ret (x @ '' '' @ op @ '' '' @ p))))"

text \<open>The operator after the values are known: several values turn an equality into a list test.\<close>

definition list_op :: "string \<Rightarrow> nat \<Rightarrow> string option" where
  "list_op op n =
     (if n \<le> 1 then Some op
      else if op = ''='' then Some ''in''
      else if op = ''!='' then Some ''not in''
      else if op = ''in'' \<or> op = ''not in'' then Some op
      else None)"

definition negate :: "bool \<Rightarrow> string \<Rightarrow> string" where
  "negate neg c = (if neg then ''NOT ('' @ c @ '')'' else c)"

definition null_test :: "builder \<Rightarrow> attr \<Rightarrow> resolved \<Rightarrow> bool \<Rightarrow> string bld" where
  "null_test b a r isNull =
     (if r_isMap r then
        b_bind (param (PString (r_key r)) ''String'') (\<lambda>p.
          let c = ''mapContains('' @ mapColumn b (r_mapKind r) @ '', '' @ p @ '')'' in
          b_ret (if isNull then ''NOT '' @ c else c))
      else if r_typ r = TString then
        b_bind (attr_sql b a) (\<lambda>x. b_ret ((if isNull then ''empty('' else ''notEmpty('') @ x @ '')''))
      else b_ret (if isNull then ''0'' else ''1''))"

definition in_list :: "builder \<Rightarrow> attr \<Rightarrow> resolved \<Rightarrow> oql_value list \<Rightarrow> string bld" where
  "in_list b a r vals =
     (case compareKind r vals of
        TString \<Rightarrow>
          b_bind (param (PStrings (map v_str vals)) ''Array(String)'') (\<lambda>p.
          b_bind (attr_sql b a) (\<lambda>x. b_ret (''has('' @ p @ '', '' @ x @ '')'')))
      | cmp \<Rightarrow> b_bind (b_map (\<lambda>v. scalar b a ''='' v cmp) vals) (\<lambda>parts. b_ret (join_with '' OR '' parts)))"

definition several_err :: "span \<Rightarrow> oql_error" where
  "several_err sp = span_err sp ''a variable with several values can only be used with =, !=, IN or NOT IN'' []"

definition compare :: "builder \<Rightarrow> attr \<Rightarrow> resolved \<Rightarrow> string \<Rightarrow> oql_value list \<Rightarrow> string bld" where
  "compare b a r op vals =
     (if op = ''like'' \<or> op = ''not like'' then
        b_bind (attr_sql b a) (\<lambda>x.
        b_need (case vals of [] \<Rightarrow> None | v # _ \<Rightarrow> Some v) (\<lambda>v.
        b_bind (param (PString (v_str v)) ''String'') (\<lambda>p. b_ret (negate (op = ''not like'') (x @ '' LIKE '' @ p)))))
      else if op = ''contains'' \<or> op = ''not contains'' then
        b_bind (attr_sql b a) (\<lambda>x.
        b_need (case vals of [] \<Rightarrow> None | v # _ \<Rightarrow> Some v) (\<lambda>v.
        b_bind (param (PString (v_str v)) ''String'') (\<lambda>p. b_ret (negate (op = ''not contains'') (ContainsSQL x p)))))
      else if op = ''in'' \<or> op = ''not in'' then
        b_bind (in_list b a r vals) (\<lambda>c. b_ret (if op = ''not in'' then negate True c else ''('' @ c @ '')''))
      else
        b_need (case vals of [] \<Rightarrow> None | v # _ \<Rightarrow> Some v) (\<lambda>v. scalar b a op v (compareKind r vals)))"

definition predicate :: "builder \<Rightarrow> attr \<Rightarrow> string \<Rightarrow> oql_value list \<Rightarrow> span \<Rightarrow> string bld" where
  "predicate b a op vs sp =
     b_need (at_res a) (\<lambda>r.
       if op = ''is null'' \<or> op = ''is not null'' then null_test b a r (op = ''is null'')
       else b_bind (expand_values b a op sp r vs) (\<lambda>vals.
         case vals of
           None \<Rightarrow> b_ret ''1''
         | Some ws \<Rightarrow>
             (case list_op op (length ws) of
                None \<Rightarrow> b_bind (b_fail (several_err sp)) (\<lambda>_. b_ret ''0'')
              | Some op' \<Rightarrow> compare b a r op' ws)))"

definition join_cond :: "string \<Rightarrow> string \<Rightarrow> string \<Rightarrow> string" where
  "join_cond op l r =
     (if op = ''and'' then
        (if l = ''1'' then r else if r = ''1'' then l else ''('' @ l @ '') AND ('' @ r @ '')'')
      else if l = ''1'' \<or> r = ''1'' then ''1''
      else ''('' @ l @ '') OR ('' @ r @ '')'')"

fun cond :: "builder \<Rightarrow> expr \<Rightarrow> string bld" where
  "cond b (Logical op l r) = b_bind (cond b l) (\<lambda>x. b_bind (cond b r) (\<lambda>y. b_ret (join_cond op x y)))"
| "cond b (Not x sp) = b_bind (cond b x) (\<lambda>c. b_ret (''NOT ('' @ c @ '')''))"
| "cond b (Predicate a op vs sp) = predicate b a op vs sp"

definition filters :: "builder \<Rightarrow> gtime \<Rightarrow> gtime \<Rightarrow> string list bld" where
  "filters b from to =
     (let et = pl_event (bd_plan b); col = et_timeCol et;
          range = col @ '' >= fromUnixTimestamp64Nano({t_from:Int64}) AND '' @ col @
            '' < fromUnixTimestamp64Nano({t_to:Int64})'' in
      b_bind (set_param ''t_from'' (PInt (to_unix_nano from))) (\<lambda>_.
      b_bind (set_param ''t_to'' (PInt (to_unix_nano to))) (\<lambda>_.
        case qu_where (pl_query (bd_plan b)) of
          None \<Rightarrow> b_ret (range # et_base et)
        | Some w \<Rightarrow>
            b_bind (cond b w) (\<lambda>c. b_ret (range # et_base et @ (if c \<noteq> ''1'' then [c] else []))))))"


section \<open>Aggregates\<close>

definition ifName :: "string \<Rightarrow> string \<Rightarrow> string" where
  "ifName fn c = (if c = [] then fn else fn @ ''If'')"

definition withCond :: "string \<Rightarrow> string \<Rightarrow> string" where
  "withCond args c = (if c = [] then ''('' @ args @ '')'' else ''('' @ args @ '', '' @ c @ '')'')"

definition andCond :: "string \<Rightarrow> string \<Rightarrow> string" where
  "andCond a c =
     (if a = [] \<or> a = ''1'' then c else if c = [] \<or> c = ''1'' then a else ''('' @ a @ '') AND ('' @ c @ '')'')"

text \<open>\<^verbatim>\<open>Duration.Seconds\<close>.\<close>

definition Seconds :: "duration \<Rightarrow> f64" where
  "Seconds d = f_add (f_of_int (d sdiv second)) (f_div (f_of_int (d smod second)) (f_of_int 1000000000))"

definition rateFactor :: "builder \<Rightarrow> durationLit option \<Rightarrow> f64 option" where
  "rateFactor b per =
     (if bd_rateBase b \<le> 0 then Some (FNum False 0)
      else map_option (\<lambda>d. f_div (Seconds (dl_d d)) (Seconds (bd_rateBase b))) per)"

definition rate_sql :: "builder \<Rightarrow> durationLit option \<Rightarrow> string \<Rightarrow> string bld" where
  "rate_sql b per x =
     b_need (rateFactor b per) (\<lambda>f. b_bind (param (PFloat f) ''Float64'') (\<lambda>p. b_ret (''('' @ x @ '') * '' @ p)))"

definition cond_opt :: "builder \<Rightarrow> expr option \<Rightarrow> string bld" where
  "cond_opt b c = (case c of None \<Rightarrow> b_ret ''0'' | Some e \<Rightarrow> cond b e)"

definition count_map :: "attr option \<Rightarrow> (resolved \<Rightarrow> string bld) \<Rightarrow> string bld \<Rightarrow> bool \<Rightarrow> string bld" where
  "count_map arg mapped plain star =
     (if star then plain
      else b_need arg (\<lambda>a. b_need (at_res a) (\<lambda>r. if r_isMap r then mapped r else plain)))"

fun rollupAgg :: "builder \<Rightarrow> agg \<Rightarrow> string \<Rightarrow> string bld" where
  "rollupAgg b (Agg fn name star arg inner levels per cnd roof nb sp tx) c =
     (if fn = ''count'' then
        count_map arg
          (\<lambda>r. b_bind (param (PString (r_key r)) ''String'') (\<lambda>p.
             b_ret (''sumIf(value_count, '' @ andCond (''mapContains(attributes, '' @ p @ '')'') c @ '')'')))
          (b_ret (ifName ''sum'' c @ withCond ''value_count'' c)) star
      else if fn = ''sum'' then b_ret (ifName ''sum'' c @ withCond ''value_sum'' c)
      else if fn = ''average'' then
        b_ret (ifName ''sum'' c @ withCond ''value_sum'' c @ '' / '' @ ifName ''sum'' c @ withCond ''value_count'' c)
      else if fn = ''min'' then b_ret (ifName ''min'' c @ withCond ''value_min'' c)
      else if fn = ''max'' then b_ret (ifName ''max'' c @ withCond ''value_max'' c)
      else if fn = ''latest'' then b_ret ''argMaxMerge(value_last)''
      else if fn = ''uniquecount'' then
        b_need arg (\<lambda>a. b_bind (attr_sql b a) (\<lambda>x. b_ret (ifName ''uniqExact'' c @ withCond x c)))
      else if fn = ''rate'' then
        b_bind (case inner of None \<Rightarrow> b_panic | Some i \<Rightarrow> rollupAgg b i c) (\<lambda>x. rate_sql b per x)
      else if fn = ''filter'' then
        b_bind (cond_opt b cnd) (\<lambda>k. case inner of None \<Rightarrow> b_panic | Some i \<Rightarrow> rollupAgg b i (andCond c k))
      else b_ret ''0'')"

definition plain_fn :: "string \<Rightarrow> string" where
  "plain_fn fn = (if fn = ''average'' then ''avg'' else fn)"

fun raw_agg :: "builder \<Rightarrow> agg \<Rightarrow> f64 \<Rightarrow> string \<Rightarrow> string bld" where
  "raw_agg b (Agg fn name star arg inner levels per cnd roof nb sp tx) level c =
     (if fn = ''count'' then
        count_map arg
          (\<lambda>r. b_bind (param (PString (r_key r)) ''String'') (\<lambda>p.
             b_ret (''countIf('' @ andCond (''mapContains('' @ mapColumn b (r_mapKind r) @ '', '' @ p @ '')'') c @ '')'')))
          (b_ret (if c = [] then ''count()'' else ''countIf('' @ c @ '')'')) star
      else if fn = ''sum'' \<or> fn = ''average'' \<or> fn = ''min'' \<or> fn = ''max'' then
        b_need arg (\<lambda>a. b_bind (num_sql b a) (\<lambda>x. b_ret (ifName (plain_fn fn) c @ withCond x c)))
      else if fn = ''uniquecount'' then
        b_need arg (\<lambda>a. b_bind (attr_sql b a) (\<lambda>x. b_ret (ifName ''uniqExact'' c @ withCond x c)))
      else if fn = ''percentile'' \<or> fn = ''median'' then
        b_need arg (\<lambda>a. b_bind (num_sql b a) (\<lambda>x.
          b_ret (ifName ''quantile'' c @ ''('' @ format_f (f_div level (f_of_int 100)) @ '')'' @ withCond x c)))
      else if fn = ''latest'' \<or> fn = ''earliest'' then
        b_need arg (\<lambda>a. b_bind (attr_sql b a) (\<lambda>x. b_need (at_res a) (\<lambda>r.
          b_ret (ifName (if fn = ''earliest'' then ''argMin'' else ''argMax'') c @
            withCond ((if r_typ r = TBool then ''toFloat64('' @ x @ '')'' else x) @ '', '' @
              et_timeCol (pl_event (bd_plan b))) c))))
      else if fn = ''rate'' then
        b_bind (case inner of None \<Rightarrow> b_panic | Some i \<Rightarrow> raw_agg b i level c) (\<lambda>x. rate_sql b per x)
      else if fn = ''filter'' then
        b_bind (cond_opt b cnd) (\<lambda>k. case inner of None \<Rightarrow> b_panic | Some i \<Rightarrow> raw_agg b i level (andCond c k))
      else b_ret ''0'')"

definition agg_sql :: "builder \<Rightarrow> agg \<Rightarrow> f64 \<Rightarrow> string \<Rightarrow> string bld" where
  "agg_sql b a level c = (if bd_rollup b then rollupAgg b a c else raw_agg b a level c)"

definition column_sql :: "builder \<Rightarrow> column \<Rightarrow> string bld" where
  "column_sql b col =
     b_bind (agg_sql b (cl_agg col) (cl_level col) []) (\<lambda>sql.
       b_ret (if cl_type col = TString then ''toString('' @ sql @ '')''
              else ''CAST('' @ sql @ '' AS Nullable(Float64))''))"

definition facetExprs :: "builder \<Rightarrow> string list bld" where
  "facetExprs b = b_map (\<lambda>f. b_bind (attr_sql b f) (\<lambda>x. b_ret (''toString('' @ x @ '')''))) (pl_facets (bd_plan b))"

fun columns_from :: "builder \<Rightarrow> nat \<Rightarrow> column list \<Rightarrow> string list bld" where
  "columns_from b i [] = b_ret []"
| "columns_from b i (c # cs) =
     b_bind (column_sql b c) (\<lambda>x. b_bind (columns_from b (Suc i) cs) (\<lambda>xs. b_ret ((x @ '' AS a'' @ show_nat i) # xs)))"

definition columns_sql :: "builder \<Rightarrow> string list bld" where
  "columns_sql b = columns_from b 0 (pl_columns (bd_plan b))"

section \<open>Statements\<close>

definition facet_alias :: "nat \<Rightarrow> string" where
  "facet_alias i = ''f'' @ show_nat i"

definition aliases :: "string list \<Rightarrow> string list" where
  "aliases fe = map facet_alias [0..<length fe]"

definition aliased :: "string list \<Rightarrow> string list" where
  "aliased fe = map (\<lambda>i. fe ! i @ '' AS '' @ facet_alias i) [0..<length fe]"

definition histogram_select :: "builder \<Rightarrow> select \<Rightarrow> (select \<times> string list) bld" where
  "histogram_select b q =
     b_need (pl_hist (bd_plan b)) (\<lambda>h. b_need (ag_arg h) (\<lambda>arg.
       b_bind (num_sql b arg) (\<lambda>x.
       b_bind (param (PFloat (ag_ceiling h)) ''Float64'') (\<lambda>p.
       b_bind (param (PFloat (f_div (ag_ceiling h) (f_of_int (ag_buckets h)))) ''Float64'') (\<lambda>w.
         b_ret (OrderBy [''hb''] (GroupBy [''hb'']
             (Columns [''toInt64(assumeNotNull(floor('' @ x @ '' / '' @ w @ ''))) AS hb'',
                       ''CAST(count() AS Nullable(Float64)) AS a0''] q)),
           [x @ '' >= 0 AND '' @ x @ '' < '' @ p]))))))"

definition facets_select :: "builder \<Rightarrow> select \<Rightarrow> select bld" where
  "facets_select b q =
     b_bind (facetExprs b) (\<lambda>fe. b_bind (columns_sql b) (\<lambda>cols.
       b_ret (Limit (pl_limit (bd_plan b) + 1) (OrderBy (''a0 DESC'' # aliases fe) (GroupBy (aliases fe)
         (Columns (aliased fe @ cols) q))))))"

definition bucket_sql :: "builder \<Rightarrow> string" where
  "bucket_sql b = ''toInt64(intDiv('' @ timeMillis b @ '', {b_ms:Int64}) * {b_ms:Int64}) AS bk''"

definition tuple_sql :: "string list \<Rightarrow> string" where
  "tuple_sql fe = (case fe of [x] \<Rightarrow> x | _ \<Rightarrow> ''('' @ join_with '', '' fe @ '')'')"

definition top_groups :: "builder \<Rightarrow> scope \<Rightarrow> string list \<Rightarrow> string list \<Rightarrow> select bld" where
  "top_groups b sc conds fe =
     b_need (case pl_columns (bd_plan b) of [] \<Rightarrow> None | c # _ \<Rightarrow> Some c) (\<lambda>c.
       b_bind (agg_sql b (cl_agg c) (cl_level c) []) (\<lambda>a.
         b_ret (Limit (pl_limit (bd_plan b)) (OrderBy ((a @ '' DESC'') # fe) (GroupBy fe (Columns fe
           (fold Where conds (source b sc))))))))"

definition series_select :: "builder \<Rightarrow> scope \<Rightarrow> string list \<Rightarrow> select \<Rightarrow> (select \<times> (string \<times> select) option) bld" where
  "series_select b sc conds q =
     b_bind (facetExprs b) (\<lambda>fe.
     b_bind (set_param ''b_ms'' (PInt (pl_bucket (bd_plan b) sdiv 1000000))) (\<lambda>_.
     b_bind (columns_sql b) (\<lambda>cols.
       let q1 = Limit (maxPoints + 1) (OrderBy [''bk''] (GroupBy (aliases fe @ [''bk''])
                  (Columns (aliased fe @ [bucket_sql b] @ cols) q))) in
       if fe = [] then b_ret (q1, None)
       else b_bind (top_groups b sc conds fe) (\<lambda>sub. b_ret (q1, Some (tuple_sql fe, sub))))))"

text \<open>The select of the plan before its conditions are added, and what the kind adds to the conditions.\<close>

definition main_select ::
  "builder \<Rightarrow> scope \<Rightarrow> string list \<Rightarrow> (select \<times> string list \<times> (string \<times> select) option) bld" where
  "main_select b sc conds =
     (let q = source b sc in
      case pl_kind (bd_plan b) of
        KindHistogram \<Rightarrow> b_bind (histogram_select b q) (\<lambda>(q', extra). b_ret (q', extra, None))
      | KindSingle \<Rightarrow> b_bind (columns_sql b) (\<lambda>cols. b_ret (Columns cols q, [], None))
      | KindFacets \<Rightarrow> b_bind (facets_select b q) (\<lambda>q'. b_ret (q', [], None))
      | KindTimeseries \<Rightarrow> b_bind (series_select b sc conds q) (\<lambda>(q', sub). b_ret (q', [], sub)))"

definition build_sql ::
  "builder \<Rightarrow> scope \<Rightarrow> gtime \<Rightarrow> gtime \<Rightarrow> (select \<times> string list \<times> (string \<times> select) option) bld" where
  "build_sql b sc from to =
     b_bind (filters b from to) (\<lambda>conds. b_bind (main_select b sc conds) (\<lambda>(q, extra, sub). b_ret (q, conds @ extra, sub)))"

text \<open>
  Without an error the parameters are bound to both selects; the deferred \<^verbatim>\<open>WhereIn\<close> runs last.
\<close>

definition finish_select :: "bstate \<Rightarrow> select \<Rightarrow> string list \<Rightarrow> (string \<times> select) option \<Rightarrow> oql_error + select" where
  "finish_select s q conds sub =
     (case bs_err s of
        Some e \<Rightarrow> Inl e
      | None \<Rightarrow>
          (let q1 = apply_params (bs_params s) (fold Where conds q) in
           case sub of
             None \<Rightarrow> Inr q1
           | Some (tuple, inner) \<Rightarrow> Inr (WhereIn tuple (apply_params (bs_params s) inner) q1)))"

definition rate_base :: "plan \<Rightarrow> gtime \<Rightarrow> gtime \<Rightarrow> duration" where
  "rate_base p from to = (if pl_kind p = KindTimeseries then pl_bucket p else time_sub to from)"

definition build :: "plan \<Rightarrow> scope \<Rightarrow> gtime \<Rightarrow> gtime \<Rightarrow> (oql_error + select) option" where
  "build p sc from to =
     (case build_sql (newBuilder p (rate_base p from to)) sc from to empty_bstate of
        None \<Rightarrow> None
      | Some ((q, conds, sub), s) \<Rightarrow> Some (finish_select s q conds sub))"

text \<open>
  \<open>buildWindows\<close>: the windows of alert ranges, always on the raw table.
\<close>

definition window_sql :: "builder \<Rightarrow> string" where
  "window_sql b =
     (let d = timeNanos b @ '' - {w_origin:Int64}'' in
      ''arrayJoin(range(toUInt64(intDiv('' @ d @ '', {w_step:Int64}) + 1), toUInt64(intDiv('' @ d @
      '' + {w_win:Int64}, {w_step:Int64}) + 1))) AS ei'')"

definition windows_sql ::
  "builder \<Rightarrow> scope \<Rightarrow> gtime \<Rightarrow> duration \<Rightarrow> duration \<Rightarrow> int \<Rightarrow> int \<Rightarrow> int \<Rightarrow> (select \<times> string list) bld" where
  "windows_sql b sc origin step window n maxRows k =
     b_bind (filters b (origin + wrap64 (step - window)) (origin + wrap64 (n * step))) (\<lambda>conds.
     b_bind (set_param ''w_origin'' (PInt (to_unix_nano (origin + wrap64 (- k * step))))) (\<lambda>_.
     b_bind (set_param ''w_step'' (PInt step)) (\<lambda>_.
     b_bind (set_param ''w_win'' (PInt window)) (\<lambda>_.
     b_bind (facetExprs b) (\<lambda>fe.
     b_bind (columns_sql b) (\<lambda>cols.
       b_ret (Limit (maxRows + 1) (GroupBy (aliases fe @ [''ei''])
         (Columns (aliased fe @ [window_sql b] @ cols) (source b sc))), conds)))))))"

definition buildWindows ::
  "plan \<Rightarrow> scope \<Rightarrow> gtime \<Rightarrow> duration \<Rightarrow> duration \<Rightarrow> int \<Rightarrow> int \<Rightarrow> (oql_error + select \<times> int) option" where
  "buildWindows p sc origin step window n maxRows =
     (if step = 0 then None
      else
        let b = (newBuilder p window)\<lparr>bd_rollup := False\<rparr>; k = wrap64 (window + step - 1) sdiv step in
        case windows_sql b sc origin step window n maxRows k empty_bstate of
          None \<Rightarrow> None
        | Some ((q, conds), s) \<Rightarrow> Some (map_sum id (\<lambda>r. (r, k)) (finish_select s q conds None)))"

datatype sql_error = PlanError oql_error | BuildError query_error

definition SQL :: "plan \<Rightarrow> scope \<Rightarrow> (sql_error + string \<times> (string \<times> string) list) option" where
  "SQL p sc =
     (case build p sc (pl_from p) (pl_to p) of
        None \<Rightarrow> None
      | Some (Inl e) \<Rightarrow> Some (Inl (PlanError e))
      | Some (Inr q) \<Rightarrow> Some (map_sum BuildError id (Build q)))"

end
