(* ===== verification/OqlPlanCorrect.thy ===== *)
theory OqlPlanCorrect
  imports OqlPlan
begin

text \<open>
  Correctness of compilation: on every text it ends with a plan or a positioned error and never
  dereferences nil; a plan has every attribute resolved against the whitelist of its event type and
  keeps the limits on time range, rows, buckets, series and points.
\<close>

section \<open>Weakest preconditions of checks\<close>

definition cwp :: "nat \<Rightarrow> 'a comp \<Rightarrow> ('a \<Rightarrow> cstate \<Rightarrow> bool) \<Rightarrow> cstate \<Rightarrow> bool" where
  "cwp n f Q s =
     (case f s of
        Inl CPanic \<Rightarrow> False
      | Inl (CErr e) \<Rightarrow> err_within n e
      | Inr (x, s') \<Rightarrow> Q x s')"

named_theorems cwp_simp \<open>weakest preconditions of the combinators\<close>

lemma cwp_ret [cwp_simp]: "cwp n (c_ret x) Q = Q x"
  by (simp add: cwp_def c_ret_def fun_eq_iff)

lemma cwp_fail [cwp_simp]: "cwp n (c_fail e) Q = (\<lambda>_. err_within n e)"
  by (simp add: cwp_def c_fail_def fun_eq_iff)

lemma cwp_bind [cwp_simp]: "cwp n (c_bind f g) Q = cwp n f (\<lambda>x. cwp n (g x) Q)"
  by (auto simp: cwp_def c_bind_def fun_eq_iff split: sum.splits cerr.splits)

lemma cwp_mod [cwp_simp]: "cwp n (c_mod f) Q = (\<lambda>s. Q () (f s))"
  by (simp add: cwp_def c_mod_def fun_eq_iff)

lemma cwp_need [cwp_simp]: "cwp n (need x f) Q = (\<lambda>s. \<exists>y. x = Some y \<and> cwp n (f y) Q s)"
  by (cases x) (simp_all add: need_def cwp_def c_panic_def fun_eq_iff)

lemma cwp_mono: "cwp n f Q s \<Longrightarrow> (\<And>x s'. Q x s' \<Longrightarrow> R x s') \<Longrightarrow> cwp n f R s"
  by (auto simp: cwp_def split: sum.splits cerr.splits)

lemma cwp_c_map:
  assumes "\<And>x s. x \<in> set xs \<Longrightarrow> I s \<Longrightarrow> cwp n (f x) (\<lambda>y s'. P x y \<and> I s') s" and "I s"
    and "\<And>ys s'. list_all2 P xs ys \<Longrightarrow> I s' \<Longrightarrow> Q ys s'"
  shows "cwp n (c_map f xs) Q s"
  using assms
proof (induction xs arbitrary: s Q)
  case (Cons x xs)
  have "cwp n (f x) (\<lambda>y s'. P x y \<and> I s') s" using Cons.prems by simp
  then show ?case
    unfolding c_map.simps cwp_bind
  proof (rule cwp_mono)
    fix y s1 assume y: "P x y \<and> I s1"
    show "cwp n (c_map f xs) (\<lambda>ys. cwp n (c_ret (y # ys)) Q) s1"
      using y by (intro Cons.IH) (auto simp: cwp_ret intro!: Cons.prems(1,3))
  qed
qed (simp add: cwp_ret)

lemma cwp_c_map_ne:
  assumes "xs \<noteq> []" and f: "\<And>x s. x \<in> set xs \<Longrightarrow> I s \<Longrightarrow> cwp n (f x) (\<lambda>y s'. P x y \<and> J s') s"
    and "\<And>s. J s \<Longrightarrow> I s" and "I s" and Q: "\<And>ys s'. list_all2 P xs ys \<Longrightarrow> J s' \<Longrightarrow> Q ys s'"
  shows "cwp n (c_map f xs) Q s"
proof -
  obtain x ys where xs: "xs = x # ys" using assms(1) by (cases xs) auto
  show ?thesis
    unfolding xs c_map.simps cwp_bind
  proof (rule cwp_mono [OF f [OF _ assms(4)]])
    fix y s1 assume y: "P x y \<and> J s1"
    show "cwp n (c_map f ys) (\<lambda>zs. cwp n (c_ret (y # zs)) Q) s1"
      using y xs assms(3) by (intro cwp_c_map [where I = J and P = P]) (auto simp: cwp_ret intro!: f Q)
  qed (simp add: xs)
qed

text \<open>Warnings stay inside the text; the checks of the tree leave columns and histogram alone.\<close>

definition wok :: "nat \<Rightarrow> cstate \<Rightarrow> bool" where
  "wok n s \<longleftrightarrow> list_all (err_within n) (cs_warnings s)"

definition keeps :: "nat \<Rightarrow> cstate \<Rightarrow> cstate \<Rightarrow> bool" where
  "keeps n s s' \<longleftrightarrow> wok n s' \<and> cs_columns s' = cs_columns s \<and> cs_hist s' = cs_hist s"

lemma keeps_refl: "wok n s \<Longrightarrow> keeps n s s"
  by (simp add: keeps_def)

lemma keeps_trans: "keeps n s t \<Longrightarrow> keeps n t u \<Longrightarrow> keeps n s u"
  by (simp add: keeps_def)

lemma keeps_wok: "keeps n s t \<Longrightarrow> wok n t"
  by (simp add: keeps_def)

section \<open>Resolved attributes\<close>

text \<open>
  What a reference of event type \<open>et\<close> may resolve to: an attribute of its whitelist, or a lookup in a
  map column it has. An implicit lookup is never of \<^verbatim>\<open>tenant_id\<close> or of a name with an underscore first.
\<close>

definition res_ok :: "eventType \<Rightarrow> resolved \<Rightarrow> bool" where
  "res_ok et r \<longleftrightarrow>
     (case r_def r of
        Some d \<Rightarrow> d \<in> set (et_attrs et)
      | None \<Rightarrow>
          (r_mapKind r = ''attributes'' \<and> et_attrMap et \<noteq> [] \<or> r_mapKind r = ''resource'' \<and> et_resource et \<noteq> []) \<and>
          r_key r \<noteq> [] \<and> length (r_key r) \<le> 256 \<and>
          (r_implicit r \<longrightarrow> r_key r \<noteq> ''tenant_id'' \<and> \<not> has_prefix (r_key r) ''_''))"

definition attr_res :: "eventType \<Rightarrow> attr \<Rightarrow> bool" where
  "attr_res et a \<longleftrightarrow> (\<exists>r. at_res a = Some r \<and> res_ok et r)"

lemma byName_in: "byName et x = Some d \<Longrightarrow> d \<in> set (et_attrs et)"
  by (auto simp: byName_def name_entries_def dest!: map_of_SomeD)

lemma implicit_warning_within: "attr_ok n a \<Longrightarrow> err_within n (implicit_warning et a)"
  by (simp add: implicit_warning_def attr_ok_def)

lemma cwp_resolve:
  assumes "attr_ok n a" and "wok n s"
  shows "cwp n (resolve et a) (\<lambda>a' s'. (\<exists>r. a' = set_res r a \<and> res_ok et r) \<and> keeps n s s') s"
proof -
  have sp: "span_within n (at_span a)" and none: "at_res a = None" using assms by (auto simp: attr_ok_def)
  have maps: "res_ok et (map_res (at_map a) (at_key a) False)"
    if "at_map a \<noteq> []" "\<not> (at_map a = ''attributes'' \<and> et_attrMap et = [])" "\<not> (at_map a = ''resource'' \<and> et_resource et = [])"
    using that assms(1) by (auto simp: res_ok_def map_res_def attr_ok_def key_ok_def)
  have impl: "res_ok et (map_res ''attributes'' (at_name a) True)"
    if "at_map a = []" "at_name a \<noteq> ''tenant_id''" "\<not> has_prefix (at_name a) ''_''" "et_attrMap et \<noteq> []"
    using that assms(1) by (auto simp: res_ok_def map_res_def attr_ok_def)
  have defs: "res_ok et (def_res d)" if "byName et (at_name a) = Some d" for d
    using byName_in [OF that] by (simp add: res_ok_def def_res_def)
  have warn: "keeps n s (s\<lparr>cs_warnings := cs_warnings s @ [implicit_warning et a]\<rparr>)"
    using assms implicit_warning_within by (simp add: keeps_def wok_def)
  show ?thesis
  proof (cases "at_map a = []")
    case True
    then show ?thesis
      using sp none impl defs warn keeps_refl [OF assms(2)]
      by (auto simp: resolve_def cwp_simp unknown_attr_def add_warning_def split: option.split)
  next
    case False
    then show ?thesis
      using sp none maps keeps_refl [OF assms(2)] by (auto simp: resolve_def cwp_simp)
  qed
qed

section \<open>Conditions\<close>

text \<open>
  A predicate before checking: as parsed, or added by a filter and resolved already. After checking
  its attribute is resolved, its operator has the right number of values and every literal fits the
  type of the attribute.
\<close>

definition pred_res :: "eventType \<Rightarrow> attr \<Rightarrow> string \<Rightarrow> oql_value list \<Rightarrow> span \<Rightarrow> bool" where
  "pred_res et a op vs sp \<longleftrightarrow>
     (\<exists>r. at_res a = Some r \<and> res_ok et r \<and>
        (\<forall>v \<in> set vs. v_kind v = ValVariable \<or> checkValue a op sp r v = None)) \<and>
     op \<in> set ops \<and> arity_ok op (length vs)"

fun expr_in :: "nat \<Rightarrow> eventType \<Rightarrow> expr \<Rightarrow> bool" where
  "expr_in n et (Logical op l r) = ((op = ''and'' \<or> op = ''or'') \<and> expr_in n et l \<and> expr_in n et r)"
| "expr_in n et (Not x sp) = expr_in n et x"
| "expr_in n et (Predicate a op vs sp) = (expr_ok n (Predicate a op vs sp) \<or> pred_res et a op vs sp)"

fun expr_res :: "eventType \<Rightarrow> expr \<Rightarrow> bool" where
  "expr_res et (Logical op l r) = ((op = ''and'' \<or> op = ''or'') \<and> expr_res et l \<and> expr_res et r)"
| "expr_res et (Not x sp) = expr_res et x"
| "expr_res et (Predicate a op vs sp) = pred_res et a op vs sp"

lemma expr_ok_in: "expr_ok n e \<Longrightarrow> expr_in n et e"
  by (induction e) auto

lemma checkValue_within:
  assumes "checkValue a op sp r v = Some e" and "value_ok n v" and "span_within n sp"
  shows "err_within n e"
proof -
  have "span_within n (v_span v)" using assms(2) by (simp add: value_ok_def)
  with assms(1,3) show ?thesis
    unfolding checkValue_def Let_def
    by (simp split: if_split_asm attrType.split_asm) (metis span_err_within)+
qed

lemma keeps_vars: "wok n s \<Longrightarrow> keeps n s (s\<lparr>cs_vars := x\<rparr>)"
  by (simp add: keeps_def wok_def)

lemma cwp_check_values:
  assumes "\<And>v e. v \<in> set vs \<Longrightarrow> v_kind v \<noteq> ValVariable \<Longrightarrow> checkValue a op sp r v = Some e \<Longrightarrow> err_within n e"
    and "wok n s"
  shows "cwp n (check_values a op sp r vs)
    (\<lambda>_ s'. (\<forall>v \<in> set vs. v_kind v = ValVariable \<or> checkValue a op sp r v = None) \<and> keeps n s s') s"
  using assms
proof (induction vs arbitrary: s)
  case Nil
  then show ?case by (simp add: cwp_simp keeps_refl)
next
  case (Cons v vs)
  have IH: "cwp n (check_values a op sp r vs)
      (\<lambda>_ s'. (\<forall>v \<in> set vs. v_kind v = ValVariable \<or> checkValue a op sp r v = None) \<and> keeps n t s') t" if "wok n t" for t
    using Cons.prems(1) that by (intro Cons.IH) auto
  let ?s = "s\<lparr>cs_vars := List.insert (v_var v) (cs_vars s)\<rparr>"
  have var: "cwp n (check_values a op sp r vs)
      (\<lambda>_ s'. (\<forall>v \<in> set vs. v_kind v = ValVariable \<or> checkValue a op sp r v = None) \<and> keeps n s s') ?s"
    by (rule cwp_mono [OF IH [OF keeps_wok]]) (auto intro: keeps_vars [OF Cons.prems(2)] keeps_trans)
  show ?case
  proof (cases "v_kind v = ValVariable")
    case True
    then show ?thesis using var by (simp add: cwp_bind add_var_def cwp_mod)
  next
    case False
    then show ?thesis
      using IH [OF Cons.prems(2)] Cons.prems(1) [of v]
      by (cases "checkValue a op sp r v") (auto simp: cwp_fail)
  qed
qed

lemma set_res_simps [simp]:
  "at_res (set_res r a) = Some r" "at_span (set_res r a) = at_span a" "at_map (set_res r a) = at_map a"
  "at_name (set_res r a) = at_name a"
  by (simp_all add: set_res_def)

lemma cwp_predicate:
  assumes "expr_ok n (Predicate a op vs sp) \<or> pred_res et a op vs sp" and "wok n s"
  shows "cwp n (check_cond et (Predicate a op vs sp)) (\<lambda>e s'. expr_res et e \<and> keeps n s s') s"
  using assms(1)
proof
  assume p: "pred_res et a op vs sp"
  then obtain r where r: "at_res a = Some r" "res_ok et r"
    and v: "\<forall>v \<in> set vs. v_kind v = ValVariable \<or> checkValue a op sp r v = None"
    by (auto simp: pred_res_def)
  have "cwp n (check_values a op sp r vs) (\<lambda>_ s'. keeps n s s') s"
    by (rule cwp_mono [OF cwp_check_values [OF _ assms(2)]]) (use v in \<open>auto\<close>)
  then show ?thesis using p r by (simp add: cwp_simp resolve_def)
next
  assume ok: "expr_ok n (Predicate a op vs sp)"
  then have a: "attr_ok n a" and vs: "list_all (value_ok n) vs" and sp: "span_within n sp"
    and op: "op \<in> set ops" "arity_ok op (length vs)" by auto
  show ?thesis
    unfolding check_cond.simps cwp_bind
  proof (rule cwp_mono [OF cwp_resolve [OF a assms(2)]], clarsimp simp: cwp_need cwp_bind)
    fix s1 r assume r: "res_ok et r" and k: "keeps n s s1"
    show "cwp n (check_values (set_res r a) op sp r vs)
        (\<lambda>x. cwp n (c_ret (Predicate (set_res r a) op vs sp)) (\<lambda>e s'. expr_res et e \<and> keeps n s s')) s1"
    proof (rule cwp_mono [OF cwp_check_values [OF _ keeps_wok [OF k]]])
      fix v e assume "v \<in> set vs" and "checkValue (set_res r a) op sp r v = Some e"
      then show "err_within n e" using vs sp by (auto simp: list_all_iff intro: checkValue_within)
    next
      fix u s2
      assume "(\<forall>v \<in> set vs. v_kind v = ValVariable \<or> checkValue (set_res r a) op sp r v = None) \<and> keeps n s1 s2"
      then show "cwp n (c_ret (Predicate (set_res r a) op vs sp)) (\<lambda>e s'. expr_res et e \<and> keeps n s s') s2"
        using r op keeps_trans [OF k] by (auto simp: cwp_ret pred_res_def)
    qed
  qed
qed

lemma cwp_check_cond:
  "expr_in n et e \<Longrightarrow> wok n s \<Longrightarrow> cwp n (check_cond et e) (\<lambda>e' s'. expr_res et e' \<and> keeps n s s') s"
proof (induction e arbitrary: s)
  case (Logical op l r)
  have "cwp n (check_cond et l) (\<lambda>l' s'. expr_res et l' \<and> keeps n s s') s" using Logical by simp
  then show ?case
    unfolding check_cond.simps cwp_bind
  proof (rule cwp_mono)
    fix l' s1 assume l: "expr_res et l' \<and> keeps n s s1"
    then have "cwp n (check_cond et r) (\<lambda>r' s'. expr_res et r' \<and> keeps n s1 s') s1"
      using Logical by (auto intro: keeps_wok)
    then show "cwp n (check_cond et r) (\<lambda>r'. cwp n (c_ret (Logical op l' r')) (\<lambda>e' s'. expr_res et e' \<and> keeps n s s')) s1"
      by (rule cwp_mono) (use l Logical.prems(1) keeps_trans in \<open>auto simp: cwp_ret\<close>)
  qed
next
  case (Not x sp)
  then show ?case
    unfolding check_cond.simps cwp_bind by (intro cwp_mono [OF Not.IH]) (auto simp: cwp_ret)
next
  case (Predicate a op vs sp)
  then show ?case using cwp_predicate by simp
qed

section \<open>Dashboard filters\<close>

lemma filter_res_ok:
  assumes "attr_ok m a" and "filter_res et a f = Some r"
  shows "res_ok et r"
proof (cases "at_map a = []")
  case True
  then show ?thesis
    using assms byName_in [of et "at_name a"]
    by (auto simp: filter_res_def res_ok_def map_res_def def_res_def attr_ok_def split: option.splits if_splits)
next
  case False
  then show ?thesis
    using assms by (auto simp: filter_res_def res_ok_def map_res_def attr_ok_def key_ok_def split: if_splits)
qed

lemma filterPredicate_res:
  assumes "attr_ok m a" and "filterPredicate et a f = Some e"
  shows "expr_in n et e"
proof -
  obtain r v where r: "filter_res et a f = Some r" and c: "checkValue (set_res r a) ''='' zero_span r v = None"
    and e: "e = Predicate (set_res r a) ''='' [v] zero_span"
    using assms(2) by (auto simp: filterPredicate_def split: option.splits if_splits)
  have "pred_res et (set_res r a) ''='' [v] zero_span"
    using filter_res_ok [OF assms(1) r] c by (simp add: pred_res_def ops_def arity_ok_def)
  then show ?thesis using e by simp
qed

lemma filter_attr_err_within: "\<exists>e. filter_attr_err i (Syntax pe) = CErr e \<and> err_within n e"
  by (simp add: filter_attr_err_def)

lemma cwp_filter_loop:
  assumes "\<And>e. w = Some e \<Longrightarrow> expr_in n et e" and "wok n s"
  shows "cwp n (filter_loop et i fs w) (\<lambda>w' s'. (\<forall>e. w' = Some e \<longrightarrow> expr_in n et e) \<and> keeps n s s') s"
  using assms
proof (induction fs arbitrary: i w s)
  case Nil
  then show ?case by (simp add: cwp_ret keeps_refl)
next
  case (Cons f fs)
  show ?case
  proof (cases "ParseAttribute (fl_attribute f)")
    case (Inl pe)
    then obtain se where "pe = Syntax se" using ParseAttribute_ok [of "fl_attribute f"] by auto
    then show ?thesis using Inl by (simp add: cwp_def filter_attr_err_def)
  next
    case (Inr a)
    then have a: "attr_ok (length (fl_attribute f)) a" using ParseAttribute_ok [of "fl_attribute f"] by auto
    let ?s = "s\<lparr>cs_ignored := cs_ignored s @ [attr_String a]\<rparr>"
    have "keeps n s ?s" using Cons.prems(2) by (simp add: keeps_def wok_def)
    then have skip: "cwp n (filter_loop et (Suc i) fs w) (\<lambda>w' s'. (\<forall>e. w' = Some e \<longrightarrow> expr_in n et e) \<and> keeps n s s') ?s"
      by (intro cwp_mono [OF Cons.IH [OF Cons.prems(1)]]) (auto intro: keeps_trans keeps_wok)
    have add: "cwp n (filter_loop et (Suc i) fs (Some (case w of None \<Rightarrow> pr | Some e \<Rightarrow> Logical ''and'' e pr)))
        (\<lambda>w' s'. (\<forall>e. w' = Some e \<longrightarrow> expr_in n et e) \<and> keeps n s s') s" if "filterPredicate et a f = Some pr" for pr
      using filterPredicate_res [OF a that] Cons.prems by (intro Cons.IH) (auto split: option.split)
    show ?thesis
      using Inr skip add by (auto simp: cwp_simp split: option.split)
  qed
qed

lemma cwp_applyFilters:
  assumes "\<And>e. w = Some e \<Longrightarrow> expr_in n et e" and "wok n s"
  shows "cwp n (applyFilters et fs w) (\<lambda>w' s'. (\<forall>e. w' = Some e \<longrightarrow> expr_in n et e) \<and> keeps n s s') s"
  using cwp_filter_loop [OF assms] assms keeps_refl by (auto simp: applyFilters_def cwp_simp)

section \<open>Aggregates\<close>

text \<open>
  An aggregate after checking: its argument is resolved and of the type the function needs, percentile
  levels lie strictly between 0 and 100, and wrapped aggregates are of the kinds the wrapper takes.
\<close>

definition needs_number :: "string \<Rightarrow> bool" where
  "needs_number fn \<longleftrightarrow> fn \<in> {''sum'', ''average'', ''min'', ''max'', ''percentile'', ''median'', ''histogram''}"

definition arg_res :: "eventType \<Rightarrow> string \<Rightarrow> attr option \<Rightarrow> bool" where
  "arg_res et fn arg \<longleftrightarrow>
     (\<forall>a. arg = Some a \<longrightarrow> (\<exists>r. at_res a = Some r \<and> res_ok et r \<and>
        (needs_number fn \<longrightarrow> numeric r)))"

definition level_ok :: "f64 \<Rightarrow> bool" where
  "level_ok lv \<longleftrightarrow> finite_num lv \<and> \<not> bad_level lv"

fun agg_res :: "eventType \<Rightarrow> agg \<Rightarrow> bool" where
  "agg_res et (Agg fn name star arg inner levels per c roof nb sp tx) \<longleftrightarrow>
     funcNames fn = Some fn \<and> fn \<noteq> ''histogram'' \<and> shape_ok fn star arg inner levels per c \<and> arg_res et fn arg \<and>
     length levels \<le> maxLevels \<and> list_all level_ok levels \<and> (\<forall>d. per = Some d \<longrightarrow> second \<le> dl_d d) \<and>
     (\<forall>e. c = Some e \<longrightarrow> expr_res et e) \<and> (case inner of None \<Rightarrow> True | Some i \<Rightarrow> agg_res et i)"

definition hist_res :: "eventType \<Rightarrow> agg \<Rightarrow> bool" where
  "hist_res et a \<longleftrightarrow>
     ag_func a = ''histogram'' \<and> ag_arg a \<noteq> None \<and> arg_res et ''histogram'' (ag_arg a) \<and>
     finite_num (ag_ceiling a) \<and> \<not> f_le (ag_ceiling a) (f_of_int 0) \<and> 1 \<le> ag_buckets a \<and> ag_buckets a \<le> 200"

lemma agg_ok_inner:
  assumes "agg_ok n (Agg fn name star arg inner levels per c roof nb sp tx)"
  shows "funcNames fn = Some fn" "shape_ok fn star arg inner levels per c" "span_within n sp"
    "\<And>a. arg = Some a \<Longrightarrow> attr_ok n a" "list_all finite_num levels" "\<And>d. per = Some d \<Longrightarrow> dur_ok n d"
    "\<And>e. c = Some e \<Longrightarrow> expr_ok n e" "\<And>i. inner = Some i \<Longrightarrow> agg_ok n i"
  using assms by auto

text \<open>The result of checking an aggregate keeps its function, levels, texts and shape.\<close>

definition agg_post :: "eventType \<Rightarrow> agg \<Rightarrow> agg \<times> attrType \<Rightarrow> bool" where
  "agg_post et a r \<longleftrightarrow>
     agg_res et (fst r) \<and> ag_func (fst r) = ag_func a \<and> ag_span (fst r) = ag_span a \<and>
     (snd r = TString \<longrightarrow> ag_levels (fst r) = [])"

lemma cwp_resolve_opt:
  assumes "\<And>a. arg = Some a \<Longrightarrow> attr_ok n a" and "wok n s"
  shows "cwp n (resolve_opt et arg)
    (\<lambda>arg' s'. (arg' = None \<longleftrightarrow> arg = None) \<and>
       (\<forall>a'. arg' = Some a' \<longrightarrow> span_within n (at_span a') \<and> (\<exists>r. at_res a' = Some r \<and> res_ok et r)) \<and> keeps n s s') s"
proof (cases arg)
  case None
  then show ?thesis using assms(2) by (simp add: resolve_opt_def cwp_ret keeps_refl)
next
  case (Some a)
  then have a: "attr_ok n a" using assms(1) by simp
  then have "span_within n (at_span a)" by (simp add: attr_ok_def)
  then show ?thesis
    using Some cwp_resolve [OF a assms(2), of et]
    by (auto simp: resolve_opt_def cwp_simp elim!: cwp_mono)
qed

lemma cwp_numeric_arg:
  assumes "arg = Some a" and "at_res a = Some r" and "span_within n (at_span a)"
    and "numeric r \<Longrightarrow> cwp n k Q s"
  shows "cwp n (numeric_arg arg name k) Q s"
  using assms by (auto simp: numeric_arg_def cwp_simp string_arg_err_def)

lemma shape_inner_func:
  assumes "agg_ok n i" and "ag_func i = ''filter''"
  shows "\<exists>b. ag_inner i = Some b"
  using assms by (cases i) (auto simp: shape_ok_def)

lemma agg_res_levels: "agg_res et a \<Longrightarrow> ag_func a \<notin> {''percentile'', ''median''} \<Longrightarrow> ag_levels a = []"
  by (cases a) (auto simp: shape_ok_def)

lemma cwp_check_rate:
  assumes "agg_ok n i" and "\<And>d. per = Some d \<Longrightarrow> dur_ok n d" and "per \<noteq> None" and "Q () s"
  shows "cwp n (check_rate i per) Q s"
proof -
  have "span_within n (ag_span i)" using agg_ok_span [OF assms(1)] .
  moreover obtain d where "per = Some d" "span_within n (dl_span d)" using assms(2,3) by (auto simp: dur_ok_def)
  moreover have "\<exists>b. (if ag_func i = ''filter'' then ag_inner i else Some i) = Some b"
    using shape_inner_func [OF assms(1)] by auto
  ultimately show ?thesis using assms(4) by (auto simp: check_rate_def cwp_simp)
qed

lemma cwp_check_filtered: "agg_ok n i \<Longrightarrow> Q () s \<Longrightarrow> cwp n (check_filtered i) Q s"
  using agg_ok_span [of n i] by (simp add: check_filtered_def cwp_simp)

lemma funcNames_cases:
  assumes "funcNames fn = Some fn"
  shows "fn = ''count'' \<or> fn = ''sum'' \<or> fn = ''average'' \<or> fn = ''min'' \<or> fn = ''max'' \<or> fn = ''uniquecount'' \<or>
    fn = ''percentile'' \<or> fn = ''median'' \<or> fn = ''latest'' \<or> fn = ''earliest'' \<or> fn = ''rate'' \<or> fn = ''filter'' \<or>
    fn = ''histogram''"
proof (cases "fn = ''avg''")
  case True
  then show ?thesis using assms by (simp add: funcNames_def)
next
  case False
  then have "fn \<in> {''count'', ''sum'', ''average'', ''min'', ''max'', ''uniquecount'', ''percentile'', ''median'',
      ''latest'', ''earliest'', ''rate'', ''filter'', ''histogram''}"
    using assms unfolding funcNames_def by (simp only: if_False option.simps split: if_split_asm)
  then show ?thesis by (simp only: insert_iff empty_iff simp_thms)
qed

text \<open>A leaf: \<open>arg\<close> is resolved already.\<close>

lemma cwp_leaf_type:
  assumes fn: "funcNames fn = Some fn" "fn \<noteq> ''rate''" "fn \<noteq> ''filter''" and shape: "shape_ok fn star arg0 inner levels per c"
    and arg: "arg = None \<longleftrightarrow> arg0 = None"
    and res: "\<And>a. arg = Some a \<Longrightarrow> span_within n (at_span a) \<and> (\<exists>r. at_res a = Some r \<and> res_ok et r)"
    and lv: "list_all finite_num levels" and sp: "span_within n sp"
    and Q: "\<And>ty. fn \<noteq> ''histogram'' \<Longrightarrow> arg_res et fn arg \<Longrightarrow> list_all level_ok levels \<Longrightarrow> length levels \<le> maxLevels \<Longrightarrow>
        (ty = TString \<longrightarrow> levels = []) \<Longrightarrow> Q ty s"
  shows "cwp n (leaf_type fn name arg levels sp) Q s"
proof -
  have any: "arg_res et fn arg" if "\<not> needs_number fn"
    using that res by (auto simp: arg_res_def)
  have num: "arg_res et fn arg" if "arg = Some a" "at_res a = Some r" "numeric r" for a r
    using that res by (auto simp: arg_res_def)
  have lev: "list_all level_ok levels" if "\<not> list_ex bad_level levels"
    using that lv by (auto simp: level_ok_def list_all_iff list_ex_iff)
  have no_lev: "levels = []" if "fn \<noteq> ''percentile''" "fn \<noteq> ''median''" using that shape by (auto simp: shape_ok_def)
  have some: "\<exists>a r. arg = Some a \<and> at_res a = Some r \<and> res_ok et r \<and> span_within n (at_span a)" if "fn \<noteq> ''count''"
    using that fn shape arg res by (cases arg) (auto simp: shape_ok_def)
  consider "fn = ''count'' \<or> fn = ''uniquecount''" | "fn = ''sum'' \<or> fn = ''average'' \<or> fn = ''min'' \<or> fn = ''max''"
    | "fn = ''percentile'' \<or> fn = ''median''" | "fn = ''latest'' \<or> fn = ''earliest''" | "fn = ''histogram''"
    using funcNames_cases [OF fn(1)] fn(2,3) by argo
  then show ?thesis
  proof cases
    case 1
    then show ?thesis using any no_lev by (elim disjE) (simp_all add: leaf_type_def cwp_ret needs_number_def Q)
  next
    case 2
    then have "fn \<noteq> ''count''" by (elim disjE) simp_all
    from some [OF this] obtain a r where a: "arg = Some a" "at_res a = Some r" "span_within n (at_span a)" by auto
    have "cwp n (numeric_arg arg name (c_ret TNumber)) Q s"
      using a by (rule cwp_numeric_arg) (use 2 a num no_lev in \<open>elim disjE; simp add: cwp_ret Q\<close>)
    then show ?thesis using 2 by (elim disjE) (simp_all add: leaf_type_def)
  next
    case 3
    then have "fn \<noteq> ''count''" by (elim disjE) simp_all
    from some [OF this] obtain a r where a: "arg = Some a" "at_res a = Some r" "span_within n (at_span a)" by auto
    have "cwp n (numeric_arg arg name
        (if length levels > maxLevels then c_fail (span_err sp ''at most %d percentile levels'' [show_nat maxLevels])
         else if list_ex bad_level levels
         then c_fail (span_err sp ''percentile levels must be between 0 and 100 (exclusive)'' []) else c_ret TNumber)) Q s"
      using a by (rule cwp_numeric_arg) (use 3 a num lev sp in \<open>elim disjE; simp add: cwp_simp Q\<close>)
    then show ?thesis using 3 by (elim disjE) (simp_all add: leaf_type_def)
  next
    case 4
    then have "fn \<noteq> ''count''" by (elim disjE) simp_all
    from some [OF this] obtain a r where a: "arg = Some a" "at_res a = Some r" by auto
    have "arg_res et fn arg" "levels = []" using 4 any no_lev by (elim disjE; simp add: needs_number_def)+
    then show ?thesis using 4 a by (elim disjE) (simp_all add: leaf_type_def cwp_simp Q)
  next
    case 5
    then show ?thesis using sp by (simp add: leaf_type_def cwp_simp)
  qed
qed

text \<open>Wrapping a checked aggregate again.\<close>

lemma agg_post_wrap:
  assumes ok: "agg_ok n (Agg fn name star arg (Some i) levels per c roof nb sp tx)" and fn: "fn = ''rate'' \<or> fn = ''filter''"
    and i: "agg_post et i (i', ty)" and arg': "arg' = None \<longleftrightarrow> arg = None"
    and c': "\<And>e. c' = Some e \<Longrightarrow> expr_res et e" "c' = None \<longleftrightarrow> c = None"
  shows "agg_post et (Agg fn name star arg (Some i) levels per c roof nb sp tx)
    (Agg fn name star arg' (Some i') levels per c' roof nb sp tx, ty)"
proof -
  note ok = agg_ok_inner [OF ok]
  have "arg = None" "levels = []" "fn \<noteq> ''histogram''" "per = None \<or> (\<exists>d. per = Some d \<and> second \<le> dl_d d)"
    using fn ok(2,6) by (elim disjE; cases per; simp add: shape_ok_def dur_ok_def)+
  moreover have "shape_ok fn star None (Some i') [] per c'"
    using fn ok(2) c'(2) calculation by (elim disjE; simp add: shape_ok_def)
  ultimately show ?thesis
    using ok(1) i arg' c'(1) by (auto simp: agg_post_def arg_res_def)
qed

lemma cwp_check_agg:
  "agg_ok n a \<Longrightarrow> wok n s \<Longrightarrow> cwp n (check_agg et a) (\<lambda>r s'. agg_post et a r \<and> keeps n s s') s"
proof (induction a arbitrary: s)
  case (Agg fn name star arg inner levels per c roof nb sp tx)
  let ?a = "Agg fn name star arg inner levels per c roof nb sp tx"
  note ok = agg_ok_inner [OF Agg.prems(1)]
  have IH: "cwp n (check_agg et i) (\<lambda>r s'. agg_post et i r \<and> keeps n t s') t" if "inner = Some i" "wok n t" for i t
    using Agg.IH [of i t] ok(8) [OF that(1)] that by simp
  let ?post = "\<lambda>r s'. agg_post et ?a r \<and> keeps n s s'"
  show ?case
    unfolding check_agg.simps cwp_bind
  proof (rule cwp_mono [OF cwp_resolve_opt [OF ok(4) Agg.prems(2)]])
    fix arg' :: "attr option" and s1
    assume post: "(arg' = None \<longleftrightarrow> arg = None) \<and>
      (\<forall>a'. arg' = Some a' \<longrightarrow> span_within n (at_span a') \<and> (\<exists>r. at_res a' = Some r \<and> res_ok et r)) \<and> keeps n s s1"
    have k: "wok n s1" "keeps n s s1" using post keeps_wok by auto
    have inner_step: "cwp n (check_agg et i) (\<lambda>(i', ty). ?post (Agg fn name star arg' (Some i') levels per c' roof nb sp tx, ty)) s2"
      if "inner = Some i" "keeps n s s2" "fn = ''rate'' \<or> fn = ''filter''" "\<And>e. c' = Some e \<Longrightarrow> expr_res et e"
        "c' = None \<longleftrightarrow> c = None" for i s2 c'
    proof (rule cwp_mono [OF IH [OF that(1) keeps_wok [OF that(2)]]], clarify)
      fix i' ty s3 assume "agg_post et i (i', ty)" and "keeps n s2 s3"
      then show "?post (Agg fn name star arg' (Some i') levels per c' roof nb sp tx, ty) s3"
        using agg_post_wrap [of n fn name star arg i levels per c roof nb sp tx et i' ty arg' c'] Agg.prems(1) post that
          keeps_trans [OF that(2)] by simp
    qed
    have rate: "cwp n (need inner (\<lambda>i. c_bind (check_rate i per) (\<lambda>_. c_bind (check_agg et i) (\<lambda>(i', ty).
        c_ret (Agg fn name star arg' (Some i') levels per c roof nb sp tx, ty))))) ?post s1" if "fn = ''rate''"
    proof -
      obtain i where i: "inner = Some i" "per \<noteq> None" "c = None" using ok(2) \<open>fn = ''rate''\<close> by (auto simp: shape_ok_def)
      have "cwp n (check_agg et i) (\<lambda>(i', ty). ?post (Agg fn name star arg' (Some i') levels per c roof nb sp tx, ty)) s1"
        using i k(2) that by (intro inner_step) auto
      then show ?thesis
        using i ok(6,8) by (auto simp: cwp_simp split_def intro!: cwp_check_rate)
    qed
    have filt: "cwp n (need inner (\<lambda>i. c_bind (check_filtered i) (\<lambda>_. need c (\<lambda>e. c_bind (check_cond et e) (\<lambda>e'.
        c_bind (check_agg et i) (\<lambda>(i', ty). c_ret (Agg fn name star arg' (Some i') levels per (Some e') roof nb sp tx, ty))))))) ?post s1"
      if "fn = ''filter''"
    proof -
      obtain i e where i: "inner = Some i" "c = Some e" using ok(2) \<open>fn = ''filter''\<close> by (auto simp: shape_ok_def)
      have "cwp n (check_cond et e) (\<lambda>e'. cwp n (check_agg et i)
          (\<lambda>(i', ty). ?post (Agg fn name star arg' (Some i') levels per (Some e') roof nb sp tx, ty))) s1"
        by (rule cwp_mono [OF cwp_check_cond [OF expr_ok_in [OF ok(7) [OF i(2)]] k(1)]], rule inner_step [OF i(1)])
          (use i that keeps_trans [OF k(2)] in auto)
      then show ?thesis
        using i ok(8) by (auto simp: cwp_simp split_def intro!: cwp_check_filtered)
    qed
    have leaf: "cwp n (c_bind (leaf_type fn name arg' levels sp) (\<lambda>ty.
        c_ret (Agg fn name star arg' inner levels per c roof nb sp tx, ty))) ?post s1" if "fn \<noteq> ''rate''" "fn \<noteq> ''filter''"
      unfolding cwp_bind
      by (rule cwp_leaf_type [OF ok(1) that ok(2)])
        (use post ok(2,3,5,6) that k in \<open>auto simp: cwp_ret agg_post_def shape_ok_def dur_ok_def ok(1)\<close>)
    show "cwp n (if fn = ''rate'' then
         need inner (\<lambda>i. c_bind (check_rate i per) (\<lambda>_. c_bind (check_agg et i) (\<lambda>(i', ty).
           c_ret (Agg fn name star arg' (Some i') levels per c roof nb sp tx, ty))))
       else if fn = ''filter'' then
         need inner (\<lambda>i. c_bind (check_filtered i) (\<lambda>_. need c (\<lambda>e. c_bind (check_cond et e) (\<lambda>e'.
           c_bind (check_agg et i) (\<lambda>(i', ty). c_ret (Agg fn name star arg' (Some i') levels per (Some e') roof nb sp tx, ty))))))
       else c_bind (leaf_type fn name arg' levels sp) (\<lambda>ty.
         c_ret (Agg fn name star arg' inner levels per c roof nb sp tx, ty))) ?post s1"
      using rate filt leaf by simp
  qed
qed

section \<open>Result columns\<close>

lemma base_agg_res:
  "agg_res et a \<Longrightarrow> \<exists>b. base_agg a = Some b \<and> agg_res et b \<and> ag_func b \<noteq> ''rate'' \<and> ag_func b \<noteq> ''filter'' \<and>
     (ag_func a \<noteq> ''rate'' \<longrightarrow> ag_func a \<noteq> ''filter'' \<longrightarrow> b = a)"
proof (induction a)
  case (Agg fn name star arg inner levels per c roof nb sp tx)
  show ?case
  proof (cases "fn = ''rate'' \<or> fn = ''filter''")
    case True
    then obtain i where i: "inner = Some i" using Agg.prems by (elim disjE) (auto simp: shape_ok_def)
    then obtain b where "base_agg i = Some b" "agg_res et b" "ag_func b \<noteq> ''rate''" "ag_func b \<noteq> ''filter''"
      using Agg.IH [of i] Agg.prems by auto
    then show ?thesis using i True by (elim disjE) simp_all
  next
    case False
    then show ?thesis using Agg.prems by simp
  qed
qed

text \<open>
  A column: its aggregate is checked, and where the aggregate is a percentile the column has one of the
  validated levels.
\<close>

definition col_agg :: "eventType \<Rightarrow> column \<Rightarrow> bool" where
  "col_agg et c \<longleftrightarrow>
     agg_res et (cl_agg c) \<and> (\<exists>b. base_agg (cl_agg c) = Some b \<and> (ag_levels b \<noteq> [] \<longrightarrow> level_ok (cl_level c)))"

definition cols_inv :: "nat \<Rightarrow> eventType \<Rightarrow> cstate \<Rightarrow> bool" where
  "cols_inv n et s \<longleftrightarrow>
     wok n s \<and> (\<forall>h. cs_hist s = Some h \<longrightarrow> hist_res et h) \<and> (cs_hist s = None \<longrightarrow> list_all (col_agg et) (cs_columns s))"

definition cols_some :: "nat \<Rightarrow> eventType \<Rightarrow> cstate \<Rightarrow> bool" where
  "cols_some n et s \<longleftrightarrow> cols_inv n et s \<and> cs_columns s \<noteq> []"

definition item_res :: "eventType \<Rightarrow> selectItem \<Rightarrow> bool" where
  "item_res et it \<longleftrightarrow> agg_res et (si_agg it) \<or> hist_res et (si_agg it)"

lemma cols_inv_keeps: "cols_inv n et s \<Longrightarrow> keeps n s s' \<Longrightarrow> cols_inv n et s'"
  by (simp add: cols_inv_def keeps_def)

lemma cols_inv_add: "cols_inv n et s \<Longrightarrow> (cs_hist s = None \<Longrightarrow> col_agg et c) \<Longrightarrow> cwp n (add_column c) (\<lambda>_ s'. cols_some n et s' \<and> cs_hist s' = cs_hist s) s"
  by (auto simp: add_column_def cwp_mod cols_some_def cols_inv_def wok_def)

lemma cwp_add_levels:
  assumes "cols_inv n et s" and "agg_res et a" and "base_agg a = Some b" and "set levels \<subseteq> set (ag_levels b)"
    and "same \<Longrightarrow> b = a" and "levels \<noteq> []"
  shows "cwp n (add_levels it a same name fname zero levels) (\<lambda>_ s'. cols_some n et s') s"
proof -
  have b: "agg_res et b" using base_agg_res [OF assms(2)] assms(3) by auto
  have lv: "list_all level_ok (ag_levels b)" using b by (cases b) simp
  have arg: "ag_arg a \<noteq> None" if "same" "ag_func a = ''percentile'' \<or> ag_func a = ''median''"
    using that assms(2) by (cases a) (auto simp: shape_ok_def)
  have nm: "\<exists>cn. level_name it a same multi name lv = Some cn" for multi lv
    using arg by (auto simp: level_name_def columnWithLevel_def)
  show ?thesis
    unfolding add_levels_def cwp_bind
  proof (rule cwp_c_map_ne [where I = "cols_inv n et" and J = "cols_some n et" and P = "\<lambda>_ _. True"])
    fix lv t assume "lv \<in> set levels" and t: "cols_inv n et t"
    then have "level_ok lv" using assms(4) lv by (auto simp: list_all_iff)
    then show "cwp n (need (level_name it a same (length levels > 1) name lv) (\<lambda>cn. add_column
        \<lparr>cl_name = cn, cl_function = fname, cl_type = TNumber, cl_agg = a, cl_level = lv, cl_zeroFill = zero\<rparr>))
        (\<lambda>y s'. True \<and> cols_some n et s') t"
      using nm [of "length levels > 1" lv] assms(2,3)
      by (auto simp: cwp_need col_agg_def intro!: cwp_mono [OF cols_inv_add [OF t]])
  qed (use assms(1,6) in \<open>auto simp: cwp_ret cols_some_def\<close>)
qed

lemma histogram_ok:
  assumes "item_ok n it" and "ag_func (si_agg it) = ''histogram''"
  shows "span_within n (ag_span (si_agg it))" "\<exists>x. ag_arg (si_agg it) = Some x \<and> attr_ok n x"
    "finite_num (ag_ceiling (si_agg it))" "1 \<le> ag_buckets (si_agg it)" "ag_buckets (si_agg it) \<le> 200"
  using assms by (cases "si_agg it"; auto simp: item_ok_def shape_ok_def)+

lemma set_arg_simps [simp]:
  "ag_func (set_arg x a) = ag_func a" "ag_arg (set_arg x a) = Some x" "ag_ceiling (set_arg x a) = ag_ceiling a"
  "ag_buckets (set_arg x a) = ag_buckets a" "ag_span (set_arg x a) = ag_span a"
  by (simp_all add: set_arg_def)

lemma cwp_histogram_column:
  assumes it: "item_ok n it" "ag_func (si_agg it) = ''histogram''" and s: "cols_inv n et s"
    and x: "at_res x = Some r" "res_ok et r" "span_within n (at_span x)"
  shows "cwp n (histogram_column it x) (\<lambda>it' s'. item_res et it' \<and> cols_some n et s') s"
proof -
  note ok = histogram_ok [OF it]
  have hist: "hist_res et (set_arg x (si_agg it))"
    if "numeric r" "\<not> f_le (ag_ceiling (si_agg it)) (f_of_int 0)"
    using that x it(2) ok(3-5) by (auto simp: hist_res_def arg_res_def)
  moreover have "cols_some n et (s\<lparr>cs_hist := Some a, cs_columns := cs_columns s @ [c]\<rparr>)" if "hist_res et a" for a c
    using that s by (simp add: cols_some_def cols_inv_def wok_def)
  ultimately show ?thesis
    using x ok(1) by (auto simp: histogram_column_def cwp_simp add_column_def Let_def item_res_def string_arg_err_def)
qed

lemma cwp_histogram_item:
  assumes it: "item_ok n it" "ag_func (si_agg it) = ''histogram''" and s: "cols_inv n et s"
  shows "cwp n (histogram_item et it items) (\<lambda>it' s'. item_res et it' \<and> cols_some n et s') s"
proof -
  obtain x where x: "ag_arg (si_agg it) = Some x" "attr_ok n x" using histogram_ok(2) [OF it] by blast
  have w: "wok n s" using s by (simp add: cols_inv_def)
  have "cwp n (resolve et x) (\<lambda>x'. cwp n (histogram_column it x') (\<lambda>it' s'. item_res et it' \<and> cols_some n et s')) s"
    by (rule cwp_mono [OF cwp_resolve [OF x(2) w]])
      (use x(2) cols_inv_keeps [OF s] in \<open>auto simp: attr_ok_def intro!: cwp_histogram_column [OF it]\<close>)
  then show ?thesis
    using x(1) histogram_ok(1) [OF it] by (simp add: histogram_item_def cwp_simp)
qed

lemma cwp_add_columns:
  assumes s: "cols_inv n et s" and a: "agg_res et a" and b: "base_agg a = Some b"
  shows "cwp n (add_columns it a typ b) (\<lambda>_ s'. cols_some n et s') s"
proof (cases "ag_levels b = []")
  case True
  have "cwp n (add_column \<lparr>cl_name = nm, cl_function = fname, cl_type = typ, cl_agg = a,
      cl_level = f_of_int 0, cl_zeroFill = zero\<rparr>) (\<lambda>_ s'. cols_some n et s') s" for nm fname zero
    by (rule cwp_mono [OF cols_inv_add [OF s]]) (use a b True in \<open>auto simp: col_agg_def\<close>)
  then show ?thesis using True by (simp add: add_columns_def Let_def)
next
  case False
  have "cwp n (add_levels it a (ag_func a \<noteq> ''rate'' \<and> ag_func a \<noteq> ''filter'') nm fname zero (ag_levels b))
      (\<lambda>_ s'. cols_some n et s') s" for nm fname zero
    by (rule cwp_add_levels [OF s a b]) (use base_agg_res [OF a] b False in auto)
  then show ?thesis using False unfolding add_columns_def Let_def by (simp only: simp_thms if_True)
qed

lemma cwp_compile_item:
  assumes it: "item_ok n it" and s: "cols_inv n et s"
  shows "cwp n (compile_item et items it) (\<lambda>it' s'. item_res et it' \<and> cols_some n et s') s"
proof (cases "ag_func (si_agg it) = ''histogram''")
  case True
  then show ?thesis using cwp_histogram_item [OF it True s] by (simp add: compile_item_def)
next
  case False
  have a: "agg_ok n (si_agg it)" using it by (simp add: item_ok_def)
  have w: "wok n s" using s by (simp add: cols_inv_def)
  show ?thesis
    unfolding compile_item_def if_not_P [OF False] cwp_bind
  proof (rule cwp_mono [OF cwp_check_agg [OF a w]], clarify)
    fix a' ty t assume "agg_post et (si_agg it) (a', ty)" and t: "keeps n s t"
    then have res: "agg_res et a'" by (simp add: agg_post_def)
    obtain b where b: "base_agg a' = Some b" using base_agg_res [OF res] by blast
    have "cwp n (add_columns it a' ty b) (\<lambda>_ s'. item_res et (it\<lparr>si_agg := a'\<rparr>) \<and> cols_some n et s') t"
      by (rule cwp_mono [OF cwp_add_columns [OF cols_inv_keeps [OF s t] res b]]) (simp add: item_res_def res)
    then show "cwp n (need (base_agg a') (\<lambda>base. c_bind (add_columns it a' ty base) (\<lambda>_. c_ret (it\<lparr>si_agg := a'\<rparr>))))
        (\<lambda>it' s'. item_res et it' \<and> cols_some n et s') t"
      using b by (simp add: cwp_simp)
  qed
qed

section \<open>The resolved query\<close>

text \<open>What the checks of the tree establish of the query they return.\<close>

definition query_res :: "eventType \<Rightarrow> oql_query \<Rightarrow> bool" where
  "query_res et q \<longleftrightarrow>
     list_all (item_res et) (qu_select q) \<and> list_all (attr_res et) (qu_facets q) \<and>
     (\<forall>e. qu_where q = Some e \<longrightarrow> expr_res et e)"

definition clauses_same :: "oql_query \<Rightarrow> oql_query \<Rightarrow> bool" where
  "clauses_same q q' \<longleftrightarrow>
     qu_eventType q' = qu_eventType q \<and> qu_eventSpan q' = qu_eventSpan q \<and> length (qu_facets q') = length (qu_facets q) \<and>
     map at_span (qu_facets q') = map at_span (qu_facets q) \<and> qu_since q' = qu_since q \<and> qu_until q' = qu_until q \<and>
     qu_timeseries q' = qu_timeseries q \<and> qu_limit q' = qu_limit q \<and> qu_compare q' = qu_compare q"

lemma cwp_where:
  assumes "\<And>e. w = Some e \<Longrightarrow> expr_in n et e" and "wok n s"
  shows "cwp n (check_where et w) (\<lambda>w' s'. (\<forall>e. w' = Some e \<longrightarrow> expr_res et e) \<and> keeps n s s') s"
proof (cases w)
  case None
  then show ?thesis using assms(2) by (simp add: check_where_def cwp_ret keeps_refl)
next
  case (Some e)
  then show ?thesis
    using cwp_check_cond [OF assms(1) assms(2), of e] by (auto simp: check_where_def cwp_simp elim!: cwp_mono)
qed

lemma cwp_facets:
  assumes "list_all (attr_ok n) fs" and "wok n s"
  shows "cwp n (c_map (resolve et) fs)
    (\<lambda>fs' s'. list_all (attr_res et) fs' \<and> map at_span fs' = map at_span fs \<and> keeps n s s') s"
proof (rule cwp_c_map [where I = "keeps n s" and P = "\<lambda>a a'. attr_res et a' \<and> at_span a' = at_span a"])
  fix a t assume "a \<in> set fs" and t: "keeps n s t"
  then have "attr_ok n a" using assms(1) by (simp add: list_all_iff)
  then show "cwp n (resolve et a) (\<lambda>y s'. (attr_res et y \<and> at_span y = at_span a) \<and> keeps n s s') t"
    by (rule cwp_mono [OF cwp_resolve [OF _ keeps_wok [OF t]]]) (auto simp: attr_res_def intro: keeps_trans [OF t])
next
  fix ys s' assume "list_all2 (\<lambda>a a'. attr_res et a' \<and> at_span a' = at_span a) fs ys" and k: "keeps n s s'"
  then have "list_all (attr_res et) ys \<and> map at_span ys = map at_span fs"
    by (induction rule: list_all2_induct) auto
  then show "list_all (attr_res et) ys \<and> map at_span ys = map at_span fs \<and> keeps n s s'" using k by simp
qed (simp add: keeps_refl assms)

lemma cwp_analyse_rest:
  assumes q: "query_ok n q" and sel: "list_all (item_res et) sel" and s: "cols_inv n et s"
  shows "cwp n (analyse_rest et q fl sel) (\<lambda>q' s'. query_res et q' \<and> clauses_same q q' \<and> cols_inv n et s' \<and>
    cs_columns s' = cs_columns s) s"
  unfolding analyse_rest_def cwp_bind
proof (rule cwp_mono [OF cwp_facets])
  show "list_all (attr_ok n) (qu_facets q)" "wok n s" using q s by (auto simp: query_ok_def cols_inv_def)
next
  fix fs s1
  assume f: "list_all (attr_res et) fs \<and> map at_span fs = map at_span (qu_facets q) \<and> keeps n s s1"
  let ?P = "\<lambda>q' s'. query_res et q' \<and> clauses_same q q' \<and> cols_inv n et s' \<and> cs_columns s' = cs_columns s"
  let ?ret = "\<lambda>w'. c_ret (q\<lparr>qu_select := sel, qu_facets := fs, qu_where := w'\<rparr>)"
  show "cwp n (applyFilters et fl (qu_where q)) (\<lambda>w. cwp n (check_where et w) (\<lambda>w'. cwp n (?ret w') ?P)) s1"
  proof (rule cwp_mono [OF cwp_applyFilters])
    show "\<And>e. qu_where q = Some e \<Longrightarrow> expr_in n et e" using q by (auto simp: query_ok_def intro: expr_ok_in)
    show "wok n s1" using f keeps_wok by blast
  next
    fix w s2 assume w: "(\<forall>e. w = Some e \<longrightarrow> expr_in n et e) \<and> keeps n s1 s2"
    then have k: "keeps n s s2" using f keeps_trans by blast
    show "cwp n (check_where et w) (\<lambda>w'. cwp n (?ret w') ?P) s2"
    proof (rule cwp_mono [OF cwp_where])
      show "wok n s2" using k keeps_wok by blast
      show "\<And>e. w = Some e \<Longrightarrow> expr_in n et e" using w by blast
    next
      fix w' s3 assume w': "(\<forall>e. w' = Some e \<longrightarrow> expr_res et e) \<and> keeps n s2 s3"
      then have k: "keeps n s s3" using k keeps_trans by blast
      then show "cwp n (?ret w') ?P s3"
        using f w' sel cols_inv_keeps [OF s k] map_eq_imp_length_eq [of at_span fs at_span "qu_facets q"]
        by (simp add: cwp_ret query_res_def clauses_same_def keeps_def)
    qed
  qed
qed

lemma cwp_analyse:
  assumes q: "query_ok n q"
  shows "cwp n (analyse et q fl) (\<lambda>q' s'. query_res et q' \<and> clauses_same q q' \<and> cols_inv n et s' \<and> cs_columns s' \<noteq> [] \<and>
    length (cs_columns s') \<le> 30) empty_cstate"
  unfolding analyse_def cwp_bind
proof (rule cwp_c_map_ne [where I = "cols_inv n et" and J = "cols_some n et" and P = "\<lambda>_. item_res et"])
  show "qu_select q \<noteq> []" using q by (simp add: query_ok_def)
next
  show "cols_some n et s \<Longrightarrow> cols_inv n et s" for s by (simp add: cols_some_def)
next
  fix it s assume "it \<in> set (qu_select q)" and "cols_inv n et s"
  then show "cwp n (compile_item et (length (qu_select q)) it) (\<lambda>y s'. item_res et y \<and> cols_some n et s') s"
    using q by (intro cwp_compile_item) (auto simp: query_ok_def list_all_iff)
next
  show "cols_inv n et empty_cstate" by (simp add: cols_inv_def empty_cstate_def wok_def)
next
  let ?P = "\<lambda>q' s'. query_res et q' \<and> clauses_same q q' \<and> cols_inv n et s' \<and> cs_columns s' \<noteq> [] \<and>
    length (cs_columns s') \<le> 30"
  fix sel s assume "list_all2 (\<lambda>_. item_res et) (qu_select q) sel" and some: "cols_some n et s"
  then have s: "cols_inv n et s" "cs_columns s \<noteq> []" by (auto simp: cols_some_def)
  from \<open>list_all2 _ _ sel\<close> have sel: "list_all (item_res et) sel" by (auto simp: list_all2_conv_all_nth list_all_length)
  have "span_within n (si_span (last (qu_select q)))" "qu_select q \<noteq> []"
    using q by (auto simp: query_ok_def list_all_iff item_ok_def)
  moreover have "cwp n (analyse_rest et q fl sel) ?P s" if "length (cs_columns s) \<le> 30"
    by (rule cwp_mono [OF cwp_analyse_rest [OF q sel s(1)]]) (use that s(2) in auto)
  ultimately show "cwp n (\<lambda>s. if length (cs_columns s) > maxColumns
       then (if qu_select q = [] then Inl CPanic
             else Inl (CErr (span_err (si_span (last (qu_select q)))
                    ''at most %d result columns (percentile levels count separately)'' [show_nat maxColumns])))
       else analyse_rest et q fl sel s) ?P s"
    by (simp add: cwp_def maxColumns_def)
qed

section \<open>Rollup eligibility\<close>

definition rollup_attr :: "attr \<Rightarrow> bool" where
  "rollup_attr a \<longleftrightarrow>
     (\<exists>r. at_res a = Some r \<and> (case r_def r of None \<Rightarrow> r_mapKind r = ''attributes'' | Some d \<Rightarrow> ad_rollup d \<noteq> []))"

fun cond_attrs :: "expr \<Rightarrow> attr list" where
  "cond_attrs (Logical op l r) = cond_attrs l @ cond_attrs r"
| "cond_attrs (Not x sp) = cond_attrs x"
| "cond_attrs (Predicate a op vs sp) = [a]"

lemma okAttr_iff: "okAttr a = Some True \<longleftrightarrow> rollup_attr a"
  by (auto simp: okAttr_def rollup_attr_def)

lemma o_and_True [simp]: "o_and a b = Some True \<longleftrightarrow> a = Some True \<and> b = Some True"
  by (auto simp: o_and_def split: option.splits bool.splits)

lemma o_ops_Some [simp]:
  "o_and (Some x) b = (if x then b else Some False)" "o_or (Some x) b = (if x then Some True else b)"
  by (cases x; simp add: o_and_def o_or_def)+

lemma o_and_ex [simp]: "(\<exists>y. o_and a b = Some y) \<longleftrightarrow> (\<exists>x. a = Some x) \<and> (a = Some True \<longrightarrow> (\<exists>y. b = Some y))"
  by (cases a) (auto simp: o_and_def intro: exI [of _ False] split: bool.split)

lemma okAttr_total: "attr_res et a \<Longrightarrow> okAttr a \<noteq> None"
  by (auto simp: okAttr_def attr_res_def)

lemma okCond_total: "expr_res et e \<Longrightarrow> okCond e \<noteq> None"
  by (induction e) (auto simp: pred_res_def attr_res_def okAttr_def)

lemma okCond_True: "okCond e = Some True \<longleftrightarrow> list_all rollup_attr (cond_attrs e)"
  by (induction e) (auto simp: okAttr_iff)

lemma isValue_total: "arg_res et fn arg \<Longrightarrow> isValue arg \<noteq> None"
  by (auto simp: isValue_def arg_res_def split: option.split)

lemma okArg_total: "arg_res et fn arg \<Longrightarrow> arg \<noteq> None \<Longrightarrow> okArg arg \<noteq> None"
  by (auto simp: okArg_def arg_res_def okAttr_def)

lemma okAgg_total: "agg_res et a \<Longrightarrow> okAgg f a \<noteq> None"
proof (induction a arbitrary: f)
  case (Agg fn name star arg inner levels per c roof nb sp tx)
  obtain v where v: "isValue arg = Some v" using Agg.prems isValue_total by fastforce
  have inner: "okAgg g i \<noteq> None" if "inner = Some i" for g i
    using Agg.IH [of i g] Agg.prems that by simp
  have arg: "okArg arg \<noteq> None" if "arg \<noteq> None" using that Agg.prems okArg_total by auto
  have shape: "shape_ok fn star arg inner levels per c" and cond: "\<And>e. c = Some e \<Longrightarrow> okCond e \<noteq> None"
    using Agg.prems okCond_total by auto
  have "funcNames fn = Some fn" using Agg.prems by simp
  from funcNames_cases [OF this] show ?case
    by (elim disjE)
      (use v inner arg shape cond in \<open>auto simp: shape_ok_def split: option.split intro: exI [of _ False]\<close>)
qed

lemma okAgg_hist_total: "hist_res et a \<Longrightarrow> okAgg f a = Some False"
  using isValue_total [of et "''histogram''" "ag_arg a"] by (cases a) (auto simp: hist_res_def)

lemma o_all_total: "(\<And>x. x \<in> set xs \<Longrightarrow> f x \<noteq> None) \<Longrightarrow> o_all f xs \<noteq> None"
  by (induction xs) auto

lemma o_all_True: "o_all f xs = Some True \<longleftrightarrow> (\<forall>x \<in> set xs. f x = Some True)"
  by (induction xs) auto

lemma rollupEligible_total:
  assumes "query_res et q"
  shows "rollupEligible h q \<noteq> None"
proof -
  have "okAgg False (si_agg it) \<noteq> None" if "item_res et it" for it
    using that okAgg_total [of et "si_agg it" False] okAgg_hist_total [of et "si_agg it" False] by (auto simp: item_res_def)
  then have "o_all (\<lambda>it. okAgg False (si_agg it)) (qu_select q) \<noteq> None"
    using assms by (intro o_all_total) (simp add: query_res_def list_all_iff)
  moreover have "o_all okAttr (qu_facets q) \<noteq> None"
    using assms okAttr_total by (intro o_all_total) (auto simp: query_res_def list_all_iff)
  moreover have "(case qu_where q of None \<Rightarrow> Some True | Some w \<Rightarrow> okCond w) \<noteq> None"
    using assms okCond_total by (auto simp: query_res_def split: option.split)
  ultimately show ?thesis by (auto simp: rollupEligible_def)
qed

section \<open>Buckets\<close>

lemma sdiv_nonneg: "0 \<le> (a :: int) \<Longrightarrow> 0 \<le> b \<Longrightarrow> a sdiv b = a div b"
  by (cases "a = 0"; cases "b = 0") (simp_all add: signed_divide_int_def)

lemma smod_cong: "0 < (d :: int) \<Longrightarrow> (a smod d) mod d = a mod d"
  by (simp add: signed_modulo_int_eq_modulo_int)

lemma smod_shift:
  assumes "0 < (step :: int)"
  shows "((ms smod step) + step) smod step = ms mod step"
proof -
  have "0 \<le> (ms smod step) + step"
    using smod_int_range [of step ms] assms by auto
  then have "((ms smod step) + step) smod step = ((ms smod step) + step) mod step"
    using assms by (simp add: smod_mod_positive)
  also have "\<dots> = ms mod step" using smod_cong [OF assms] by simp
  finally show ?thesis .
qed

text \<open>An aligned instant is a whole number of steps after the epoch, at most one step before the instant.\<close>

lemma alignDown_ok:
  assumes d: "0 < d" and ms: "d mod 1000000 = 0"
  obtains s where "alignDown t d = Some s" "s \<le> t" "t < s + d" "(s - unix_epoch) mod d = 0"
proof -
  define step where "step = d div 1000000"
  have step: "d = step * 1000000" "0 < step" using assms by (auto simp: step_def)
  have sd: "d sdiv 1000000 = step" using d by (simp add: sdiv_nonneg step_def)
  define u where "u = to_unix_milli t"
  define s where "s = unix_milli (u - u mod step)"
  have "alignDown t d = Some s"
    using step sd smod_shift [OF step(2), of u] by (simp add: alignDown_def s_def u_def Let_def)
  moreover have "u * 1000000 \<le> t - unix_epoch" "t - unix_epoch < u * 1000000 + 1000000"
    by (auto simp: u_def to_unix_milli_def) 
  moreover have "0 \<le> u mod step * 1000000" "u mod step * 1000000 + 1000000 \<le> step * 1000000"
    using step(2) pos_mod_bound [of step u] by (auto simp del: pos_mod_bound)
  moreover have "(s - unix_epoch) mod d = 0"
    using step by (simp add: s_def unix_milli_def minus_mod_eq_mult_div)
  ultimately show ?thesis
    using step(1) that [of s] by (simp add: s_def unix_milli_def left_diff_distrib)
qed

definition day :: duration where
  "day = 24 * hour"

lemmas dur_consts = day_def hour_def minute_def second_def

text \<open>
  The number of buckets is exact: the last bucket is needed and the buckets cover the range. The
  64-bit arithmetic does not wrap for ranges of at most 400 days and buckets of at most ten years.
\<close>

lemma bucketCount_ok:
  assumes r: "from < to" "to - from \<le> 400 * day" and b: "0 < b" "b \<le> ten_years" "b mod 1000000 = 0"
  obtains s nb where "alignDown from b = Some s" "bucketCount from to b = Some nb" "1 \<le> nb"
    "s + (nb - 1) * b < to" "to \<le> s + nb * b" "nb = (to - s + b - 1) div b"
proof -
  obtain s where s: "alignDown from b = Some s" "s \<le> from" "from < s + b" by (rule alignDown_ok [OF b(1,3)])
  have ts: "time_sub to s = to - s" "wrap64 (to - s + b - 1) = to - s + b - 1"
    using r b s by (auto simp: time_sub_def wrap64_id ten_years_def dur_consts max_int64_def min_int64_def)
  define nb where "nb = (to - s + b - 1) div b"
  have "bucketCount from to b = Some nb"
    using b(1) s(1,2) r(1) ts by (simp add: bucketCount_def nb_def sdiv_nonneg)
  moreover have "to - s + b - 1 = nb * b + (to - s + b - 1) mod b" unfolding nb_def by (rule div_mult_mod_eq [symmetric])
  then have "nb * b \<le> to - s + b - 1" "to - s + b - 1 < nb * b + b"
    using pos_mod_bound [OF b(1), of "to - s + b - 1"] pos_mod_sign [OF b(1), of "to - s + b - 1"] by linarith+
  moreover have "1 \<le> nb"
    using s(2) r(1) b(1) by (simp add: nb_def pos_imp_zdiv_pos_iff int_one_le_iff_zero_less)
  ultimately show ?thesis
    using s(1) by (intro that [of s nb]) (auto simp: left_diff_distrib nb_def)
qed

lemma find_nice: "find P niceBuckets = Some b \<Longrightarrow> b \<in> set niceBuckets \<and> P b"
  by (auto simp: find_Some_iff in_set_conv_nth)

lemma nice_bounds:
  assumes "b \<in> set niceBuckets"
  shows "10 * second \<le> b \<and> b \<le> 7 * day \<and> b mod second = 0 \<and> (minute \<le> b \<longrightarrow> b mod minute = 0)"
  using assms unfolding niceBuckets_def by (simp add: dur_consts) (elim disjE; simp)

lemma auto_bucket_nice: "auto_bucket rng ru \<in> set niceBuckets"
proof -
  have "niceBuckets \<noteq> []" by (simp add: niceBuckets_def)
  then show ?thesis using find_nice last_in_set unfolding auto_bucket_def Let_def by (auto split: option.split)
qed

text \<open>The bucket of \<open>TIMESERIES AUTO\<close> is whole seconds, and whole minutes on the rollup.\<close>

lemma auto_bucket_ok:
  assumes "0 \<le> rng" "rng \<le> 400 * day"
  shows "10 * second \<le> auto_bucket rng ru" "auto_bucket rng ru \<le> 7 * day" "auto_bucket rng ru mod second = 0"
    "ru \<Longrightarrow> auto_bucket rng ru mod minute = 0" "rng \<le> 301 * auto_bucket rng ru"
proof -
  define w where "w = max (rng sdiv autoBuckets) (if ru then minute else minBucket)"
  have ab: "auto_bucket rng ru = (case find (\<lambda>nb. nb \<ge> w) niceBuckets of Some nb \<Rightarrow> nb | None \<Rightarrow> last niceBuckets)"
    by (simp only: auto_bucket_def Let_def w_def)
  have want: "rng sdiv autoBuckets = rng div 300" using assms(1) by (simp add: autoBuckets_def sdiv_nonneg)
  have nice_ne: "last niceBuckets = 7 * day" "niceBuckets \<noteq> []" by (simp_all add: niceBuckets_def day_def)
  have in_nice: "auto_bucket rng ru \<in> set niceBuckets" and big: "w \<le> auto_bucket rng ru \<or> auto_bucket rng ru = 7 * day"
    using find_nice [of "\<lambda>nb. nb \<ge> w"] last_in_set [OF nice_ne(2)] nice_ne(1) by (auto simp: ab split: option.split)
  note nice = nice_bounds [OF in_nice]
  show "10 * second \<le> auto_bucket rng ru" "auto_bucket rng ru \<le> 7 * day" "auto_bucket rng ru mod second = 0"
    using nice by auto
  show "ru \<Longrightarrow> auto_bucket rng ru mod minute = 0" using big nice by (auto simp: w_def dur_consts)
  show "rng \<le> 301 * auto_bucket rng ru" using big want assms nice by (auto simp: w_def dur_consts)
qed

section \<open>Finishing a plan\<close>

text \<open>\<open>swp\<close> is \<open>cwp\<close> for results without a state.\<close>

definition swp :: "nat \<Rightarrow> cerr + 'a \<Rightarrow> ('a \<Rightarrow> bool) \<Rightarrow> bool" where
  "swp n r Q = (case r of Inl CPanic \<Rightarrow> False | Inl (CErr e) \<Rightarrow> err_within n e | Inr x \<Rightarrow> Q x)"

named_theorems swp_simp \<open>weakest preconditions of results\<close>

lemma swp_Inr [swp_simp]: "swp n (Inr x) Q = Q x"
  by (simp add: swp_def)

lemma swp_Inl [swp_simp]: "swp n (Inl (CErr e)) Q = err_within n e"
  by (simp add: swp_def)

lemma swp_panic [swp_simp]: "\<not> swp n (Inl CPanic) Q"
  by (simp add: swp_def)

lemma swp_bind [swp_simp]: "swp n (bind_sum r f) Q = swp n r (\<lambda>x. swp n (f x) Q)"
  by (auto simp: swp_def split: sum.split cerr.split)

lemma swp_map [swp_simp]: "swp n (map_sum CErr id r) Q = (case r of Inl e \<Rightarrow> err_within n e | Inr x \<Rightarrow> Q x)"
  by (auto simp: swp_def split: sum.split)

lemma swp_mono: "swp n r Q \<Longrightarrow> (\<And>x. Q x \<Longrightarrow> R x) \<Longrightarrow> swp n r R"
  by (auto simp: swp_def split: sum.splits cerr.splits)

lemma cwp_swp: "cwp n f Q s = swp n (f s) (\<lambda>(x, s'). Q x s')"
  by (auto simp: cwp_def swp_def split: sum.split cerr.split)

text \<open>A bucket that \<open>buckets\<close> accepts, and the number of buckets of the range.\<close>

definition bucket_ok :: "gtime \<Rightarrow> gtime \<Rightarrow> duration \<Rightarrow> bool" where
  "bucket_ok from to b \<longleftrightarrow>
     10 * second \<le> b \<and> b mod second = 0 \<and> (\<exists>nb. bucketCount from to b = Some nb \<and> 1 \<le> nb \<and> nb \<le> 1000)"

lemma smod_pos: "0 \<le> (a :: int) \<Longrightarrow> 0 \<le> b \<Longrightarrow> a smod b = a mod b"
  by (rule smod_mod_positive)

lemma second_multiple: "b mod second = 0 \<Longrightarrow> b mod 1000000 = (0 :: int)"
  by (auto simp: second_def mod_eq_0_iff_dvd elim: dvd_trans [rotated])

lemma choose_bucket_ok:
  assumes "series_ok n ts" and "0 \<le> rng" "rng \<le> 400 * day"
  shows "case choose_bucket ts rng ru of
      Inl e \<Rightarrow> err_within n e
    | Inr (b, ru') \<Rightarrow> 10 * second \<le> b \<and> b \<le> ten_years \<and> b mod second = 0 \<and> (ru' \<longrightarrow> ru \<and> b mod minute = 0)"
proof (cases "tc_auto ts")
  case True
  then show ?thesis
    using auto_bucket_ok [OF assms(2,3), of ru] by (auto simp: choose_bucket_def ten_years_def dur_consts)
next
  case False
  then show ?thesis
    using assms(1)
    by (auto simp: choose_bucket_def series_ok_def minBucket_def smod_pos dur_consts)
qed

lemma buckets_ok:
  assumes ts: "series_ok n ts" and r: "from < to" "to - from \<le> 400 * day"
  shows "swp n (buckets ts from to (to - from) ru) (\<lambda>(b, ru'). bucket_ok from to b \<and> (ru' \<longrightarrow> ru \<and> b mod minute = 0))"
proof (cases "choose_bucket ts (to - from) ru")
  case (Inl e)
  then show ?thesis
    using choose_bucket_ok [OF ts, of "to - from" ru] r by (simp add: buckets_def swp_Inl)
next
  case (Inr x)
  obtain b ru' where x: "x = (b, ru')" by (cases x)
  have b: "10 * second \<le> b" "b \<le> ten_years" "b mod second = 0" "ru' \<longrightarrow> ru \<and> b mod minute = 0"
    using choose_bucket_ok [OF ts, of "to - from" ru] r Inr x by auto
  have "0 < b" using b(1) by (simp add: second_def)
  then obtain s nb where "bucketCount from to b = Some nb" "1 \<le> nb"
    using bucketCount_ok [OF r _ b(2) second_multiple [OF b(3)]] by blast
  moreover have "span_within n (tc_span ts)" using ts by (simp add: series_ok_def)
  ultimately show ?thesis
    using Inr x b by (auto simp: buckets_def swp_simp bucket_ok_def maxBuckets_def count_err_def)
qed

text \<open>The spans a plan error can point at lie inside the text.\<close>

definition clause_spans :: "nat \<Rightarrow> oql_query \<Rightarrow> bool" where
  "clause_spans n q \<longleftrightarrow>
     span_within n (qu_eventSpan q) \<and> list_all (span_within n) (map at_span (qu_facets q)) \<and>
     (\<forall>t. qu_since q = Some t \<longrightarrow> time_ok n t) \<and> (\<forall>t. qu_until q = Some t \<longrightarrow> time_ok n t) \<and>
     (\<forall>c. qu_timeseries q = Some c \<longrightarrow> series_ok n c) \<and> (\<forall>l. qu_limit q = Some l \<longrightarrow> limit_ok n l) \<and>
     (\<forall>d. qu_compare q = Some d \<longrightarrow> dur_ok n d)"

lemma clause_spans_same: "query_ok n q \<Longrightarrow> clauses_same q q' \<Longrightarrow> clause_spans n q'"
  by (auto simp: clause_spans_def clauses_same_def query_ok_def list_all_iff attr_ok_def)

lemma spanOfAttrs_within: "list_all (span_within n) (map at_span as) \<Longrightarrow> span_within n (spanOfAttrs as)"
  by (cases as rule: rev_cases) (auto simp: spanOfAttrs_def span_within_def zero_span_def hd_append hd_in_set list_all_iff)

lemma plan_kind_ok:
  assumes "clause_spans n q"
  shows "case plan_kind_of h q of
      Inl e \<Rightarrow> err_within n e
    | Inr k \<Rightarrow> (k = KindHistogram \<longleftrightarrow> h \<noteq> None) \<and> (k = KindTimeseries \<longleftrightarrow> h = None \<and> qu_timeseries q \<noteq> None) \<and>
               (k = KindFacets \<longleftrightarrow> h = None \<and> qu_timeseries q = None \<and> qu_facets q \<noteq> [])"
  using assms spanOfAttrs_within [of n "qu_facets q"]
  by (auto simp: plan_kind_of_def histogram_with_def clause_spans_def series_ok_def dur_ok_def split: option.splits)

lemma raw_range_anchor:
  assumes "clause_spans n q" and "raw_range now opt q = (f, t, sp)"
  shows "span_within n sp"
  using assms by (auto simp: raw_range_def clause_spans_def time_ok_def split: if_splits option.splits)

lemmas et_defs = etLog_def etSpan_def etTransaction_def etMetric_def etHost_def etContainer_def etProfile_def
  etRumPageView_def etRumVital_def etRumSession_def etAnalyticsEvent_def etDbQuery_def

lemma max_range_le: "et \<in> set eventTypes \<Longrightarrow> et_maxRange et \<le> 400 * day"
proof -
  have "\<forall>et \<in> set eventTypes. et_maxRange et = maxRawRange \<or> et_maxRange et = maxRollupRange"
    by (simp add: eventTypes_def et_defs)
  then show "et \<in> set eventTypes \<Longrightarrow> et_maxRange et \<le> 400 * day"
    by (auto simp: maxRawRange_def maxRollupRange_def dur_consts)
qed

definition range_ok :: "eventType \<Rightarrow> gtime \<Rightarrow> gtime \<Rightarrow> gtime \<Rightarrow> bool" where
  "range_ok et now from to \<longleftrightarrow> from < to \<and> now - 400 * day \<le> from \<and> to - from \<le> et_maxRange et"

lemma check_range_ok:
  assumes "et \<in> set eventTypes" and "span_within n sp"
  shows "case check_range et now from to sp of Some e \<Rightarrow> err_within n e | None \<Rightarrow> range_ok et now from to"
proof -
  have "et_maxRange et < max_int64" using max_range_le [OF assms(1)] by (simp add: dur_consts max_int64_def)
  then show ?thesis
    using assms(2) by (auto simp: check_range_def range_ok_def time_sub_def maxLookback_def dur_consts)
qed

definition limits_ok :: "int \<Rightarrow> plan_kind \<Rightarrow> int \<Rightarrow> bool" where
  "limits_ok mx kind lm \<longleftrightarrow> 1 \<le> lm \<and> lm \<le> mx \<and> (kind = KindTimeseries \<longrightarrow> lm \<le> 50)"

lemma choose_limit_ok:
  assumes "0 < dflt" and "0 < mx" and "\<And>l. lc = Some l \<Longrightarrow> limit_ok n l"
  shows "case choose_limit dflt mx kind lc of Inl e \<Rightarrow> err_within n e | Inr lm \<Rightarrow> limits_ok mx kind lm"
  using assms by (auto simp: choose_limit_def limits_ok_def limit_ok_def MaxTimeseriesFacets_def Let_def split: option.split)

definition points_ok :: "bool \<Rightarrow> int \<Rightarrow> nat \<Rightarrow> gtime \<Rightarrow> gtime \<Rightarrow> duration \<Rightarrow> bool" where
  "points_ok faceted lm cols from to b \<longleftrightarrow>
     (let series = (if faceted then lm else 1) * int cols in
      series \<le> 500 \<and> (\<exists>nb. bucketCount from to b = Some nb \<and> series * nb \<le> 100000))"

lemma check_points_ok:
  assumes "series_ok n ts" and "bucket_ok from to b"
  shows "case check_points ts f lm cols from to b of
      Some CPanic \<Rightarrow> False | Some (CErr e) \<Rightarrow> err_within n e | None \<Rightarrow> points_ok f lm cols from to b"
  using assms
  by (auto simp: check_points_def Let_def bucket_ok_def series_ok_def points_ok_def maxSeries_def maxPoints_def split: cerr.splits)

lemma check_compare_ok:
  assumes "\<And>d. c = Some d \<Longrightarrow> dur_ok n d"
  shows "case check_compare c of Inl e \<Rightarrow> err_within n e | Inr d \<Rightarrow> d = 0 \<or> minute \<le> d \<and> d \<le> 400 * day"
  using assms by (auto simp: check_compare_def dur_ok_def maxCompare_def dur_consts split: option.split)

text \<open>The contract of a plan for the normalised options.\<close>

definition plan_res :: "plan \<Rightarrow> bool" where
  "plan_res p \<longleftrightarrow>
     pl_event p \<in> set eventTypes \<and> query_res (pl_event p) (pl_query p) \<and> pl_facets p = qu_facets (pl_query p) \<and>
     pl_columns p \<noteq> [] \<and> length (pl_columns p) \<le> 30 \<and> (\<forall>h. pl_hist p = Some h \<longrightarrow> hist_res (pl_event p) h) \<and>
     (pl_hist p = None \<longrightarrow> list_all (col_agg (pl_event p)) (pl_columns p)) \<and>
     (pl_kind p = KindHistogram \<longleftrightarrow> pl_hist p \<noteq> None) \<and>
     (pl_kind p = KindFacets \<longrightarrow> pl_facets p \<noteq> [])"

definition plan_limits :: "options \<Rightarrow> plan \<Rightarrow> bool" where
  "plan_limits opt p \<longleftrightarrow>
     range_ok (pl_event p) (op_now opt) (pl_from p) (pl_to p) \<and> limits_ok (op_maxLimit opt) (pl_kind p) (pl_limit p) \<and>
     (pl_compare p = 0 \<or> minute \<le> pl_compare p \<and> pl_compare p \<le> 400 * day) \<and>
     (pl_kind p = KindTimeseries \<longrightarrow>
        bucket_ok (pl_from p) (pl_to p) (pl_bucket p) \<and>
        points_ok (pl_facets p \<noteq> []) (pl_limit p) (length (pl_columns p)) (pl_from p) (pl_to p) (pl_bucket p)) \<and>
     (pl_kind p \<noteq> KindTimeseries \<longrightarrow> pl_bucket p = 0)"

definition plan_rollup :: "plan \<Rightarrow> bool" where
  "plan_rollup p \<longleftrightarrow>
     (if pl_rollup p then
        et_rollup (pl_event p) \<and> 6 * hour < pl_to p - pl_from p \<and> rollupEligible (pl_hist p) (pl_query p) = Some True \<and>
        (pl_kind p = KindTimeseries \<longrightarrow> pl_bucket p mod minute = 0)
      else et_rollup (pl_event p) \<longrightarrow> pl_to p - pl_from p \<le> 31 * day)"

lemma swp_liftI:
  assumes "case r of Inl e \<Rightarrow> err_within n e | Inr x \<Rightarrow> P x" and "\<And>x. P x \<Longrightarrow> Q x"
  shows "swp n (lift_err r) Q"
  using assms by (auto simp: swp_simp split: sum.splits)

lemma swp_errI:
  assumes "case e of Some x \<Rightarrow> err_within n x | None \<Rightarrow> P" and "P \<Longrightarrow> Q ()"
  shows "swp n (lift_err (err_opt e)) Q"
  using assms by (auto simp: swp_simp err_opt_def split: option.splits)

lemma swp_checkI:
  assumes "case e of Some CPanic \<Rightarrow> False | Some (CErr x) \<Rightarrow> err_within n x | None \<Rightarrow> P" and "P \<Longrightarrow> Q ()"
  shows "swp n (err_opt e) Q"
  using assms by (auto simp: swp_def err_opt_def split: option.splits cerr.splits)

lemma choose_rollup_ok:
  assumes "query_res et q"
  shows "swp n (choose_rollup et opt h q rng)
    (\<lambda>ru. ru \<longrightarrow> et_rollup et \<and> 6 * hour < rng \<and> rollupEligible h q = Some True)"
  using rollupEligible_total [OF assms, of h] by (auto simp: choose_rollup_def swp_simp rollupMinRange_def)

lemma time_buckets_ok:
  assumes "\<And>t. ts = Some t \<Longrightarrow> series_ok n t" and "kind = KindTimeseries \<Longrightarrow> ts \<noteq> None"
    and "from < to" "to - from \<le> 400 * day"
  shows "swp n (time_buckets kind ts from to (to - from) ru) (\<lambda>(b, ru'). (ru' \<longrightarrow> ru) \<and>
    (if kind = KindTimeseries then bucket_ok from to b \<and> (ru' \<longrightarrow> b mod minute = 0) else b = 0))"
proof (cases "kind = KindTimeseries")
  case True
  then obtain t where t: "ts = Some t" "series_ok n t" using assms by blast
  show ?thesis
    using swp_mono [OF buckets_ok [OF t(2) assms(3,4), of ru]] True t by (auto simp: time_buckets_def)
qed (simp add: time_buckets_def swp_simp)

lemma check_raw_ok:
  assumes "span_within n anchor"
  shows "case check_raw et ru rng anchor of Some e \<Rightarrow> err_within n e | None \<Rightarrow> (et_rollup et \<longrightarrow> \<not> ru \<longrightarrow> rng \<le> 31 * day)"
  using assms by (auto simp: check_raw_def raw_metric_err_def maxRawRange_def day_def)

lemma check_series_ok:
  assumes "\<And>t. qu_timeseries q = Some t \<Longrightarrow> series_ok n t" and "kind = KindTimeseries \<Longrightarrow> qu_timeseries q \<noteq> None"
    and "kind = KindTimeseries \<Longrightarrow> bucket_ok from to b"
  shows "case check_series kind q lm cols from to b of
      Some CPanic \<Rightarrow> False | Some (CErr e) \<Rightarrow> err_within n e
    | None \<Rightarrow> kind = KindTimeseries \<longrightarrow> points_ok (qu_facets q \<noteq> []) lm cols from to b"
proof (cases "kind = KindTimeseries")
  case True
  then obtain t where "qu_timeseries q = Some t" "series_ok n t" using assms by blast
  then show ?thesis
    using True check_points_ok [OF _ assms(3) [OF True], of n t "qu_facets q \<noteq> []" lm cols]
    by (simp add: check_series_def split: option.splits cerr.splits)
qed (simp add: check_series_def)

lemma finish_plan_ok:
  assumes et: "et \<in> set eventTypes" and q: "query_res et q" "clause_spans n q"
    and s: "cols_inv n et s" "cs_columns s \<noteq> []" "length (cs_columns s) \<le> 30" and lims: "0 < op_defaultLimit opt" "0 < op_maxLimit opt"
  shows "swp n (finish_plan src et opt q s) (\<lambda>p. plan_res p \<and> plan_limits opt p \<and> plan_rollup p \<and>
    pl_event p = et \<and> list_all (err_within n) (pl_warnings p))"
proof -
  obtain f t anchor where r: "raw_range (op_now opt) opt q = (f, t, anchor)" by (cases "raw_range (op_now opt) opt q")
  have anchor: "span_within n anchor" by (rule raw_range_anchor [OF q(2) r])
  have cl: "\<And>ts. qu_timeseries q = Some ts \<Longrightarrow> series_ok n ts" "\<And>l. qu_limit q = Some l \<Longrightarrow> limit_ok n l"
    "\<And>d. qu_compare q = Some d \<Longrightarrow> dur_ok n d" using q(2) by (auto simp: clause_spans_def)
  have rng: "time_sub t f = t - f" "t - f \<le> 400 * day" if "range_ok et now f t" for now
    using that max_range_le [OF et] by (auto simp: range_ok_def time_sub_def dur_consts max_int64_def min_int64_def)
  show ?thesis
    unfolding finish_plan_def r Let_def prod.case swp_bind
  proof (rule swp_liftI [OF plan_kind_ok [OF q(2)]], rule swp_errI [OF check_range_ok [OF et anchor]],
      rule swp_liftI [OF choose_limit_ok [OF lims cl(2)]], assumption, rule swp_mono [OF choose_rollup_ok [OF q(1)]], goal_cases)
    case (1 kind lm ru)
    have tb: "swp n (time_buckets kind (qu_timeseries q) f t (time_sub t f) ru) (\<lambda>(b, ru'). (ru' \<longrightarrow> ru) \<and>
        (if kind = KindTimeseries then bucket_ok f t b \<and> (ru' \<longrightarrow> b mod minute = 0) else b = 0))"
      unfolding rng(1) [OF 1(2)] using cl(1) 1(1,2) rng(2) [OF 1(2)] by (intro time_buckets_ok) (auto simp: range_ok_def)
    show ?case
    proof (rule swp_mono [OF tb], clarsimp simp: swp_bind simp del: swp_map, rule swp_errI [OF check_raw_ok [OF anchor]],
        rule swp_checkI [OF check_series_ok [OF cl(1)]], goal_cases)
      case (4 b ru')
      show ?case
        by (rule swp_liftI [OF check_compare_ok [OF cl(3)]])
          (use 1 4 et q(1) s rng [OF 1(2)] in
            \<open>auto simp: swp_Inr plan_res_def plan_limits_def plan_rollup_def cols_inv_def wok_def split: if_splits\<close>)
    qed (use 1 in auto)
  qed
qed

end
