(* ===== verification/OqlCompileCorrect.thy ===== *)
theory OqlCompileCorrect
  imports OqlPlanCorrect
begin

text \<open>
  The properties of \<open>Compile\<close> and \<open>Validate\<close> (\<^verbatim>\<open>internal/oql/plan.go\<close>), composed from the parser and the
  checks of the plan: no source text makes the compiler panic, every diagnostic points into the text, and
  every plan is resolved against the attribute whitelist and within the limits of the language.
\<close>

section \<open>Compiling\<close>

lemma compile_ok:
  assumes q: "query_ok n q"
  shows "swp n (compile clock src q opt) (\<lambda>p. plan_res p \<and> plan_limits (norm_options clock opt) p \<and> plan_rollup p \<and>
    et_name (pl_event p) = qu_eventType q \<and> list_all (err_within n) (pl_warnings p))"
proof -
  let ?o = "norm_options clock opt"
  obtain et where et: "lookupEventType (qu_eventType q) = Some et" "et \<in> set eventTypes" "et_name et = qu_eventType q"
    using q lookupEventType_name by (fastforce simp: query_ok_def)
  have lims: "0 < op_defaultLimit ?o" "0 < op_maxLimit ?o"
    by (auto simp: norm_options_def DefaultLimit_def MaxTableLimit_def)
  show ?thesis
    unfolding compile_def Let_def et option.case swp_bind
  proof (rule swp_mono [OF cwp_analyse [OF q, unfolded cwp_swp]], clarify)
    fix q' s assume r: "query_res et q'" "clauses_same q q'" "cols_inv n et s" "cs_columns s \<noteq> []" "length (cs_columns s) \<le> 30"
    have "swp n (finish_plan src et ?o q' s) (\<lambda>p. plan_res p \<and> plan_limits ?o p \<and> plan_rollup p \<and>
      pl_event p = et \<and> list_all (err_within n) (pl_warnings p))"
      by (rule finish_plan_ok [OF et(2) r(1) clause_spans_same [OF q r(2)] r(3-5) lims])
    then show "swp n (finish_plan src et ?o q' s) (\<lambda>p. plan_res p \<and> plan_limits ?o p \<and> plan_rollup p \<and>
        et_name (pl_event p) = qu_eventType q \<and> list_all (err_within n) (pl_warnings p))"
      by (rule swp_mono) (use et(3) in simp)
  qed
qed

lemma Compile_ok:
  "swp (length src) (Compile clock src opt) (\<lambda>p. plan_res p \<and> plan_limits (norm_options clock opt) p \<and> plan_rollup p \<and>
    list_all (err_within (length src)) (pl_warnings p))"
proof (cases "Parse src")
  case (Inl e)
  then show ?thesis using Parse_ok [of src] by (cases e) (auto simp: Compile_def swp_simp)
next
  case (Inr q)
  have "swp (length src) (compile clock src q opt) (\<lambda>p. plan_res p \<and> plan_limits (norm_options clock opt) p \<and>
      plan_rollup p \<and> et_name (pl_event p) = qu_eventType q \<and> list_all (err_within (length src)) (pl_warnings p))"
    using Parse_ok [of src] Inr by (intro compile_ok) simp
  then have "swp (length src) (compile clock src q opt) (\<lambda>p. plan_res p \<and> plan_limits (norm_options clock opt) p \<and>
      plan_rollup p \<and> list_all (err_within (length src)) (pl_warnings p))"
    by (rule swp_mono) blast
  then show ?thesis using Inr by (simp add: Compile_def)
qed

lemma Compile_plan:
  assumes "Compile clock src opt = Inr p"
  shows "plan_res p" "plan_limits (norm_options clock opt) p" "plan_rollup p"
  using Compile_ok [of src clock opt] assms by (simp_all add: swp_def)

text \<open>
  C10: Compiling any text with any options ends in a plan or in an error, never in a nil dereference or
  a division by zero, and every error and every warning of the plan points inside the text.
\<close>

theorem Compile_total:
  "(\<exists>p. Compile clock src opt = Inr p \<and> list_all (err_within (length src)) (pl_warnings p)) \<or>
   (\<exists>e. Compile clock src opt = Inl (CErr e) \<and> err_within (length src) e)"
  using Compile_ok [of src clock opt] by (auto simp: swp_def split: sum.splits cerr.splits)

section \<open>Plans\<close>

text \<open>The query \<open>demo_series\<close> over seven hours compiles to a timeseries on the rollup table.\<close>

definition demo_series :: string where
  "demo_series = ''SELECT count(*) FROM Metric TIMESERIES''"

definition demo_options :: options where
  "demo_options =
     \<lparr>op_now = 63904132800 * second, op_from = 63904132800 * second - 7 * hour, op_to = 63904132800 * second,
      op_variables = Map.empty, op_defaultLimit = 0, op_maxLimit = 0, op_noRollup = False, op_filters = []\<rparr>"

definition demo_parsed :: oql_query where
  "demo_parsed =
     \<lparr>qu_select = [\<lparr>si_agg = Agg ''count'' ''count'' True None None [] None None (FNum False 0) 0 (mk_span 7 15) ''*'',
        si_alias = [], si_span = mk_span 7 15\<rparr>],
      qu_eventType = ''Metric'', qu_eventSpan = mk_span 21 27, qu_where = None, qu_facets = [], qu_since = None,
      qu_until = None, qu_timeseries = Some \<lparr>tc_auto = True, tc_bucket = 0, tc_span = mk_span 28 38\<rparr>,
      qu_limit = None, qu_compare = None\<rparr>"

lemma demo_parse: "Parse demo_series = Inr demo_parsed"
  by code_simp

lemma demo_compile:
  "case compile 0 src demo_parsed demo_options of
     Inr p \<Rightarrow>
       pl_rollup p \<and> pl_kind p = KindTimeseries \<and> pl_bucket p = 5 * minute \<and> pl_facets p = [] \<and>
       qu_where (pl_query p) = None \<and> et_name (pl_event p) = ''Metric'' \<and>
       map (\<lambda>c. (cl_agg c, cl_type c)) (pl_columns p) = [(si_agg (hd (qu_select demo_parsed)), TNumber)]
   | Inl _ \<Rightarrow> False"
  by code_simp

lemma demo_plan:
  obtains p where "Compile 0 demo_series demo_options = Inr p" "pl_rollup p" "pl_kind p = KindTimeseries"
    "pl_bucket p = 5 * minute" "pl_facets p = []" "qu_where (pl_query p) = None" "et_name (pl_event p) = ''Metric''"
    "map (\<lambda>c. (cl_agg c, cl_type c)) (pl_columns p) = [(si_agg (hd (qu_select demo_parsed)), TNumber)]"
  using demo_compile [of demo_series] by (auto simp: Compile_def demo_parse split: sum.splits)

text \<open>
  C20: In every plan each attribute of the select list, the facets and the condition is resolved to an entry
  of the whitelist of the queried event type or to a map key of it, each column is a well-typed aggregate
  over such attributes, and there are between one and 30 columns.
\<close>

theorem Compile_resolved:
  assumes "Compile clock src opt = Inr p"
  shows "plan_res p"
  by (rule Compile_plan [OF assms])

theorem Compile_resolved_witness: "\<exists>p. Compile 0 demo_series demo_options = Inr p \<and> plan_res p"
  by (rule demo_plan) (use Compile_resolved in blast)

text \<open>
  C8: Every plan respects the limits of the language: the range is not empty, starts at most 400 days ago
  and is at most as long as the event type allows; the row limit is positive and at most the maximum, and
  at most 50 for timeseries; a timeseries has whole-second buckets of at least ten seconds, at most 1000
  of them, at most 500 series and at most 100000 points.
\<close>

theorem Compile_limits:
  assumes "Compile clock src opt = Inr p"
  shows "plan_limits (norm_options clock opt) p"
  by (rule Compile_plan [OF assms])

theorem Compile_limits_witness:
  "\<exists>p. Compile 0 demo_series demo_options = Inr p \<and> pl_kind p = KindTimeseries \<and>
     plan_limits (norm_options 0 demo_options) p"
  by (rule demo_plan) (use Compile_limits in blast)

lemma rollup_only_metric: "et \<in> set eventTypes \<Longrightarrow> et_rollup et \<Longrightarrow> et_name et = ''Metric''"
proof -
  have "\<forall>et \<in> set eventTypes. et_rollup et \<longrightarrow> et_name et = ''Metric''" by (simp add: eventTypes_def et_defs)
  then show "et \<in> set eventTypes \<Longrightarrow> et_rollup et \<Longrightarrow> et_name et = ''Metric''" by blast
qed



section \<open>Validation\<close>

lemma Diagnose_within: "d_offset (Diagnose src e) + d_length (Diagnose src e) \<le> n \<longleftrightarrow> err_within n e"
  by (simp add: Diagnose_def err_within_def split: prod.split)

lemma result_cases:
  obtains e where "r = Inl (CErr e)" | "r = Inl CPanic" | x where "r = Inr x"
  by (cases r rule: sum.exhaust; cases "projl r") auto

text \<open>
  C37: \<open>Validate\<close> always answers; it calls a text valid exactly when \<open>Compile\<close> accepts it, with the kind of
  the compiled plan and no error, and otherwise reports exactly one error. Every reported error and
  warning lies inside the text.
\<close>

theorem Validate_total:
  "\<exists>v. Validate clock src opt = Some v \<and> va_valid v = (\<exists>p. Compile clock src opt = Inr p) \<and>
     length (va_errors v) = (if va_valid v then 0 else 1) \<and>
     (case Compile clock src opt of
        Inr p \<Rightarrow> va_kind v = Some (kind_text (pl_kind p)) \<and> va_variables v = pl_variables p
      | Inl _ \<Rightarrow> va_kind v = None) \<and>
     list_all (\<lambda>d. d_offset d + d_length d \<le> length src) (va_errors v @ va_warnings v)"
proof (cases "Parse src")
  case (Inl e)
  then show ?thesis
    using Parse_ok [of src]
    by (cases e) (auto simp: Validate_def Compile_def Diagnose_within)
next
  case (Inr q)
  then have "swp (length src) (compile clock src q opt) (\<lambda>p. list_all (err_within (length src)) (pl_warnings p))"
    using Compile_ok [of src clock opt] by (auto simp: Compile_def elim!: swp_mono)
  then show ?thesis
    using Inr
    by (cases "compile clock src q opt" rule: result_cases)
      (auto simp: Validate_def Compile_def Diagnose_within swp_simp list_all_iff Let_def)
qed

section \<open>Buckets\<close>

text \<open>
  Aligning an instant to a step of whole milliseconds gives the latest instant at a whole number of
  steps after the Unix epoch that is not later, also for instants before the epoch.
\<close>

lemma alignDown_spec:
  assumes "0 < d" and "d mod 1000000 = 0"
  shows "\<exists>s. alignDown t d = Some s \<and> s \<le> t \<and> t < s + d \<and> (s - unix_epoch) mod d = 0"
  using alignDown_ok [OF assms, of t] by metis

text \<open>
  The number of buckets of a range is exact: starting at the aligned start of the range, that many
  buckets cover the range and one fewer does not.
\<close>

lemma bucketCount_exact:
  assumes "from < to" "to - from \<le> 400 * day" and "0 < b" "b \<le> ten_years" "b mod 1000000 = 0"
  shows "\<exists>s nb. alignDown from b = Some s \<and> bucketCount from to b = Some nb \<and> 1 \<le> nb \<and>
    s + (nb - 1) * b < to \<and> to \<le> s + nb * b"
  using bucketCount_ok [OF assms] by metis



end
