(* ===== verification/QuerySelectCorrect.thy ===== *)
theory QuerySelectCorrect
  imports QuerySelect
begin

text \<open>
  Tenant isolation of the statement builder (\<^verbatim>\<open>internal/api/query/query.go\<close>). \<open>built\<close> are the selects
  that calls of the builder methods can produce. The text of a built statement is derived by the
  grammar \<open>filtered\<close>: every table it names is directly followed by the tenant predicate, and
  everything else is a fragment that passed the filter, a separator or a number.
\<close>

section \<open>Evaluating the filter\<close>

text \<open>
  An equivalent form of \<open>forbidden_at\<close> that tries the words only at word boundaries and the suffixes of table
  names only after the name.
\<close>

definition table_at :: "nat option \<Rightarrow> nat list \<Rightarrow> string \<Rightarrow> bool" where
  "table_at prev rs w =
     (case lit_at w prev rs of
        None \<Rightarrow> False
      | Some (l, rest) \<Rightarrow>
          boundary l rest \<or> (case lit_at ''_local'' l rest of None \<Rightarrow> False | Some (a, b) \<Rightarrow> boundary a b) \<or>
          (case lit_at ''_mv'' l rest of None \<Rightarrow> False | Some (a, b) \<Rightarrow> boundary a b))"

lemma lit_at_append: "lit_at (a @ b) prev rs = (case lit_at a prev rs of None \<Rightarrow> None | Some (l, rest) \<Rightarrow> lit_at b l rest)"
  by (induction a prev rs rule: lit_at.induct) auto

lemma table_at_eq:
  assumes "boundary prev rs"
  shows "(whole_word w prev rs \<or> whole_word (w @ ''_local'') prev rs \<or> whole_word (w @ ''_mv'') prev rs) = table_at prev rs w"
  using assms unfolding whole_word_def table_at_def lit_at_append by (auto split: option.split)

lemma forbidden_at_eval:
  "forbidden_at prev rs =
     (if starts_lit ''tenant_id'' rs \<or> starts_lit '';'' rs \<or> starts_lit ''--'' rs \<or> starts_lit ''/*'' rs then True
      else if boundary prev rs then
        list_ex (\<lambda>w. whole_word w prev rs) forbidden_words \<or> word_then ''default'' CHR ''.'' prev rs \<or> starts_lit ''remote'' rs \<or>
        word_then ''cluster'' CHR ''('' prev rs \<or> word_then ''clusterallreplicas'' CHR ''('' prev rs \<or>
        starts_lit ''dictget'' rs \<or> list_ex (table_at prev rs) forbidden_tables
      else False)"
proof (cases "boundary prev rs")
  case True
  then show ?thesis unfolding forbidden_at_def table_at_eq [OF True] by auto
next
  case False
  then have "\<not> whole_word w prev rs" "\<not> word_then w c prev rs" for w c by (auto simp: whole_word_def word_then_def)
  then show ?thesis using False by (auto simp: forbidden_at_def list_ex_iff)
qed

lemmas forbidden_eval = forbidden_def ascii_runes forbidden_at_eval forbidden_words_def forbidden_tables_def starts_lit_def
  whole_word_def word_then_def table_at_def boundary_def fold_rune_def word_opt_def next_rune_def word_rune_def

section \<open>The grammar of isolated statements\<close>

definition plain :: "string \<Rightarrow> bool" where
  "plain s \<longleftrightarrow> CHR 0x00 \<notin> set s"

definition fragment :: "string \<Rightarrow> bool" where
  "fragment s \<longleftrightarrow> plain s \<and> \<not> forbidden s"

definition separators :: "string list" where
  "separators =
     ['', '', '' AND '', ''('', '')'', '' GROUP BY '', '' HAVING '', '' ORDER BY '', '' LIMIT '', '' OFFSET '', '' BY '',
      '' WHERE '', '' GLOBAL IN ('']"

inductive clean :: "string \<Rightarrow> bool" where
  clean_Nil: "clean []"
| clean_fragment: "fragment s \<Longrightarrow> clean s"
| clean_separator: "s \<in> set separators \<Longrightarrow> clean s"
| clean_number: "clean (show_int n)"
| clean_append: "clean a \<Longrightarrow> clean b \<Longrightarrow> clean (a @ b)"

definition table_source :: "string \<Rightarrow> table \<Rightarrow> bool \<Rightarrow> string" where
  "table_source database t final =
     quoteIdent database @ ''.'' @ table_name t @ (if final then '' FINAL'' else [])"

text \<open>\<open>mixed\<close> is clean text with isolated statements inside.\<close>

inductive filtered :: "string \<Rightarrow> string \<Rightarrow> bool" and mixed :: "string \<Rightarrow> string \<Rightarrow> bool" for database where
  filtered_table: "clean cols \<Longrightarrow> plain (table_name t) \<Longrightarrow> mixed database rest \<Longrightarrow>
    filtered database (''SELECT '' @ cols @ '' FROM '' @ table_source database t final @
      '' WHERE (tenant_id = {tenant_id:String})'' @ rest)"
| filtered_sub: "clean cols \<Longrightarrow> filtered database inner \<Longrightarrow> mixed database rest \<Longrightarrow>
    filtered database (''SELECT '' @ cols @ '' FROM ('' @ inner @ '')'' @ rest)"
| mixed_clean: "clean s \<Longrightarrow> mixed database s"
| mixed_statement: "filtered database s \<Longrightarrow> mixed database s"
| mixed_append: "mixed database a \<Longrightarrow> mixed database b \<Longrightarrow> mixed database (a @ b)"

lemma clean_join: "list_all clean xs \<Longrightarrow> clean sep \<Longrightarrow> clean (join_with sep xs)"
  by (induction sep xs rule: join_with.induct) (auto intro: clean.intros)

lemma separator_clean [simp]:
  "clean '', ''" "clean '' AND ''" "clean ''(''" "clean '')''" "clean '' GROUP BY ''" "clean '' HAVING ''"
  "clean '' ORDER BY ''" "clean '' LIMIT ''" "clean '' OFFSET ''" "clean '' BY ''" "clean '' WHERE ''"
  "clean '' GLOBAL IN (''"
  by (rule clean_separator, simp add: separators_def)+

lemma plain_simps [simp]: "plain []" "plain (a @ b) \<longleftrightarrow> plain a \<and> plain b"
  "plain (c # s) \<longleftrightarrow> c \<noteq> CHR 0x00 \<and> plain s"
  by (auto simp: plain_def)

lemma plain_digits: "list_all is_digit s \<Longrightarrow> plain s"
  by (auto simp: plain_def list_all_iff is_digit_def)

lemma plain_show_nat [simp]: "plain (show_nat n)"
  by (rule plain_digits [OF show_nat_digits])

lemma plain_show_int [simp]: "plain (show_int n)"
  by (simp add: show_int_def)

lemma plain_join: "list_all plain xs \<Longrightarrow> plain sep \<Longrightarrow> plain (join_with sep xs)"
  by (induction sep xs rule: join_with.induct) auto

lemma clean_plain: "clean s \<Longrightarrow> plain s"
  by (induction rule: clean.induct) (auto simp: fragment_def separators_def)

section \<open>Invariant of the builder\<close>

text \<open>
  The conditions of a select with \<open>n\<close> sub-selects: the marker of the \<open>i\<close>-th sub-select occurs once, and the
  markers are in order.
\<close>

inductive where_ok :: "string list \<Rightarrow> nat \<Rightarrow> bool" where
  where_Nil: "where_ok [] 0"
| where_cond: "where_ok ws n \<Longrightarrow> fragment w \<Longrightarrow> where_ok (ws @ [w]) n"
| where_in: "where_ok ws n \<Longrightarrow> fragment e \<Longrightarrow> where_ok (ws @ [e @ '' GLOBAL IN ('' @ sub_marker n @ '')'']) (Suc n)"

definition core_ok :: "select_core \<Rightarrow> nat \<Rightarrow> bool" where
  "core_ok c n \<longleftrightarrow>
     list_all fragment (q_cols c) \<and> where_ok (q_where c) n \<and> list_all fragment (q_groupBy c) \<and>
     list_all fragment (q_having c) \<and> list_all fragment (q_orderBy c) \<and> clean (q_limitBy c) \<and>
     map_of (q_params c) ''tenant_id'' = None \<and> plain (sc_database (q_scope c)) \<and> plain (table_name (q_table c))"

fun safe :: "select \<Rightarrow> bool" where
  "safe (Select c sub subs) \<longleftrightarrow>
     core_ok c (length subs) \<and>
     (case sub of None \<Rightarrow> True
        | Some s \<Rightarrow> safe s \<and> (q_err c = None \<longrightarrow> q_scope (q_core s) = q_scope c)) \<and>
     (\<forall>s \<in> set subs. safe s \<and> q_scope (q_core s) = q_scope c)"

text \<open>
  What calls of the builder methods produce. A scope is an object, so that two selects with the same
  scope identity have the same scope; fragments are texts without zero bytes.
\<close>

inductive built :: "scope list \<Rightarrow> select \<Rightarrow> bool" for scopes where
  built_From: "s \<in> set scopes \<Longrightarrow> plain (table_name t) \<Longrightarrow> built scopes (From s t)"
| built_FromSub: "s \<in> set scopes \<Longrightarrow> built scopes q \<Longrightarrow> built scopes (FromSub s q)"
| built_Columns: "built scopes q \<Longrightarrow> list_all plain cols \<Longrightarrow> built scopes (Columns cols q)"
| built_Final: "built scopes q \<Longrightarrow> built scopes (Final q)"
| built_Where: "built scopes q \<Longrightarrow> plain e \<Longrightarrow> built scopes (Where e q)"
| built_WhereIn: "built scopes q \<Longrightarrow> built scopes r \<Longrightarrow> plain e \<Longrightarrow> built scopes (WhereIn e r q)"
| built_GroupBy: "built scopes q \<Longrightarrow> list_all plain es \<Longrightarrow> built scopes (GroupBy es q)"
| built_Having: "built scopes q \<Longrightarrow> plain e \<Longrightarrow> built scopes (Having e q)"
| built_OrderBy: "built scopes q \<Longrightarrow> list_all plain es \<Longrightarrow> built scopes (OrderBy es q)"
| built_LimitBy: "built scopes q \<Longrightarrow> list_all plain es \<Longrightarrow> built scopes (LimitBy n es q)"
| built_Limit: "built scopes q \<Longrightarrow> built scopes (Limit n q)"
| built_Offset: "built scopes q \<Longrightarrow> built scopes (Offset n q)"
| built_Param: "built scopes q \<Longrightarrow> built scopes (Param name v q)"

definition scopes_ok :: "scope list \<Rightarrow> bool" where
  "scopes_ok scopes \<longleftrightarrow> distinct (map sc_id scopes) \<and> list_all (\<lambda>s. plain (sc_database s)) scopes"

text \<open>An update of the core keeps the invariant when it keeps the scope and the error does not vanish.\<close>

lemma safe_upd:
  assumes "safe q" and "core_ok (f (q_core q)) (length (q_subs q))"
    and "q_scope (f (q_core q)) = q_scope (q_core q)" "q_err (f (q_core q)) = None \<Longrightarrow> q_err (q_core q) = None"
  shows "safe (upd f q)"
  using assms by (cases q) (auto simp: upd_def split: option.splits)

lemma safe_core: "safe q \<Longrightarrow> core_ok (q_core q) (length (q_subs q))"
  by (cases q) simp

lemma core_ok_err [simp]: "core_ok (c\<lparr>q_err := e\<rparr>) n = core_ok c n"
  by (simp add: core_ok_def)

lemma safe_fail: "safe q \<Longrightarrow> safe (fail e q)"
  unfolding fail_def by (rule safe_upd) (auto dest: safe_core split: if_splits)

lemma find_None_all: "find P xs = None \<longleftrightarrow> list_all (\<lambda>x. \<not> P x) xs"
  by (induction xs) auto

lemma safe_checked:
  assumes "safe q" and "list_all plain frags"
    and "list_all fragment frags \<Longrightarrow> core_ok (f (q_core q)) (length (q_subs q))"
    and "q_scope (f (q_core q)) = q_scope (q_core q)" "q_err (f (q_core q)) = q_err (q_core q)"
  shows "safe (add_checked frags f q)"
proof (cases "find forbidden frags")
  case None
  then have "list_all fragment frags" using assms(2) by (simp add: find_None_all fragment_def list_all_iff)
  then show ?thesis using None assms by (auto simp: add_checked_def intro: safe_upd)
next
  case (Some a)
  then show ?thesis using assms(1) by (simp add: add_checked_def safe_fail)
qed

lemma scope_upd: "q_scope (f (q_core q)) = q_scope (q_core q) \<Longrightarrow> q_scope (q_core (upd f q)) = q_scope (q_core q)"
  by (simp add: upd_def)

lemma scope_fail [simp]: "q_scope (q_core (fail e q)) = q_scope (q_core q)"
  by (simp add: fail_def upd_def)

lemma scope_checked:
  "q_scope (f (q_core q)) = q_scope (q_core q) \<Longrightarrow> q_scope (q_core (add_checked fs f q)) = q_scope (q_core q)"
  by (simp add: add_checked_def upd_def split: option.split)

lemma scope_methods [simp]:
  "q_scope (q_core (Columns cols q)) = q_scope (q_core q)" "q_scope (q_core (Final q)) = q_scope (q_core q)"
  "q_scope (q_core (Where e q)) = q_scope (q_core q)" "q_scope (q_core (WhereIn e r q)) = q_scope (q_core q)"
  "q_scope (q_core (GroupBy es q)) = q_scope (q_core q)" "q_scope (q_core (Having e q)) = q_scope (q_core q)"
  "q_scope (q_core (OrderBy es q)) = q_scope (q_core q)" "q_scope (q_core (LimitBy n es q)) = q_scope (q_core q)"
  "q_scope (q_core (Limit n q)) = q_scope (q_core q)" "q_scope (q_core (Offset n q)) = q_scope (q_core q)"
  "q_scope (q_core (Param name v q)) = q_scope (q_core q)"
  by (auto simp: Columns_def Final_def Where_def WhereIn_def GroupBy_def Having_def OrderBy_def LimitBy_def Limit_def
      Offset_def Param_def scope_upd scope_checked upd_def Let_def split: option.split)

lemma fragments_clean: "list_all fragment xs \<Longrightarrow> list_all clean xs"
  by (auto simp: list_all_iff intro: clean_fragment)

lemma limit_by_clean:
  assumes "list_all fragment es"
  shows "clean (show_int n @ '' BY '' @ join_with '', '' es)"
  by (intro clean_append clean_number clean_join fragments_clean assms separator_clean)

lemma safe_Param:
  assumes "safe q"
  shows "safe (Param name v q)"
proof -
  have upd_ok: "safe (upd (\<lambda>c. c\<lparr>q_params := AList.update name t (q_params c)\<rparr>) r)"
    if "safe r" "name \<noteq> ''tenant_id''" for r t
    using that safe_core [OF that(1)] by (intro safe_upd) (auto simp: core_ok_def update_conv')
  show ?thesis using assms by (auto simp: Param_def Let_def intro: upd_ok safe_fail split: option.split)
qed

lemma safe_WhereIn:
  assumes "safe q" "safe r" "plain e" and "sc_id (q_scope (q_core r)) = sc_id (q_scope (q_core q)) \<Longrightarrow>
    q_scope (q_core r) = q_scope (q_core q)"
  shows "safe (WhereIn e r q)"
  using assms safe_core [OF assms(1)]
  by (cases q) (auto simp: WhereIn_def safe_fail core_ok_def fragment_def intro: where_in [simplified] split: option.splits)

lemma safe_FromSub:
  assumes "safe r" and "plain (sc_database s)"
    and "sc_id (q_scope (q_core r)) = sc_id s \<Longrightarrow> q_scope (q_core r) = s"
  shows "safe (FromSub s r)"
  using assms
  by (auto simp: FromSub_def empty_core_def core_ok_def Let_def fail_def upd_def intro: where_Nil clean_Nil)

lemma built_ok:
  assumes "scopes_ok scopes" and "built scopes q"
  shows "safe q \<and> q_scope (q_core q) \<in> set scopes"
  using assms(2)
proof (induction rule: built.induct)
  case (built_From s t)
  then show ?case
    using assms(1)
    by (auto simp: From_def empty_core_def core_ok_def scopes_ok_def list_all_iff intro: where_Nil clean_Nil)
next
  case (built_FromSub s q)
  then have "sc_id (q_scope (q_core q)) = sc_id s \<Longrightarrow> q_scope (q_core q) = s"
    using assms(1) by (auto simp: scopes_ok_def distinct_map inj_on_def)
  then show ?case
    using built_FromSub assms(1) safe_FromSub [of q s]
    by (auto simp: FromSub_def empty_core_def Let_def scopes_ok_def list_all_iff)
next
  case (built_WhereIn q r e)
  then have "sc_id (q_scope (q_core r)) = sc_id (q_scope (q_core q)) \<Longrightarrow> q_scope (q_core r) = q_scope (q_core q)"
    using assms(1) by (auto simp: scopes_ok_def distinct_map inj_on_def)
  then show ?case using built_WhereIn by (auto intro: safe_WhereIn)
next
  case (built_Columns q cols)
  then show ?case
    using safe_core [of q] by (auto simp: Columns_def core_ok_def scope_checked intro!: safe_checked)
next
  case (built_Final q)
  have "safe (upd (\<lambda>c. c\<lparr>q_final := True\<rparr>) r)" if "safe r" for r
    using that safe_core [OF that] by (intro safe_upd) (auto simp: core_ok_def)
  then show ?case using built_Final by (auto simp: Final_def scope_upd safe_fail)
next
  case (built_Where q e)
  then show ?case
    using safe_core [of q] by (auto simp: Where_def core_ok_def scope_checked intro!: safe_checked where_cond)
next
  case (built_GroupBy q es)
  then show ?case
    using safe_core [of q] by (auto simp: GroupBy_def core_ok_def scope_checked intro!: safe_checked)
next
  case (built_Having q e)
  then show ?case
    using safe_core [of q] by (auto simp: Having_def core_ok_def scope_checked intro!: safe_checked)
next
  case (built_OrderBy q es)
  then show ?case
    using safe_core [of q] by (auto simp: OrderBy_def core_ok_def scope_checked intro!: safe_checked)
next
  case (built_LimitBy q es n)
  then show ?case
    using safe_core [of q] limit_by_clean [of es n]
    by (auto simp: LimitBy_def core_ok_def scope_checked intro!: safe_checked)
next
  case (built_Limit q n)
  then show ?case using safe_core [of q] by (auto simp: Limit_def core_ok_def scope_upd intro!: safe_upd)
next
  case (built_Offset q n)
  then show ?case using safe_core [of q] by (auto simp: Offset_def core_ok_def scope_upd intro!: safe_upd)
next
  case (built_Param q name v)
  then show ?case by (simp add: safe_Param)
qed

section \<open>Rendering\<close>

text \<open>Texts with the markers \<open>i\<close>, \<open>Suc i\<close>, ... between them.\<close>

fun weave :: "nat \<Rightarrow> string list \<Rightarrow> string" where
  "weave i [] = []"
| "weave i [p] = p"
| "weave i (p # ps) = p @ sub_marker i @ weave (Suc i) ps"

lemma weave_Cons: "ps \<noteq> [] \<Longrightarrow> weave i (p # ps) = p @ sub_marker i @ weave (Suc i) ps"
  by (cases ps) auto

lemma weave_snoc: "weave i (ps @ [p, r]) = weave i (ps @ [p]) @ sub_marker (i + length ps) @ r"
  by (induction ps arbitrary: i) (simp_all add: weave_Cons)

lemma weave_last: "weave i (ps @ [p @ r]) = weave i (ps @ [p]) @ r"
  by (induction ps arbitrary: i) (simp_all add: weave_Cons)

lemma replace_marker: "plain p \<Longrightarrow> replace_first (p @ sub_marker i @ s) (sub_marker i) new = p @ new @ s"
proof -
  assume "plain p"
  then have "index_str (p @ sub_marker i @ s) (sub_marker i) = Some (length p)"
    by (induction p) (simp_all add: sub_marker_def has_prefix_def)
  then show ?thesis by (simp add: replace_first_def)
qed

lemma join_snoc: "join_with sep (xs @ [x]) = (if xs = [] then x else join_with sep xs @ sep @ x)"
  by (induction sep xs rule: join_with.induct) auto

text \<open>The conditions of a select are clean texts with the markers of its sub-selects between them.\<close>

abbreviation cond_text :: "string list \<Rightarrow> string" where
  "cond_text ws \<equiv> join_with '' AND '' (map parens ws)"

lemma parens_clean: "clean w \<Longrightarrow> clean (parens w)"
  by (simp only: parens_def) (intro clean_append separator_clean)

lemma where_weave:
  assumes "where_ok ws n"
  shows "\<exists>ps p. (if ws = [] then [] else cond_text ws) = weave 0 (ps @ [p]) \<and> length ps = n \<and> list_all clean (ps @ [p])"
  using assms
proof (induction rule: where_ok.induct)
  case where_Nil
  show ?case by (rule exI [of _ "[]"]) (auto intro: clean_Nil)
next
  case (where_cond ws n w)
  then obtain ps p where IH: "(if ws = [] then [] else cond_text ws) = weave 0 (ps @ [p])" "length ps = n"
    "list_all clean (ps @ [p])" by blast
  define a where "a = (if ws = [] then [] else '' AND '') @ parens w"
  have "clean a"
    unfolding a_def using clean_fragment [OF where_cond(2)]
    by (cases "ws = []") (auto intro!: clean_append clean_Nil parens_clean simp del: append.simps)
  moreover have "cond_text (ws @ [w]) = weave 0 (ps @ [p @ a])"
    using IH(1) by (simp add: weave_last join_snoc a_def split: if_splits)
  ultimately show ?case using IH(2,3) by (intro exI [of _ ps] exI [of _ "p @ a"]) (auto intro: clean_append)
next
  case (where_in ws n e)
  then obtain ps p where IH: "(if ws = [] then [] else cond_text ws) = weave 0 (ps @ [p])" "length ps = n"
    "list_all clean (ps @ [p])" by blast
  define a where "a = (if ws = [] then [] else '' AND '') @ ''('' @ e @ '' GLOBAL IN (''"
  have "clean a" "clean ('')'' @ '')'')"
    unfolding a_def using clean_fragment [OF where_in(2)]
    by (cases "ws = []") (auto intro!: clean_append clean_Nil simp del: append.simps)
  moreover have "cond_text (ws @ [e @ '' GLOBAL IN ('' @ sub_marker n @ '')'']) = weave 0 ((ps @ [p @ a]) @ ['')'' @ '')''])"
    using IH(1,2) by (simp add: weave_snoc weave_last join_snoc a_def parens_def split: if_splits)
  ultimately show ?case
    using IH(2,3) by (intro exI [of _ "ps @ [p @ a]"] exI [of _ "'')'' @ '')''"]) (auto intro: clean_append)
qed

lemma mixed_plain: "plain database \<Longrightarrow> (filtered database s \<longrightarrow> plain s) \<and> (mixed database t \<longrightarrow> plain t)"
proof (rule filtered_mixed.induct)
  assume "plain database"
  then have "plain (quoteIdent database)" by (auto simp: quoteIdent_def plain_def)
  then show "plain (''SELECT '' @ cols @ '' FROM '' @ table_source database t final @
      '' WHERE (tenant_id = {tenant_id:String})'' @ rest)" if "clean cols" "plain (table_name t)" "plain rest" for cols t rest final
    using that by (simp add: table_source_def clean_plain)
qed (auto simp: clean_plain)

lemma render_subs_mixed:
  assumes "plain database" "plain a"
    and "\<And>s ps sql ps'. s \<in> set subs \<Longrightarrow> render s ps = Inr (sql, ps') \<Longrightarrow> filtered database sql"
    and "length ps = Suc (length subs)" "list_all (mixed database) ps"
    and "render_subs i subs (a @ weave i ps) params = Inr (joined, params')"
  shows "\<exists>r. joined = a @ r \<and> mixed database r"
  using assms(3-)
proof (induction subs arbitrary: i ps params)
  case Nil
  then show ?case by (cases ps) auto
next
  case (Cons s ss)
  from Cons.prems(2) obtain p p' qs where ps: "ps = p # p' # qs" "length qs = length ss"
    by (cases ps; cases "tl ps") auto
  from Cons.prems(4) obtain inner params1 where r: "render s params = Inr (inner, params1)"
    "render_subs (Suc i) ss (replace_first (a @ weave i ps) (sub_marker i) inner) params1 = Inr (joined, params')"
    by (auto split: sum.splits)
  have inner: "mixed database inner" by (rule mixed_statement) (use Cons.prems(1) [OF _ r(1)] in simp)
  have "plain (a @ p)" using assms(2) mixed_plain [OF assms(1), of _ p] Cons.prems(3) ps(1) by simp
  then have "replace_first (a @ weave i ps) (sub_marker i) inner = a @ weave (Suc i) ((p @ inner @ p') # qs)"
    using replace_marker [of "a @ p" i "weave (Suc i) (p' # qs)" inner] ps(1)
    by (cases qs) (simp_all add: weave_Cons)
  then have step: "render_subs (Suc i) ss (a @ weave (Suc i) ((p @ inner @ p') # qs)) params1 = Inr (joined, params')"
    using r(2) by simp
  show ?case
    by (rule Cons.IH [OF _ _ _ step]) (use Cons.prems ps inner in \<open>auto intro: mixed_append\<close>)
qed

lemma tail_clean:
  assumes "core_ok c n"
  shows "clean (render_tail c)"
proof -
  have "clean (opt_clause kw sep xs)" if "list_all fragment xs" "clean kw" "clean sep" for kw sep xs
    using that by (auto simp: opt_clause_def intro: clean_Nil clean_append clean_join fragments_clean)
  then show ?thesis
    using assms unfolding render_tail_def core_ok_def
    by (intro clean_append) (auto intro!: clean_append clean_number clean_Nil simp del: append.simps)
qed

lemma render_filtered:
  "safe q \<Longrightarrow> render q params = Inr (sql, params') \<Longrightarrow> filtered (sc_database (q_scope (q_core q))) sql"
proof (induction q arbitrary: params sql params')
  case (Select c sub subs)
  let ?db = "sc_database (q_scope c)"
  have core: "core_ok c (length subs)" "plain ?db" using Select.prems(1) by (auto simp: core_ok_def)
  have cols: "clean (join_with '', '' (q_cols c))"
    using core(1) by (intro clean_join fragments_clean separator_clean) (simp add: core_ok_def)
  note tail = mixed_clean [OF tail_clean [OF core(1)]]
  have subs: "filtered ?db s'" if "s \<in> set subs" "render s ps = Inr (s', ps')" for s ps s' ps'
    using Select.IH(2) [OF that(1) _ that(2)] Select.prems(1) that(1) by auto
  obtain ps p where w: "(if q_where c = [] then [] else cond_text (q_where c)) = weave 0 (ps @ [p])"
    "length ps = length subs" "list_all clean (ps @ [p])"
    using where_weave core(1) by (metis core_ok_def)
  have mixed_pieces: "list_all (mixed ?db) (ps @ [p])" "length (ps @ [p]) = Suc (length subs)"
    using w by (auto simp: list_all_iff intro: mixed_clean)
  have weave_mixed: "\<exists>r. joined = a @ r \<and> mixed ?db r"
    if "plain a" "render_subs 0 subs (a @ weave 0 (ps @ [p])) ps0 = Inr (joined, ps1)" for a ps0 joined ps1
    by (rule render_subs_mixed [OF core(2) that(1) subs mixed_pieces(2,1) that(2)])
  from Select.prems(2) obtain src conds ps1 ps0 where r: "q_err c = None" "render_source c sub ps0 = Inr (src, conds, ps1)"
    "(if conds = [] then Inr ((''SELECT '' @ join_with '', '' (q_cols c) @ '' FROM '' @ src) @ render_tail c, ps1)
      else case render_subs 0 subs (cond_text conds) ps1 of
         Inl e \<Rightarrow> Inl e
       | Inr (joined, ps2) \<Rightarrow>
           Inr ((''SELECT '' @ join_with '', '' (q_cols c) @ '' FROM '' @ src) @ '' WHERE '' @ joined @ render_tail c, ps2)) =
     (Inr (sql, params') :: query_error + _)"
    by (auto simp: Let_def split: option.splits sum.splits prod.splits if_splits)
  show ?case
  proof (cases sub)
    case None
    then have src: "src = table_source ?db (q_table c) (q_final c)" "conds = tenant_predicate # q_where c"
      using r(2) by (auto simp: table_source_def split: if_splits)
    define a where "a = parens tenant_predicate @ (if q_where c = [] then [] else '' AND '')"
    have "plain a" by (simp add: a_def parens_def tenant_predicate_def)
    moreover have "cond_text conds = a @ weave 0 (ps @ [p])"
      using w(1) unfolding src by (cases "q_where c") (auto simp: a_def join_with_Cons)
    ultimately obtain j where j: "sql = (''SELECT '' @ join_with '', '' (q_cols c) @ '' FROM '' @ src) @ '' WHERE '' @
        (a @ j) @ render_tail c" "mixed ?db j"
      using r(3) weave_mixed [of a] src(2) by (fastforce split: sum.splits)
    have "clean (if q_where c = [] then [] else '' AND '')" by (simp add: clean_Nil)
    then have "mixed ?db ((if q_where c = [] then [] else '' AND '') @ j @ render_tail c)"
      by (intro mixed_append mixed_clean [of "if _ then _ else _"] j(2) tail)
    then have "filtered ?db (''SELECT '' @ join_with '', '' (q_cols c) @ '' FROM '' @ src @
        '' WHERE (tenant_id = {tenant_id:String})'' @ ((if q_where c = [] then [] else '' AND '') @ j @ render_tail c))"
      unfolding src(1) using core(1) by (intro filtered_table cols) (simp_all add: core_ok_def)
    then show ?thesis by (simp add: j(1) a_def parens_def tenant_predicate_def)
  next
    case (Some s)
    then obtain inner where inner: "src = parens inner" "conds = q_where c" "render s ps0 = Inr (inner, ps1)"
      using r(2) by (auto split: sum.splits)
    have "filtered ?db inner" using Select.IH(1) [of s] inner(3) Some Select.prems(1) r(1) by auto
    moreover have "\<exists>rest. sql = ''SELECT '' @ join_with '', '' (q_cols c) @ '' FROM ('' @ inner @ '')'' @ rest \<and> mixed ?db rest"
    proof (cases "conds = []")
      case True
      then show ?thesis using r(3) inner(1) tail by (auto simp: parens_def)
    next
      case False
      then have "cond_text conds = [] @ weave 0 (ps @ [p])" using w(1) inner(2) by simp
      then obtain j where j: "sql = (''SELECT '' @ join_with '', '' (q_cols c) @ '' FROM '' @ src) @ '' WHERE '' @
          j @ render_tail c" "mixed ?db j"
        using r(3) weave_mixed [of "[]"] False by (fastforce split: sum.splits)
      have "mixed ?db ('' WHERE '' @ j @ render_tail c)"
        by (intro mixed_append mixed_clean [OF separator_clean(11)] j(2) tail)
      then show ?thesis using j(1) inner(1) by (auto simp: parens_def)
    qed
    ultimately show ?thesis using filtered_sub [OF cols] by auto
  qed
qed

section \<open>Tenant isolation\<close>

text \<open>
  C25: Whatever sequence of builder calls produced a select, no fragment it keeps matches the filter, the
  parameter \<^verbatim>\<open>tenant_id\<close> is not among its parameters, and, as long as no call failed, its nested selects
  belong to the same scope.
\<close>

theorem builder_invariant:
  assumes "scopes_ok scopes" and "built scopes q"
  shows "safe q"
  using built_ok [OF assms] by simp

definition demo_scope :: scope where
  "demo_scope = \<lparr>sc_id = 0, sc_database = ''db'', sc_tenant = ''acme''\<rparr>"

definition demo_select :: select where
  "demo_select = Limit 5 (Columns [''n''] (WhereIn ''x'' (Columns [''x''] (From demo_scope Logs)) (From demo_scope Hosts)))"

lemma demo_built: "scopes_ok [demo_scope]" "built [demo_scope] demo_select"
proof -
  show "scopes_ok [demo_scope]" by (simp add: scopes_ok_def demo_scope_def)
  show "built [demo_scope] demo_select"
    unfolding demo_select_def by (intro built.intros) (simp_all add: Logs_def Hosts_def)
qed

lemma demo_fragments: "\<not> forbidden ''n''" "\<not> forbidden ''x''"
  by (simp_all add: forbidden_eval)

lemma demo_build: "\<not> isl (Build demo_select)"
  by (simp add: demo_select_def demo_fragments Build_def Limit_def Columns_def WhereIn_def From_def add_checked_def upd_def
      empty_core_def Hosts_def Logs_def)

theorem builder_invariant_witness: "safe demo_select \<and> \<not> isl (Build demo_select)"
  using builder_invariant [OF demo_built] demo_build by simp

lemma Build_ok:
  assumes "scopes_ok scopes" and "built scopes q" and "Build q = Inr (sql, params)"
  shows "filtered (sc_database (q_scope (q_core q))) sql \<and>
    map_of params ''tenant_id'' = Some (sc_tenant (q_scope (q_core q)))"
proof -
  from assms(3) obtain ps where "render q [] = Inr (sql, ps)"
    "params = AList.update ''tenant_id'' (sc_tenant (q_scope (q_core q))) ps"
    by (auto simp: Build_def split: sum.splits)
  then show ?thesis using render_filtered built_ok [OF assms(1,2)] by (auto simp: update_conv')
qed



end
