(* ===== verification/OqlTranslateCorrect.thy ===== *)
theory OqlTranslateCorrect
  imports OqlTranslate OqlCompileCorrect QuerySelectCorrect
begin

text \<open>
  The translator (\<^verbatim>\<open>internal/oql/translate.go\<close>) on compiled plans: it does not panic, and every fragment it
  hands to the statement builder is a concatenation of fixed SQL, expressions of the attribute
  whitelist, numbers and references to bound parameters of the right type. No text of the query, of a
  map key or of a variable occurs in a statement.
\<close>

section \<open>Fragments\<close>

fun param_type :: "param_value \<Rightarrow> string" where
  "param_type (PString _) = ''String''"
| "param_type (PInt _) = ''Int64''"
| "param_type (PFloat _) = ''Float64''"
| "param_type (PBool _) = ''Bool''"
| "param_type (PStrings _) = ''Array(String)''"
| "param_type _ = []"

definition fixed_sql :: "string list" where
  "fixed_sql =
     [''0'', ''1'', '' '', ''('', '')'', ''['', '']'', '', '', ''='', ''!='', ''<'', ''<='', ''>'', ''>='',
      ''toFloat64OrNull('', ''toFloat64('', ''positionCaseInsensitiveUTF8('', '') > 0'', ''NOT ('', ''NOT '', ''mapContains('',
      ''empty('', ''notEmpty('', ''has('', '' OR '', '' LIKE '', '') AND ('', '') OR ('', ''If'', '') * '', ''sum'', ''avg'', ''min'', ''max'',
      ''uniqExact'', ''quantile'', ''argMin'', ''argMax'', ''count()'', ''countIf('', ''sumIf(value_count, '',
      ''mapContains(attributes, '', ''value_count'', ''value_sum'', ''value_min'', ''value_max'', '' / '',
      ''argMaxMerge(value_last)'', ''toString('', ''CAST('', '' AS Nullable(Float64))'', '' AS a'', '' AS '', ''f'',
      '' >= fromUnixTimestamp64Nano('', '') AND '', '' < fromUnixTimestamp64Nano('', ''toInt64(assumeNotNull(floor('', ''))) AS hb'',
      '' >= 0 AND '', '' < '', ''CAST(count() AS Nullable(Float64)) AS a0'', ''hb'', ''a0 DESC'', '' DESC'',
      ''toInt64(toUnixTimestamp(timestamp)) * 1000'', ''toUnixTimestamp64Milli('', ''toInt64(intDiv('',
      '') * '', '') AS bk'', ''bk'', ''toInt64(toUnixTimestamp(timestamp)) * 1000000000'', ''toUnixTimestamp64Nano('', '' - '',
      ''arrayJoin(range(toUInt64(intDiv('', '') + 1), toUInt64(intDiv('', '' + '', '') + 1))) AS ei'', ''ei'']"

definition whitelist :: "eventType \<Rightarrow> string set" where
  "whitelist et =
     {et_timeCol et, et_attrMap et, et_resource et} \<union> set (et_base et) \<union> ad_sql ` set (et_attrs et) \<union> ad_rollup ` set (et_attrs et)"

definition number_text :: "string \<Rightarrow> bool" where
  "number_text s \<longleftrightarrow> list_all (\<lambda>c. is_digit c \<or> c = CHR ''.'') s"

inductive sql_text :: "eventType \<Rightarrow> (string \<times> param_value) list \<Rightarrow> string \<Rightarrow> bool" for et ps where
  sql_Nil: "sql_text et ps []"
| sql_fixed: "s \<in> set fixed_sql \<Longrightarrow> sql_text et ps s"
| sql_white: "s \<in> whitelist et \<Longrightarrow> sql_text et ps s"
| sql_number: "number_text s \<Longrightarrow> sql_text et ps s"
| sql_param: "map_of ps name = Some v \<Longrightarrow> sql_text et ps (param_ref name (param_type v))"
| sql_append: "sql_text et ps a \<Longrightarrow> sql_text et ps b \<Longrightarrow> sql_text et ps (a @ b)"

lemma sql_mono: "sql_text et ps s \<Longrightarrow> map_of ps \<subseteq>\<^sub>m map_of ps' \<Longrightarrow> sql_text et ps' s"
  by (induction rule: sql_text.induct) (auto intro: sql_text.intros simp: map_le_def dom_def)

lemma sql_join: "list_all (sql_text et ps) xs \<Longrightarrow> sql_text et ps sep \<Longrightarrow> sql_text et ps (join_with sep xs)"
  by (induction sep xs rule: join_with.induct) (auto intro: sql_text.intros)

lemma fixed_all: "list_all (sql_text et ps) fixed_sql"
  by (auto simp: list_all_iff intro: sql_fixed)

lemmas fixed_lits [simp] = fixed_all [unfolded fixed_sql_def list.pred_inject]

section \<open>Weakest preconditions of the builder\<close>

definition bwp :: "'a bld \<Rightarrow> ('a \<Rightarrow> bstate \<Rightarrow> bool) \<Rightarrow> bstate \<Rightarrow> bool" where
  "bwp f Q s = (case f s of None \<Rightarrow> False | Some (x, s') \<Rightarrow> Q x s')"

named_theorems bwp_simp \<open>weakest preconditions of the builder's combinators\<close>

lemma bwp_ret [bwp_simp]: "bwp (b_ret x) Q s = Q x s"
  by (simp add: bwp_def b_ret_def)

lemma bwp_bind [bwp_simp]: "bwp (b_bind f g) Q s = bwp f (\<lambda>x. bwp (g x) Q) s"
  by (auto simp: bwp_def b_bind_def split: option.split)

lemma bwp_need [bwp_simp]: "bwp (b_need x f) Q s = (\<exists>y. x = Some y \<and> bwp (f y) Q s)"
  by (auto simp: bwp_def b_need_def b_panic_def split: option.split)

lemma b_need_Some [simp]: "b_need (Some y) f = f y"
  by (simp add: b_need_def)

lemma bwp_mono: "bwp f Q s \<Longrightarrow> (\<And>x s'. Q x s' \<Longrightarrow> R x s') \<Longrightarrow> bwp f R s"
  by (auto simp: bwp_def split: option.splits)

text \<open>The parameters of a state: the reserved names \<open>K\<close> and one name per value counted.\<close>

definition st_ok :: "string set \<Rightarrow> bstate \<Rightarrow> bool" where
  "st_ok K s \<longleftrightarrow>
     dom (map_of (bs_params s)) = K \<union> param_name ` {..<bs_n s} \<and> distinct (map fst (bs_params s)) \<and>
     list_all (\<lambda>(_, v). param_type v \<noteq> []) (bs_params s)"

lemma all_update: "list_all P xs \<Longrightarrow> P (k, v) \<Longrightarrow> list_all P (AList.update k v xs)"
  by (induction xs) auto

definition reserved_names :: "string set" where
  "reserved_names = {''t_from'', ''t_to'', ''b_ms'', ''w_origin'', ''w_step'', ''w_win''}"

definition ext :: "string set \<Rightarrow> bstate \<Rightarrow> bstate \<Rightarrow> bool" where
  "ext K s s' \<longleftrightarrow> st_ok K s' \<and> map_of (bs_params s) \<subseteq>\<^sub>m map_of (bs_params s')"

lemma ext_refl: "st_ok K s \<Longrightarrow> ext K s s"
  by (simp add: ext_def)

lemma ext_trans: "ext K s t \<Longrightarrow> ext K t u \<Longrightarrow> ext K s u"
  by (auto simp: ext_def intro: map_le_trans)

lemma ext_ok: "ext K s t \<Longrightarrow> st_ok K t"
  by (simp add: ext_def)

lemma ext_sql: "ext K s t \<Longrightarrow> sql_text et (bs_params s) x \<Longrightarrow> sql_text et (bs_params t) x"
  by (auto simp: ext_def intro: sql_mono)

lemma param_name_inj: "param_name i = param_name j \<longleftrightarrow> i = j"
  using digits_val_show_nat by (metis append_Cons append_Nil list.inject param_name_def)

lemma param_name_not_reserved: "K \<subseteq> reserved_names \<Longrightarrow> param_name i \<notin> K"
proof -
  have "param_name i \<notin> reserved_names" by (simp add: reserved_names_def param_name_def)
  then show "K \<subseteq> reserved_names \<Longrightarrow> param_name i \<notin> K" by blast
qed

text \<open>Every renderer keeps the state and yields a fragment over the bound parameters.\<close>

definition renders :: "eventType \<Rightarrow> string set \<Rightarrow> bstate \<Rightarrow> string \<Rightarrow> bstate \<Rightarrow> bool" where
  "renders et K s x s' \<longleftrightarrow> sql_text et (bs_params s') x \<and> ext K s s'"

lemma bwp_param:
  assumes "K \<subseteq> reserved_names" "st_ok K s" "param_type v \<noteq> []"
  shows "bwp (param v (param_type v)) (renders et K s) s"
proof -
  let ?n = "param_name (bs_n s)"
  have "?n \<notin> dom (map_of (bs_params s))"
    using assms(2) param_name_not_reserved [OF assms(1)] by (auto simp: st_ok_def param_name_inj)
  then have "map_of (bs_params s) ?n = None" by (simp add: domIff)
  then show ?thesis
    using assms(2,3)
    by (auto simp: bwp_def param_def Let_def renders_def ext_def st_ok_def update_conv' map_le_def lessThan_Suc
        distinct_update intro!: sql_param all_update)
qed

section \<open>Attributes\<close>

text \<open>A builder for event type \<open>et\<close>.\<close>

abbreviation bev :: "builder \<Rightarrow> eventType" where
  "bev b \<equiv> pl_event (bd_plan b)"

lemma white_sql [simp]:
  "sql_text et ps (et_timeCol et)" "sql_text et ps (et_attrMap et)" "sql_text et ps (et_resource et)"
  by (auto simp: whitelist_def intro: sql_white)

lemma map_column_sql [simp]: "sql_text (bev b) ps (mapColumn b kind)"
  by (simp add: mapColumn_def)

lemma def_sql: "d \<in> set (et_attrs et) \<Longrightarrow> sql_text et ps (ad_sql d)" "d \<in> set (et_attrs et) \<Longrightarrow> sql_text et ps (ad_rollup d)"
  by (auto simp: whitelist_def intro: sql_white)

lemma bwp_attr:
  assumes K: "K \<subseteq> reserved_names" and s: "st_ok K s" and a: "at_res a = Some r" "res_ok (bev b) r"
  shows "bwp (attr_sql b a) (renders (bev b) K s) s"
proof (cases "r_def r")
  case None
  have "renders (bev b) K s (mapColumn b (r_mapKind r) @ ''['' @ p @ '']'') t" if "renders (bev b) K s p t" for p t
    using that unfolding renders_def by (intro conjI sql_append) simp_all
  then show ?thesis
    using None a bwp_mono [OF bwp_param [OF K s, of "PString (r_key r)" "bev b"]]
    by (simp add: attr_sql_def bwp_simp)
next
  case (Some d)
  then show ?thesis
    using a s def_sql [of d "bev b"] by (auto simp: attr_sql_def bwp_simp renders_def res_ok_def ext_refl)
qed

text \<open>Rules for the two ways the renderers go on: with another renderer, or with the finished text.\<close>

lemma renders_from: "ext K s t \<Longrightarrow> bwp f (renders et K t) t \<Longrightarrow> bwp f (renders et K s) t"
  by (erule bwp_mono) (auto simp: renders_def intro: ext_trans)

lemma bwp_step:
  assumes "bwp f (renders et K s) s"
    and "\<And>x t. ext K s t \<Longrightarrow> sql_text et (bs_params t) x \<Longrightarrow> bwp (g x) (renders et K t) t"
  shows "bwp (b_bind f g) (renders et K s) s"
  unfolding bwp_bind
proof (rule bwp_mono [OF assms(1)])
  fix x t assume "renders et K s x t"
  then have t: "ext K s t" "sql_text et (bs_params t) x" by (auto simp: renders_def)
  show "bwp (g x) (renders et K s) t"
    by (rule renders_from [OF t(1) assms(2) [OF t]])
qed

lemma bwp_done: "st_ok K s \<Longrightarrow> sql_text et (bs_params s) y \<Longrightarrow> bwp (b_ret y) (renders et K s) s"
  by (simp add: bwp_ret renders_def ext_refl)

lemma bwp_map:
  assumes "bwp f (renders et K s) s" and "\<And>x t. ext K s t \<Longrightarrow> sql_text et (bs_params t) x \<Longrightarrow> sql_text et (bs_params t) (g x)"
  shows "bwp (b_bind f (\<lambda>x. b_ret (g x))) (renders et K s) s"
  using assms by (auto intro!: bwp_step bwp_done ext_ok)

lemma bwp_num:
  assumes K: "K \<subseteq> reserved_names" and s: "st_ok K s" and a: "at_res a = Some r" "res_ok (bev b) r"
  shows "bwp (num_sql b a) (renders (bev b) K s) s"
  using a bwp_attr [OF assms] unfolding num_sql_def bwp_need
  by (auto simp del: append.simps intro!: bwp_map sql_append)

section \<open>Conditions\<close>

text \<open>Expanding variables only touches the error; a predicate with values keeps at least one.\<close>

definition same_params :: "bstate \<Rightarrow> bstate \<Rightarrow> bool" where
  "same_params s t \<longleftrightarrow> bs_params t = bs_params s \<and> bs_n t = bs_n s"

lemma same_ext: "st_ok K s \<Longrightarrow> same_params s t \<Longrightarrow> ext K s t"
  by (simp add: same_params_def ext_def st_ok_def)

lemma bwp_b_fail: "bwp (b_fail e) (\<lambda>_ t. same_params s t) s"
  by (simp add: bwp_def b_fail_def same_params_def)

lemma same_trans: "same_params s t \<Longrightarrow> same_params t u \<Longrightarrow> same_params s u"
  by (simp add: same_params_def)

lemma bwp_fail_then: "(\<And>t. same_params s t \<Longrightarrow> Q x t) \<Longrightarrow> bwp (b_bind (b_fail e) (\<lambda>_. b_ret x)) Q s"
  unfolding bwp_bind by (rule bwp_mono [OF bwp_b_fail]) (simp add: bwp_ret)

lemma bwp_var_values: "bwp (var_values a op sp r v ss) (\<lambda>out t. same_params s t \<and>
    (\<forall>ws. out = Some ws \<longrightarrow> length ws = length ss)) s"
proof (induction ss arbitrary: s)
  case Nil
  then show ?case by (simp add: bwp_ret same_params_def)
next
  case (Cons x ss)
  have IH: "bwp (b_bind (var_values a op sp r v ss) (\<lambda>out. b_ret (map_option ((#) y) out)))
      (\<lambda>out t. same_params s t \<and> (\<forall>ws. out = Some ws \<longrightarrow> length ws = length (x # ss))) s" for y
    unfolding bwp_bind by (rule bwp_mono [OF Cons]) (auto simp: bwp_ret)
  then show ?case
    by (auto simp: bwp_ret same_params_def intro!: bwp_fail_then split: option.split)
qed

lemma bwp_expand_values: "bwp (expand_values b a op sp r vs) (\<lambda>out t. same_params s t \<and>
    (\<forall>ws. out = Some ws \<longrightarrow> vs \<noteq> [] \<longrightarrow> ws \<noteq> [])) s"
proof (induction vs arbitrary: s)
  case Nil
  then show ?case by (simp add: bwp_ret same_params_def)
next
  case (Cons v vs)
  let ?Q = "\<lambda>out t. same_params s t \<and> (\<forall>ws. out = Some ws \<longrightarrow> v # vs \<noteq> [] \<longrightarrow> ws \<noteq> [])"
  have lit: "bwp (b_bind (expand_values b a op sp r vs) (\<lambda>out. b_ret (map_option ((#) v) out))) ?Q s"
    unfolding bwp_bind by (rule bwp_mono [OF Cons]) (auto simp: bwp_ret)
  have var: "bwp (b_bind (var_values a op sp r v (x # xs)) (\<lambda>first. case first of None \<Rightarrow> b_ret None
      | Some ws \<Rightarrow> b_bind (expand_values b a op sp r vs) (\<lambda>out. b_ret (map_option ((@) ws) out)))) ?Q s" for x xs
    unfolding bwp_bind
  proof (rule bwp_mono [OF bwp_var_values])
    fix first :: "oql_value list option" and t assume f: "same_params s t \<and> (\<forall>ws. first = Some ws \<longrightarrow> length ws = length (x # xs))"
    show "bwp (case first of None \<Rightarrow> b_ret None
      | Some ws \<Rightarrow> b_bind (expand_values b a op sp r vs) (\<lambda>out. b_ret (map_option ((@) ws) out))) ?Q t"
    proof (cases first)
      case (Some ws)
      have t: "same_params s t" "ws \<noteq> []" using f Some by auto
      show ?thesis
        unfolding Some option.case bwp_bind
        by (rule bwp_mono [OF Cons [of t]]) (use t in \<open>auto simp: bwp_ret same_params_def\<close>)
    qed (use f in \<open>simp add: bwp_ret\<close>)
  qed
  show ?case
    using lit var by (auto simp: bwp_ret same_params_def split: option.split list.split simp del: var_values.simps)
qed

lemma bwp_b_map:
  assumes f: "\<And>x s. x \<in> set xs \<Longrightarrow> st_ok K s \<Longrightarrow> bwp (f x) (renders et K s) s" and "st_ok K s"
    and Q: "\<And>ys t. ext K s t \<Longrightarrow> list_all (sql_text et (bs_params t)) ys \<Longrightarrow> length ys = length xs \<Longrightarrow> Q ys t"
  shows "bwp (b_map f xs) Q s"
  using assms
proof (induction xs arbitrary: s Q)
  case Nil
  then show ?case by (simp add: bwp_ret ext_refl)
next
  case (Cons x xs)
  have "bwp (f x) (renders et K s) s" using Cons.prems by simp
  then show ?case
    unfolding b_map.simps bwp_bind
  proof (rule bwp_mono)
    fix y t assume "renders et K s y t"
    then have y: "sql_text et (bs_params t) y" "ext K s t" by (auto simp: renders_def)
    show "bwp (b_map f xs) (\<lambda>ys. bwp (b_ret (y # ys)) Q) t"
    proof (rule Cons.IH)
      fix ys u assume u: "ext K t u" "list_all (sql_text et (bs_params u)) ys" "length ys = length xs"
      then show "bwp (b_ret (y # ys)) Q u"
        using Cons.prems(3) [OF ext_trans [OF y(2) u(1)], of "y # ys"] ext_sql [OF u(1) y(1)] by (simp add: bwp_ret)
    qed (use Cons.prems y in \<open>auto intro: ext_ok\<close>)
  qed
qed

text \<open>The comparison operators that reach the text of a statement.\<close>

definition text_op :: "string \<Rightarrow> bool" where
  "text_op op \<longleftrightarrow> op \<in> {''='', ''!='', ''<'', ''<='', ''>'', ''>=''}"

lemma text_op_sql: "text_op op \<Longrightarrow> sql_text et ps op"
  by (auto simp: text_op_def)

lemma bwp_compared:
  assumes "bwp f (renders et K s) s" and "K \<subseteq> reserved_names" and "\<And>ps. sql_text et ps op"
    and g: "\<And>ps y. sql_text et ps y \<Longrightarrow> sql_text et ps (g y)" and v: "param_type v \<noteq> []"
  shows "bwp (b_bind f (\<lambda>x. b_bind (param v (param_type v)) (\<lambda>p. b_ret (g (x @ op @ p))))) (renders et K s) s"
proof (rule bwp_step [OF assms(1)], rule bwp_map [OF bwp_param [OF assms(2) _ v]], erule ext_ok)
  fix x t p u assume "ext K s t" "sql_text et (bs_params t) x" "ext K t u" "sql_text et (bs_params u) p"
  then show "sql_text et (bs_params u) (g (x @ op @ p))"
    using assms(3) ext_sql by (intro g sql_append) auto
qed

lemma bwp_scalar:
  assumes K: "K \<subseteq> reserved_names" and s: "st_ok K s" and a: "at_res a = Some r" "res_ok (bev b) r" and op: "text_op op"
  shows "bwp (scalar b a op v cmp) (renders (bev b) K s) s"
proof -
  have spaced: "sql_text (bev b) ps ('' '' @ op @ '' '')" for ps using text_op_sql [OF op] by (intro sql_append) auto
  have "bwp (b_bind f (\<lambda>x. b_bind (param w (param_type w)) (\<lambda>p. b_ret (x @ '' '' @ op @ '' '' @ p)))) (renders (bev b) K s) s"
    if "bwp f (renders (bev b) K s) s" "param_type w \<noteq> []" for f w
    using bwp_compared [OF that(1) K spaced _ that(2), where g = "\<lambda>y. y"] by simp
  note cmps = this [OF bwp_num [OF K s a], where w = "PFloat _"] this [OF bwp_attr [OF K s a], where w = "PBool _"]
    this [OF bwp_attr [OF K s a], where w = "PString _"]
  show ?thesis by (cases cmp) (simp_all add: scalar_def cmps [simplified])
qed

lemma bwp_null_test:
  assumes K: "K \<subseteq> reserved_names" and s: "st_ok K s" and a: "at_res a = Some r" "res_ok (bev b) r"
  shows "bwp (null_test b a r isNull) (renders (bev b) K s) s"
proof -
  have "sql_text (bev b) ps (if isNull then ''NOT '' @ ''mapContains('' @ mapColumn b (r_mapKind r) @ '', '' @ p @ '')''
      else ''mapContains('' @ mapColumn b (r_mapKind r) @ '', '' @ p @ '')'')" if "sql_text (bev b) ps p" for ps p
    using that by (cases isNull) (simp_all only: if_True if_False, (intro sql_append; simp)+)
  moreover have "sql_text (bev b) ps ((if isNull then ''empty('' else ''notEmpty('') @ x @ '')'')"
    if "sql_text (bev b) ps x" for ps x
    using that by (intro sql_append) auto
  ultimately show ?thesis
    using bwp_param [OF K s, where v = "PString _", simplified] bwp_attr [OF K s a]
    unfolding null_test_def Let_def by (auto intro!: bwp_map bwp_done [OF s] simp del: append.simps)
qed

lemma bwp_in_list:
  assumes K: "K \<subseteq> reserved_names" and s: "st_ok K s" and a: "at_res a = Some r" "res_ok (bev b) r"
  shows "bwp (in_list b a r vals) (renders (bev b) K s) s"
proof -
  have "bwp (b_bind (param (PStrings (map v_str vals)) ''Array(String)'') (\<lambda>p.
      b_bind (attr_sql b a) (\<lambda>x. b_ret (''has('' @ p @ '', '' @ x @ '')'')))) (renders (bev b) K s) s"
  proof (rule bwp_step [OF bwp_param [OF K s, where v = "PStrings _", simplified]], rule bwp_map [OF bwp_attr [OF K _ a]])
    fix x t y u assume "ext K s t" "sql_text (bev b) (bs_params t) x" "ext K t u" "sql_text (bev b) (bs_params u) y"
    then show "sql_text (bev b) (bs_params u) (''has('' @ x @ '', '' @ y @ '')'')"
      using ext_sql by (intro sql_append) auto
  qed (auto intro: ext_ok)
  moreover have "bwp (b_bind (b_map (\<lambda>v. scalar b a ''='' v cmp) vals) (\<lambda>parts. b_ret (join_with '' OR '' parts)))
      (renders (bev b) K s) s" for cmp
    unfolding bwp_bind bwp_ret
    by (rule bwp_b_map [where et = "bev b" and K = K, OF bwp_scalar [OF K _ a] s])
      (auto simp: text_op_def renders_def intro!: sql_join)
  ultimately show ?thesis by (simp add: in_list_def split: attrType.split)
qed

lemma negate_sql: "sql_text et ps c \<Longrightarrow> sql_text et ps (negate neg c)"
  by (auto simp: negate_def simp del: append.simps intro!: sql_append)

lemma contains_sql: "sql_text et ps x \<Longrightarrow> sql_text et ps p \<Longrightarrow> sql_text et ps (ContainsSQL x p)"
  unfolding ContainsSQL_def by (intro sql_append) auto

text \<open>The operators of a predicate after its values are known.\<close>

definition final_op :: "string \<Rightarrow> bool" where
  "final_op op \<longleftrightarrow> op \<in> {''like'', ''not like'', ''contains'', ''not contains'', ''in'', ''not in''} \<or> text_op op"

lemma list_op_cases:
  assumes "list_op op n = Some op'" and "op \<in> set ops" "op \<noteq> ''is null''" "op \<noteq> ''is not null''"
  shows "final_op op'"
  using assms by (auto simp: final_op_def list_op_def ops_def text_op_def split: if_splits)

lemma bwp_compare:
  assumes K: "K \<subseteq> reserved_names" and s: "st_ok K s" and a: "at_res a = Some r" "res_ok (bev b) r" and v: "vals \<noteq> []"
    and op: "final_op op"
  shows "bwp (compare b a r op vals) (renders (bev b) K s) s"
proof -
  obtain w ws where vals: "vals = w # ws" using v by (cases vals) auto
  have like: "bwp (b_bind (attr_sql b a) (\<lambda>x. b_bind (param (PString y) ''String'') (\<lambda>p. b_ret (negate neg (x @ '' LIKE '' @ p)))))
      (renders (bev b) K s) s" for neg y
    using bwp_compared [OF bwp_attr [OF K s a] K, of "'' LIKE ''" "negate neg" "PString y"] negate_sql by simp
  have cont: "bwp (b_bind (attr_sql b a) (\<lambda>x. b_bind (param (PString y) ''String'') (\<lambda>p. b_ret (negate neg (ContainsSQL x p)))))
      (renders (bev b) K s) s" for neg y
    by (rule bwp_step [OF bwp_attr [OF K s a]], rule bwp_map [OF bwp_param [OF K, where v = "PString _", simplified]], erule ext_ok)
      (auto intro!: negate_sql contains_sql intro: ext_sql)
  have inl: "bwp (b_bind (in_list b a r vals) (\<lambda>c. b_ret (if neg then negate True c else ''('' @ c @ '')'')))
      (renders (bev b) K s) s" for neg
    by (rule bwp_map [OF bwp_in_list [OF K s a]]) (auto intro!: negate_sql sql_append simp del: append.simps)
  show ?thesis
    using op like cont inl [of True] inl [of False] bwp_scalar [OF K s a, of op]
    unfolding compare_def vals list.case final_op_def text_op_def
    by (elim disjE insertE) (simp_all add: vals del: append.simps)
qed

lemma bwp_predicate:
  assumes K: "K \<subseteq> reserved_names" and s: "st_ok K s" and pr: "pred_res (bev b) a op vs sp"
  shows "bwp (predicate b a op vs sp) (renders (bev b) K s) s"
proof -
  obtain r where a: "at_res a = Some r" "res_ok (bev b) r" and op: "op \<in> set ops" "arity_ok op (length vs)"
    using pr by (auto simp: pred_res_def)
  show ?thesis
  proof (cases "op = ''is null'' \<or> op = ''is not null''")
    case True
    then show ?thesis using bwp_null_test [OF K s a, of "op = ''is null''"] by (simp add: predicate_def a(1))
  next
    case False
    then have vs: "vs \<noteq> []" using op(2) by (auto simp: arity_ok_def split: if_splits)
    have "bwp (case vals of None \<Rightarrow> b_ret ''1'' | Some ws \<Rightarrow> (case list_op op (length ws) of
          None \<Rightarrow> b_bind (b_fail (several_err sp)) (\<lambda>_. b_ret ''0'') | Some op' \<Rightarrow> compare b a r op' ws)) (renders (bev b) K s) t"
      if t: "same_params s t" and vals: "\<And>ws. vals = Some ws \<Longrightarrow> ws \<noteq> []" for vals t
    proof -
      have st: "st_ok K t" "ext K s t" using same_ext [OF s t] by (auto intro: ext_ok)
      have "bwp (b_bind (b_fail (several_err sp)) (\<lambda>_. b_ret ''0'')) (renders (bev b) K s) t"
        using st s t by (auto simp: renders_def intro!: bwp_fail_then same_ext intro: same_trans)
      moreover have "bwp (compare b a r op' ws) (renders (bev b) K s) t"
        if "vals = Some ws" "list_op op (length ws) = Some op'" for ws op'
        by (rule renders_from [OF st(2) bwp_compare [OF K st(1) a vals [OF that(1)] list_op_cases [OF that(2) op(1)]]])
          (use False in simp_all)
      ultimately show ?thesis using st by (auto simp: bwp_ret renders_def split: option.split)
    qed
    then show ?thesis
      using False vs unfolding predicate_def a(1) b_need_Some bwp_bind if_not_P [OF False]
      by (intro bwp_mono [OF bwp_expand_values]) blast
  qed
qed

lemma join_cond_sql: "sql_text et ps x \<Longrightarrow> sql_text et ps y \<Longrightarrow> sql_text et ps (join_cond op x y)"
  by (auto simp: join_cond_def simp del: append.simps intro!: sql_append)

lemma bwp_cond:
  assumes K: "K \<subseteq> reserved_names"
  shows "expr_res (bev b) e \<Longrightarrow> st_ok K s \<Longrightarrow> bwp (cond b e) (renders (bev b) K s) s"
proof (induction e arbitrary: s)
  case (Logical op l r)
  show ?case
    unfolding cond.simps
  proof (rule bwp_step [OF Logical.IH(1)], use Logical.prems in simp, rule Logical.prems, rule bwp_map [OF Logical.IH(2)])
    fix x t y u assume "ext K s t" "sql_text (bev b) (bs_params t) x" "ext K t u" "sql_text (bev b) (bs_params u) y"
    then show "sql_text (bev b) (bs_params u) (join_cond op x y)" using ext_sql by (intro join_cond_sql)
  qed (use Logical.prems in \<open>auto intro: ext_ok\<close>)
next
  case (Not x sp)
  show ?case
    unfolding cond.simps
    by (rule bwp_map [OF Not.IH]) (use Not.prems in \<open>auto simp del: append.simps intro!: sql_append\<close>)
next
  case (Predicate a op vs sp)
  then show ?case using bwp_predicate [OF K] by simp
qed

section \<open>Aggregates\<close>

lemma if_name_sql: "sql_text et ps fn \<Longrightarrow> sql_text et ps (ifName fn c)"
  by (auto simp: ifName_def simp del: append.simps intro!: sql_append)

lemma with_cond_sql: "sql_text et ps x \<Longrightarrow> sql_text et ps c \<Longrightarrow> sql_text et ps (withCond x c)"
  by (auto simp: withCond_def simp del: append.simps intro!: sql_append)

lemma and_cond_sql: "sql_text et ps a \<Longrightarrow> sql_text et ps c \<Longrightarrow> sql_text et ps (andCond a c)"
  by (auto simp: andCond_def simp del: append.simps intro!: sql_append)

lemmas agg_sql_intros = if_name_sql with_cond_sql and_cond_sql sql_append

text \<open>The text of a percentile level is a number.\<close>

lemma number_text_simps [simp]:
  "number_text []" "number_text (c # s) \<longleftrightarrow> (is_digit c \<or> c = CHR ''.'') \<and> number_text s"
  "number_text (a @ b) \<longleftrightarrow> number_text a \<and> number_text b"
  by (auto simp: number_text_def)

lemma digits_number: "list_all is_digit s \<Longrightarrow> number_text s"
  by (auto simp: number_text_def list_all_iff)

lemma zero_digit [simp]: "is_digit CHR ''0''"
  by (simp add: is_digit_def)

lemma short_loop_digits: "list_all is_digit (fst (short_loop m e ns))"
proof (induction ns)
  case (Cons n ns)
  have "list_all is_digit (rev (dropWhile P (rev (show_nat k))))" for P k
    using show_nat_digits [of k] by (auto simp: list_all_iff dest: set_dropWhileD)
  then show ?case using Cons by (auto simp: Let_def split: option.split)
qed simp

lemma fmt_f_number: "list_all is_digit ds \<Longrightarrow> number_text (fmt_f ds dp)"
  by (auto simp: fmt_f_def number_text_def list_all_iff dest: in_set_takeD in_set_dropD)

lemma format_f_number: "number_text (format_f (FNum False m))"
proof -
  have "list_all is_digit (fst (shortest m))" by (simp add: shortest_def short_loop_digits)
  then show ?thesis by (auto simp: format_f_def fmt_f_number split: prod.split)
qed

lemma ilog2_below_one:
  assumes "0 < r" "r < 1"
  shows "ilog2 r \<le> 0"
proof -
  obtain n d where nd: "quotient_of r = (n, d)" by (cases "quotient_of r")
  then have d: "0 < d" "r = of_int n / of_int d" using quotient_of_denom_pos quotient_of_div by blast+
  then have "n < d" using assms(2) by (simp add: divide_less_eq)
  then have "floorlog 2 (nat n) \<le> floorlog 2 (nat d)" by (intro floorlog_mono) simp
  then show ?thesis by (simp add: ilog2_def nd Let_def)
qed

lemma round_below_one:
  assumes "0 < r" "r < 1"
  shows "\<exists>m. round64 neg r = FNum neg m"
proof -
  define u :: rat where "u = 2 powi ulp_exp r"
  have "ulp_exp r \<le> 0" using ilog2_below_one [OF assms] by (simp add: ulp_exp_def)
  then have u: "0 < u" "u \<le> 1" using power_int_increasing [of "ulp_exp r" 0 "2 :: rat"] by (auto simp: u_def)
  have "round_half_even (r / u) \<le> \<lfloor>r / u\<rfloor> + 1" by (simp add: round_half_even_def Let_def)
  then have "(of_int (round_half_even (r / u)) :: rat) \<le> of_int (\<lfloor>r / u\<rfloor> + 1)" by (simp only: of_int_le_iff)
  also have "\<dots> \<le> r / u + 1" using of_int_floor_le [of "r / u"] by simp
  finally have "of_int (round_half_even (r / u)) * u \<le> (r / u + 1) * u" using u(1) by simp
  also have "\<dots> = r + u" using u(1) by (simp add: distrib_right)
  also have "\<dots> < 2" using assms(2) u(2) by linarith
  finally have "round_mag r < 2 ^ 1" using assms(1) by (simp add: round_mag_def u_def)
  also have "(2 :: rat) ^ 1 \<le> 2 ^ 1024" by (rule power_increasing) simp_all
  finally show ?thesis by (simp add: round64_def Let_def)
qed

lemma level_number:
  assumes "level_ok lv"
  shows "number_text (format_f (f_div lv (f_of_int 100)))"
proof -
  have c: "f_of_int 0 = FNum False 0" "f_of_int 100 = FNum False 100"
    using f_of_int_exact [of 0] f_of_int_exact [of 100] by simp_all
  obtain sg m where lv: "lv = FNum sg m" "0 \<le> m" using assms by (auto simp: level_ok_def finite_num_def)
  then have "0 < m" "m < 100" "\<not> sg"
    using assms c by (auto simp: level_ok_def bad_level_def f_le_fval split: if_splits)
  then obtain k where "f_div lv (f_of_int 100) = FNum False k"
    using lv c round_below_one [of "m / 100" False] by auto
  then show ?thesis using format_f_number by simp
qed

lemma bwp_count:
  assumes K: "K \<subseteq> reserved_names" and s: "st_ok K s" and arg: "star \<or> (\<exists>a r. arg = Some a \<and> at_res a = Some r)"
    and x: "sql_text et (bs_params s) x"
    and g: "\<And>r t p. ext K s t \<Longrightarrow> sql_text et (bs_params t) p \<Longrightarrow> sql_text et (bs_params t) (g r p)"
  shows "bwp (count_map arg (\<lambda>r. b_bind (param (PString (r_key r)) ''String'') (\<lambda>p. b_ret (g r p))) (b_ret x) star)
    (renders et K s) s"
  using arg bwp_done [OF s x] bwp_map [OF bwp_param [OF K s, where v = "PString _", simplified] g]
  by (auto simp: count_map_def bwp_need)

lemma bwp_rate:
  assumes "K \<subseteq> reserved_names" "st_ok K s" and "per \<noteq> None" and x: "sql_text et (bs_params s) x"
  shows "bwp (rate_sql b per x) (renders et K s) s"
proof -
  obtain f where f: "rateFactor b per = Some f" using assms(3) by (cases "bd_rateBase b \<le> 0") (auto simp: rateFactor_def)
  show ?thesis
    unfolding rate_sql_def f b_need_Some
    by (rule bwp_map [OF bwp_param [OF assms(1,2), where v = "PFloat _", simplified]])
      (use x ext_sql in \<open>auto intro!: sql_append simp del: append.simps\<close>)
qed

lemma arg_resD: "arg_res et fn arg \<Longrightarrow> arg = Some a \<Longrightarrow> \<exists>r. at_res a = Some r \<and> res_ok et r"
  by (auto simp: arg_res_def)

lemma bwp_cond_opt:
  assumes "K \<subseteq> reserved_names" "st_ok K s" and "\<And>e. c = Some e \<Longrightarrow> expr_res (bev b) e"
  shows "bwp (cond_opt b c) (renders (bev b) K s) s"
  using assms bwp_cond [OF assms(1)] by (auto simp: cond_opt_def intro: bwp_done split: option.split)

lemma bwp_rollupAgg:
  assumes K: "K \<subseteq> reserved_names"
  shows "agg_res (bev b) a \<Longrightarrow> st_ok K s \<Longrightarrow> sql_text (bev b) (bs_params s) c \<Longrightarrow>
    bwp (rollupAgg b a c) (renders (bev b) K s) s"
proof (induction a arbitrary: c s)
  case (Agg fn name star arg inner levels per cnd roof nb sp tx)
  have res: "funcNames fn = Some fn" "shape_ok fn star arg inner levels per cnd" "arg_res (bev b) fn arg"
    "\<And>e. cnd = Some e \<Longrightarrow> expr_res (bev b) e" "\<And>i. inner = Some i \<Longrightarrow> agg_res (bev b) i"
    using Agg.prems(1) by auto
  note s = Agg.prems(2) and c = Agg.prems(3)
  have cnt: "star \<or> (\<exists>a r. arg = Some a \<and> at_res a = Some r)" if "fn = ''count''"
    using res(2,3) that by (auto simp: shape_ok_def arg_res_def)
  have inner: "bwp (case inner of None \<Rightarrow> b_panic | Some i \<Rightarrow> rollupAgg b i c') (renders (bev b) K t) t"
    if "inner \<noteq> None" "st_ok K t" "sql_text (bev b) (bs_params t) c'" for c' t
    using that Agg.IH [OF _ res(5)] by auto
  have counted: "bwp (count_map arg (\<lambda>r. b_bind (param (PString (r_key r)) ''String'') (\<lambda>p.
             b_ret (''sumIf(value_count, '' @ andCond (''mapContains(attributes, '' @ p @ '')'') c @ '')'')))
          (b_ret (ifName ''sum'' c @ withCond ''value_count'' c)) star) (renders (bev b) K s) s" if "fn = ''count''"
    by (rule bwp_count [OF K s cnt [OF that]])
      (use c ext_sql in \<open>auto intro!: agg_sql_intros simp del: append.simps\<close>)
  have uniq: "bwp (b_need arg (\<lambda>a. b_bind (attr_sql b a) (\<lambda>x. b_ret (ifName ''uniqExact'' c @ withCond x c)))) (renders (bev b) K s) s"
    if ne: "arg \<noteq> None"
  proof -
    obtain a r where a: "arg = Some a" "at_res a = Some r" "res_ok (bev b) r" using ne arg_resD [OF res(3)] by blast
    show ?thesis
      unfolding a(1) b_need_Some
      by (rule bwp_map [OF bwp_attr [OF K s a(2,3)]]) (use c ext_sql in \<open>auto intro!: agg_sql_intros\<close>)
  qed
  have rate: "bwp (b_bind (case inner of None \<Rightarrow> b_panic | Some i \<Rightarrow> rollupAgg b i c) (rate_sql b per)) (renders (bev b) K s) s"
    if "inner \<noteq> None" "per \<noteq> None"
    by (rule bwp_step [OF inner [OF that(1) s c] bwp_rate [OF K ext_ok that(2)]])
  have filt: "bwp (b_bind (cond_opt b cnd) (\<lambda>k. case inner of None \<Rightarrow> b_panic | Some i \<Rightarrow> rollupAgg b i (andCond c k)))
      (renders (bev b) K s) s" if "inner \<noteq> None"
  proof (rule bwp_step [OF bwp_cond_opt [OF K s res(4)]])
    fix x t assume "ext K s t" "sql_text (bev b) (bs_params t) x"
    then show "bwp (case inner of None \<Rightarrow> b_panic | Some i \<Rightarrow> rollupAgg b i (andCond c x)) (renders (bev b) K t) t"
      using c by (intro inner that) (auto intro: ext_ok and_cond_sql ext_sql)
  qed
  have texts: "bwp (b_ret y) (renders (bev b) K s) s" if "sql_text (bev b) (bs_params s) y" for y
    by (rule bwp_done [OF s that])
  from funcNames_cases [OF res(1)] show ?case
    by (elim disjE)
      (use res(2) counted uniq rate filt c in \<open>auto simp: shape_ok_def simp del: append.simps intro!: texts agg_sql_intros\<close>)
qed

lemma bwp_agg_arg:
  assumes f: "\<And>a r. arg = Some a \<Longrightarrow> at_res a = Some r \<Longrightarrow> res_ok et r \<Longrightarrow> bwp (f a) (renders et K s) s"
    and arg: "arg_res et fn arg" "arg \<noteq> None"
    and g: "\<And>a x t. ext K s t \<Longrightarrow> sql_text et (bs_params t) x \<Longrightarrow> sql_text et (bs_params t) (g a x)"
  shows "bwp (b_need arg (\<lambda>a. b_bind (f a) (\<lambda>x. b_ret (g a x)))) (renders et K s) s"
proof -
  obtain a r where a: "arg = Some a" "at_res a = Some r" "res_ok et r" using arg arg_resD by blast
  show ?thesis unfolding a(1) b_need_Some by (rule bwp_map [OF f [OF a] g])
qed

lemma bwp_raw_agg:
  assumes K: "K \<subseteq> reserved_names"
  shows "agg_res (bev b) a \<Longrightarrow> (\<And>ba. base_agg a = Some ba \<Longrightarrow> ag_levels ba \<noteq> [] \<Longrightarrow> level_ok lv) \<Longrightarrow> st_ok K s \<Longrightarrow>
    sql_text (bev b) (bs_params s) c \<Longrightarrow> bwp (raw_agg b a lv c) (renders (bev b) K s) s"
proof (induction a arbitrary: c s)
  case (Agg fn name star arg inner levels per cnd roof nb sp tx)
  have res: "funcNames fn = Some fn" "shape_ok fn star arg inner levels per cnd" "arg_res (bev b) fn arg"
    "\<And>e. cnd = Some e \<Longrightarrow> expr_res (bev b) e" "\<And>i. inner = Some i \<Longrightarrow> agg_res (bev b) i"
    using Agg.prems(1) by auto
  note s = Agg.prems(3) and c = Agg.prems(4)
  have cnt: "star \<or> (\<exists>a r. arg = Some a \<and> at_res a = Some r)" if "fn = ''count''"
    using res(2,3) that by (auto simp: shape_ok_def arg_res_def)
  have level: "number_text (format_f (f_div lv (f_of_int 100)))" if "fn = ''percentile'' \<or> fn = ''median''"
    using that Agg.prems(2) [of "Agg fn name star arg inner levels per cnd roof nb sp tx"] res(2)
    by (elim disjE; intro level_number) (simp_all add: shape_ok_def)
  have inner: "bwp (case inner of None \<Rightarrow> b_panic | Some i \<Rightarrow> raw_agg b i lv c') (renders (bev b) K t) t"
    if ne: "inner \<noteq> None" "fn = ''rate'' \<or> fn = ''filter''" "st_ok K t" "sql_text (bev b) (bs_params t) c'" for c' t
  proof -
    obtain i where i: "inner = Some i" using ne(1) by blast
    have "level_ok lv" if "base_agg i = Some ba" "ag_levels ba \<noteq> []" for ba
      using ne(2) Agg.prems(2) [of ba] that i by (elim disjE) simp_all
    then show ?thesis using ne(3,4) Agg.IH [OF _ res(5) [OF i]] i by simp
  qed
  have counted: "bwp (count_map arg (\<lambda>r. b_bind (param (PString (r_key r)) ''String'') (\<lambda>p.
             b_ret (''countIf('' @ andCond (''mapContains('' @ mapColumn b (r_mapKind r) @ '', '' @ p @ '')'') c @ '')'')))
          (b_ret (if c = [] then ''count()'' else ''countIf('' @ c @ '')'')) star) (renders (bev b) K s) s" if "fn = ''count''"
    by (rule bwp_count [OF K s cnt [OF that]])
      (use c ext_sql in \<open>auto intro!: agg_sql_intros simp del: append.simps\<close>)
  have nums: "bwp (b_need arg (\<lambda>a. b_bind (num_sql b a) (\<lambda>x. b_ret (g x)))) (renders (bev b) K s) s"
    if "arg \<noteq> None" "\<And>x t. ext K s t \<Longrightarrow> sql_text (bev b) (bs_params t) x \<Longrightarrow> sql_text (bev b) (bs_params t) (g x)" for g
    by (rule bwp_agg_arg [OF bwp_num [OF K s] res(3) that])
  have attrs: "bwp (b_need arg (\<lambda>a. b_bind (attr_sql b a) (\<lambda>x. b_ret (g a x)))) (renders (bev b) K s) s"
    if "arg \<noteq> None" "\<And>a x t. ext K s t \<Longrightarrow> sql_text (bev b) (bs_params t) x \<Longrightarrow> sql_text (bev b) (bs_params t) (g a x)" for g
    by (rule bwp_agg_arg [OF bwp_attr [OF K s] res(3) that])
  have rate: "bwp (b_bind (case inner of None \<Rightarrow> b_panic | Some i \<Rightarrow> raw_agg b i lv c) (rate_sql b per)) (renders (bev b) K s) s"
    if "fn = ''rate''" "inner \<noteq> None" "per \<noteq> None"
    by (rule bwp_step [OF inner [OF that(2) disjI1 [OF that(1)] s c] bwp_rate [OF K ext_ok that(3)]])
  have filt: "bwp (b_bind (cond_opt b cnd) (\<lambda>k. case inner of None \<Rightarrow> b_panic | Some i \<Rightarrow> raw_agg b i lv (andCond c k)))
      (renders (bev b) K s) s" if "fn = ''filter''" "inner \<noteq> None"
  proof (rule bwp_step [OF bwp_cond_opt [OF K s res(4)]])
    fix x t assume "ext K s t" "sql_text (bev b) (bs_params t) x"
    then show "bwp (case inner of None \<Rightarrow> b_panic | Some i \<Rightarrow> raw_agg b i lv (andCond c x)) (renders (bev b) K t) t"
      using c by (intro inner that(2) disjI2 [OF that(1)]) (auto intro: ext_ok and_cond_sql ext_sql)
  qed
  have latest: "bwp (b_need arg (\<lambda>a. b_bind (attr_sql b a) (\<lambda>x. b_need (at_res a) (\<lambda>r.
          b_ret (ifName (if e then ''argMin'' else ''argMax'') c @
            withCond ((if r_typ r = TBool then ''toFloat64('' @ x @ '')'' else x) @ '', '' @ et_timeCol (bev b)) c)))))
      (renders (bev b) K s) s" if ne: "arg \<noteq> None" for e
  proof -
    obtain a r where a: "arg = Some a" "at_res a = Some r" "res_ok (bev b) r" using ne arg_resD [OF res(3)] by blast
    show ?thesis
      unfolding a(1,2) b_need_Some
      by (rule bwp_map [OF bwp_attr [OF K s a(2,3)]])
        (use c ext_sql in \<open>auto intro!: agg_sql_intros simp del: append.simps\<close>)
  qed
  have ne: "arg \<noteq> None" if "fn \<noteq> ''count''" "fn \<noteq> ''rate''" "fn \<noteq> ''filter''"
    using res(2) that by (simp add: shape_ok_def)
  have plain: "sql_text (bev b) ps (plain_fn fn)" if "fn = ''sum'' \<or> fn = ''average'' \<or> fn = ''min'' \<or> fn = ''max''" for ps
    using that by (elim disjE) (simp_all add: plain_fn_def)
  have simple: "bwp (b_need arg (\<lambda>a. b_bind (num_sql b a) (\<lambda>x. b_ret (ifName (plain_fn fn) c @ withCond x c)))) (renders (bev b) K s) s"
    if "fn = ''sum'' \<or> fn = ''average'' \<or> fn = ''min'' \<or> fn = ''max''"
    by (rule nums) (use that ne in \<open>elim disjE; simp\<close>, use c ext_sql plain [OF that] in \<open>auto intro!: agg_sql_intros\<close>)
  have uniq: "bwp (b_need arg (\<lambda>a. b_bind (attr_sql b a) (\<lambda>x. b_ret (ifName ''uniqExact'' c @ withCond x c)))) (renders (bev b) K s) s"
    if "fn = ''uniquecount''"
    by (rule attrs) (use that ne in simp, use c ext_sql in \<open>auto intro!: agg_sql_intros\<close>)
  have quant: "bwp (b_need arg (\<lambda>a. b_bind (num_sql b a) (\<lambda>x. b_ret (ifName ''quantile'' c @ ''('' @
      format_f (f_div lv (f_of_int 100)) @ '')'' @ withCond x c)))) (renders (bev b) K s) s"
    if "fn = ''percentile'' \<or> fn = ''median''"
    by (rule nums) (use that ne in \<open>elim disjE; simp\<close>,
        use c ext_sql sql_number [OF level [OF that]] in \<open>auto intro!: agg_sql_intros simp del: append.simps\<close>)
  from funcNames_cases [OF res(1)] show ?case
    by (elim disjE)
      (use res(2) Agg.prems(1) counted simple uniq quant latest [of True] latest [of False] ne rate filt in \<open>simp_all add: shape_ok_def del: append.simps\<close>)
qed

end
