(* ===== verification/OqlSqlCorrect.thy ===== *)
theory OqlSqlCorrect
  imports OqlTranslateCorrect
begin

text \<open>
  Whole statements of the translator (\<^verbatim>\<open>internal/oql/translate.go\<close>): columns, facets and conditions of a
  plan, the selects built from them, and the composition of compiler, translator and statement builder.
\<close>

section \<open>Columns, facets and conditions\<close>

definition texts :: "eventType \<Rightarrow> string set \<Rightarrow> bstate \<Rightarrow> string list \<Rightarrow> bstate \<Rightarrow> bool" where
  "texts et K s xs t \<longleftrightarrow> ext K s t \<and> list_all (sql_text et (bs_params t)) xs"

lemma texts_ext: "ext K t u \<Longrightarrow> list_all (sql_text et (bs_params t)) xs \<Longrightarrow> list_all (sql_text et (bs_params u)) xs"
  by (auto simp: list_all_iff intro: ext_sql)

lemma bwp_agg_sql:
  assumes "K \<subseteq> reserved_names" "st_ok K s" "col_agg (bev b) c"
  shows "bwp (agg_sql b (cl_agg c) (cl_level c) []) (renders (bev b) K s) s"
  using assms bwp_rollupAgg [OF assms(1)] bwp_raw_agg [OF assms(1), of b "cl_agg c" "cl_level c" s "[]"]
  by (auto simp: agg_sql_def col_agg_def sql_Nil)

lemma bwp_column:
  assumes "K \<subseteq> reserved_names" "st_ok K s" "col_agg (bev b) c"
  shows "bwp (column_sql b c) (renders (bev b) K s) s"
  unfolding column_sql_def
  by (rule bwp_map [OF bwp_agg_sql [OF assms]]) (auto intro!: sql_append simp del: append.simps)

lemma show_nat_sql [simp]: "sql_text et ps (show_nat n)"
  by (rule sql_number [OF digits_number [OF show_nat_digits]])

lemma bwp_columns_from:
  assumes K: "K \<subseteq> reserved_names"
  shows "st_ok K s \<Longrightarrow> list_all (col_agg (bev b)) cs \<Longrightarrow>
    bwp (columns_from b i cs) (\<lambda>xs t. texts (bev b) K s xs t \<and> length xs = length cs) s"
proof (induction cs arbitrary: i s)
  case Nil
  then show ?case by (simp add: bwp_ret texts_def ext_refl)
next
  case (Cons c cs)
  show ?case
    unfolding columns_from.simps bwp_bind
  proof (rule bwp_mono [OF bwp_column [OF K]])
    fix x t assume "renders (bev b) K s x t"
    then have x: "sql_text (bev b) (bs_params t) x" "ext K s t" by (auto simp: renders_def)
    have st: "st_ok K t" by (rule ext_ok [OF x(2)])
    show "bwp (columns_from b (Suc i) cs) (\<lambda>xs. bwp (b_ret ((x @ '' AS a'' @ show_nat i) # xs))
        (\<lambda>xs t. texts (bev b) K s xs t \<and> length xs = length (c # cs))) t"
    proof (rule bwp_mono [OF Cons.IH [OF st]])
      fix xs u assume u: "texts (bev b) K t xs u \<and> length xs = length cs"
      then have "sql_text (bev b) (bs_params u) (x @ '' AS a'' @ show_nat i)"
        using x(1) ext_sql by (intro sql_append) (auto simp: texts_def)
      then show "bwp (b_ret ((x @ '' AS a'' @ show_nat i) # xs))
          (\<lambda>xs t. texts (bev b) K s xs t \<and> length xs = length (c # cs)) u"
        using u ext_trans [OF x(2)] by (simp add: bwp_ret texts_def del: append.simps)
    qed (use Cons.prems in simp)
  qed (use Cons.prems in simp_all)
qed

lemma bwp_facets:
  assumes K: "K \<subseteq> reserved_names" and s: "st_ok K s" and f: "list_all (attr_res (bev b)) (pl_facets (bd_plan b))"
  shows "bwp (facetExprs b) (\<lambda>xs t. texts (bev b) K s xs t \<and> length xs = length (pl_facets (bd_plan b))) s"
  unfolding facetExprs_def
proof (rule bwp_b_map [where et = "bev b" and K = K])
  fix x t assume "x \<in> set (pl_facets (bd_plan b))" and t: "st_ok K t"
  then obtain r where "at_res x = Some r" "res_ok (bev b) r" using f by (auto simp: list_all_iff attr_res_def)
  then show "bwp (b_bind (attr_sql b x) (\<lambda>y. b_ret (''toString('' @ y @ '')''))) (renders (bev b) K t) t"
    by (rule bwp_map [OF bwp_attr [OF K t]]) (auto intro!: sql_append simp del: append.simps)
qed (use s in \<open>auto simp: texts_def\<close>)

abbreviation range_names :: "string set" where
  "range_names \<equiv> {''t_from'', ''t_to''}"

lemma range_reserved: "range_names \<subseteq> reserved_names" "insert ''b_ms'' range_names \<subseteq> reserved_names"
  "{''w_origin'', ''w_step'', ''w_win''} \<union> range_names \<subseteq> reserved_names"
  by (simp_all add: reserved_names_def)

text \<open>Binding a reserved name that is not bound yet.\<close>

lemma bwp_set_param:
  assumes "st_ok K s" "name \<in> reserved_names" "name \<notin> K" "K \<subseteq> reserved_names"
    and "\<And>t. st_ok (insert name K) t \<Longrightarrow> map_of (bs_params s) \<subseteq>\<^sub>m map_of (bs_params t) \<Longrightarrow>
      map_of (bs_params t) name = Some (PInt v) \<Longrightarrow> bs_err t = bs_err s \<Longrightarrow> Q () t"
  shows "bwp (set_param name (PInt v)) Q s"
proof -
  have ne: "name \<noteq> param_name i" for i using param_name_not_reserved [of reserved_names i] assms(2) by auto
  then have "name \<notin> dom (map_of (bs_params s))" using assms(1,3) by (auto simp: st_ok_def)
  then show ?thesis
    using assms(1,3) ne
    by (auto simp: bwp_def set_param_def st_ok_def update_conv' map_le_def distinct_update intro!: assms(5) all_update)
qed

lemma int_param_sql: "map_of ps name = Some (PInt v) \<Longrightarrow> sql_text et ps (param_ref name ''Int64'')"
  using sql_param [of ps name "PInt v"] by simp

lemma range_sql:
  assumes "map_of ps ''t_from'' = Some (PInt v)" "map_of ps ''t_to'' = Some (PInt w)"
  shows "sql_text et ps (et_timeCol et @ '' >= fromUnixTimestamp64Nano({t_from:Int64}) AND '' @ et_timeCol et @
    '' < fromUnixTimestamp64Nano({t_to:Int64})'')"
proof -
  have "sql_text et ps (et_timeCol et @ '' >= fromUnixTimestamp64Nano('' @ param_ref ''t_from'' ''Int64'' @ '') AND '' @
      et_timeCol et @ '' < fromUnixTimestamp64Nano('' @ param_ref ''t_to'' ''Int64'' @ '')'')"
    using assms int_param_sql by (intro sql_append) auto
  then show ?thesis by (simp add: param_ref_def)
qed

lemma bwp_range_params:
  assumes "\<And>u. st_ok range_names u \<Longrightarrow> map_of (bs_params u) ''t_from'' = Some (PInt v) \<Longrightarrow>
    map_of (bs_params u) ''t_to'' = Some (PInt w) \<Longrightarrow> Q u"
  shows "bwp (set_param ''t_from'' (PInt v)) (\<lambda>_. bwp (set_param ''t_to'' (PInt w)) (\<lambda>_. Q)) empty_bstate"
proof -
  have "st_ok range_names (empty_bstate\<lparr>bs_params := [(''t_from'', PInt v), (''t_to'', PInt w)]\<rparr>)"
    by (auto simp: st_ok_def empty_bstate_def)
  then show ?thesis by (auto simp: bwp_def set_param_def empty_bstate_def intro!: assms)
qed

lemma bwp_filters:
  assumes q: "query_res (bev b) (pl_query (bd_plan b))"
  shows "bwp (filters b from to) (\<lambda>ws t. st_ok range_names t \<and> list_all (sql_text (bev b) (bs_params t)) ws) empty_bstate"
proof -
  let ?et = "bev b" let ?Q = "\<lambda>ws t. st_ok range_names t \<and> list_all (sql_text ?et (bs_params t)) ws"
  show ?thesis
    unfolding filters_def Let_def bwp_bind
  proof (rule bwp_range_params)
    fix u assume st: "st_ok range_names u"
      and u: "map_of (bs_params u) ''t_from'' = Some (PInt (to_unix_nano from))"
        "map_of (bs_params u) ''t_to'' = Some (PInt (to_unix_nano to))"
    let ?range = "et_timeCol ?et @ '' >= fromUnixTimestamp64Nano({t_from:Int64}) AND '' @ et_timeCol ?et @
      '' < fromUnixTimestamp64Nano({t_to:Int64})''"
    have r: "list_all (sql_text ?et (bs_params u)) (?range # et_base ?et)"
      using range_sql [OF u] by (auto simp: list_all_iff whitelist_def intro: sql_white simp del: append.simps)
    show "bwp (case qu_where (pl_query (bd_plan b)) of None \<Rightarrow> b_ret (?range # et_base ?et)
        | Some w \<Rightarrow> b_bind (cond b w) (\<lambda>c. b_ret (?range # et_base ?et @ (if c \<noteq> ''1'' then [c] else [])))) ?Q u"
    proof (cases "qu_where (pl_query (bd_plan b))")
      case None
      then show ?thesis using r st by (simp add: bwp_ret del: append.simps)
    next
      case (Some w)
      then have "expr_res ?et w" using q by (simp add: query_res_def)
      then show ?thesis
        unfolding Some option.case bwp_bind bwp_ret
        by (rule bwp_mono [OF bwp_cond [OF range_reserved(1) _ st]])
          (use texts_ext [OF _ r] in \<open>auto simp: renders_def intro: ext_ok simp del: append.simps\<close>)
    qed
  qed
qed

section \<open>Selects of a plan\<close>

text \<open>The fragments are plain texts, so that the statement builder's theorems apply.\<close>

lemma whitelist_plain:
  assumes "et \<in> set eventTypes" "x \<in> whitelist et"
  shows "plain x"
proof -
  have "\<forall>et \<in> set eventTypes. plain (et_timeCol et) \<and> plain (et_attrMap et) \<and> plain (et_resource et) \<and>
      list_all plain (et_base et) \<and> list_all (\<lambda>d. plain (ad_sql d) \<and> plain (ad_rollup d)) (et_attrs et)"
    by (simp add: eventTypes_def et_defs sAttr_def nAttr_def bAttr_def rolled_def spanAttrs_def)
  then show ?thesis using assms by (auto simp: whitelist_def list_all_iff)
qed

lemma type_plain: "plain (param_type v)"
  by (cases v) auto

lemma fixed_plain: "s \<in> set fixed_sql \<Longrightarrow> plain s"
proof -
  have "list_all plain fixed_sql" by (simp add: fixed_sql_def)
  then show "s \<in> set fixed_sql \<Longrightarrow> plain s" by (simp add: list_all_iff)
qed

definition names_ok :: "(string \<times> param_value) list \<Rightarrow> bool" where
  "names_ok ps \<longleftrightarrow> (\<forall>k \<in> dom (map_of ps). plain k \<and> paramName k \<and> k \<noteq> ''tenant_id'')"

lemma sql_plain:
  assumes "et \<in> set eventTypes" "names_ok ps" "sql_text et ps s"
  shows "plain s"
  using assms(3)
proof (induction rule: sql_text.induct)
  case (sql_number s)
  then show ?case by (auto simp: number_text_def plain_def list_all_iff is_digit_def)
next
  case (sql_param name v)
  then have "plain name" using assms(2) by (auto simp: names_ok_def)
  then show ?case by (simp add: param_ref_def type_plain)
qed (auto simp: fixed_plain whitelist_plain [OF assms(1)])

lemma st_ok_names:
  assumes "K \<subseteq> reserved_names" "st_ok K s"
  shows "names_ok (bs_params s)"
proof -
  have "plain k \<and> paramName k \<and> k \<noteq> ''tenant_id''" if "k \<in> reserved_names" for k
    using that unfolding reserved_names_def by (elim insertE emptyE) (simp_all add: paramName_def is_lower_def is_digit_def)
  moreover have "plain (param_name i) \<and> paramName (param_name i) \<and> param_name i \<noteq> ''tenant_id''" for i
    using show_nat_digits [of i] by (auto simp: param_name_def paramName_def is_lower_def list_all_iff)
  ultimately show ?thesis using assms by (auto simp: names_ok_def st_ok_def)
qed

definition container_source :: "scope \<Rightarrow> select" where
  "container_source sc = GroupBy [''host_id'', ''container_id''] (Columns containerColumns (From sc Containers))"

text \<open>
  A select of the translator: its fragments are texts over the parameters \<open>ps\<close>, its source is a table or
  the fixed select of containers, and its sub-selects are of the same form.
\<close>

definition cond_ok :: "eventType \<Rightarrow> (string \<times> param_value) list \<Rightarrow> string \<Rightarrow> bool" where
  "cond_ok et ps w \<longleftrightarrow>
     sql_text et ps w \<or> (\<exists>e i. sql_text et ps e \<and> w = e @ '' GLOBAL IN ('' @ sub_marker i @ '')'')"

definition core_text :: "eventType \<Rightarrow> (string \<times> param_value) list \<Rightarrow> select_core \<Rightarrow> bool" where
  "core_text et ps c \<longleftrightarrow>
     list_all (sql_text et ps) (q_cols c @ q_groupBy c @ q_having c @ q_orderBy c) \<and> q_limitBy c = [] \<and>
     list_all (cond_ok et ps) (q_where c)"

fun select_text :: "eventType \<Rightarrow> (string \<times> param_value) list \<Rightarrow> scope \<Rightarrow> select \<Rightarrow> bool" where
  "select_text et ps sc (Select c sub subs) \<longleftrightarrow>
     core_text et ps c \<and> (sub = None \<or> sub = Some (container_source sc)) \<and> (\<forall>s \<in> set subs. select_text et ps sc s)"

definition sel_ok :: "eventType \<Rightarrow> (string \<times> param_value) list \<Rightarrow> scope \<Rightarrow> select \<Rightarrow> bool" where
  "sel_ok et ps sc q \<longleftrightarrow> built [sc] q \<and> select_text et ps sc q \<and> q_params (q_core q) = [] \<and> q_scope (q_core q) = sc"

lemma core_textI [simp]:
  "core_text et ps (c\<lparr>q_err := e\<rparr>) = core_text et ps c" "core_text et ps (c\<lparr>q_params := x\<rparr>) = core_text et ps c"
  "core_text et ps (c\<lparr>q_limit := n\<rparr>) = core_text et ps c" "core_text et ps (c\<lparr>q_final := y\<rparr>) = core_text et ps c"
  by (simp_all add: core_text_def)

lemma select_text_core: "select_text et ps sc q \<Longrightarrow> core_text et ps (q_core q)"
  by (cases q) simp

lemma select_text_upd: "select_text et ps sc q \<Longrightarrow> core_text et ps (f (q_core q)) \<Longrightarrow> select_text et ps sc (upd f q)"
  by (cases q) (simp add: upd_def)

lemma select_text_fail: "select_text et ps sc q \<Longrightarrow> select_text et ps sc (fail e q)"
  unfolding fail_def by (rule select_text_upd) (auto dest: select_text_core)

lemma select_text_checked:
  "select_text et ps sc q \<Longrightarrow> core_text et ps (f (q_core q)) \<Longrightarrow> select_text et ps sc (add_checked fs f q)"
  by (auto simp: add_checked_def intro: select_text_upd select_text_fail split: option.split)

lemma params_checked:
  "q_params (f (q_core q)) = q_params (q_core q) \<Longrightarrow> q_params (q_core (add_checked fs f q)) = q_params (q_core q)"
  by (simp add: add_checked_def upd_def fail_def split: option.split)

lemma cond_ok_mono: "cond_ok et ps w \<Longrightarrow> map_of ps \<subseteq>\<^sub>m map_of ps' \<Longrightarrow> cond_ok et ps' w"
  unfolding cond_ok_def using sql_mono by blast

lemma select_text_mono:
  assumes "map_of ps \<subseteq>\<^sub>m map_of ps'"
  shows "select_text et ps sc q \<Longrightarrow> select_text et ps' sc q"
proof (induction q)
  case (Select c sub subs)
  have "core_text et ps' c"
    using Select.prems sql_mono [OF _ assms] cond_ok_mono [OF _ assms] by (auto simp: core_text_def list_all_iff)
  then show ?case using Select by auto
qed

lemma sel_mono: "sel_ok et ps sc q \<Longrightarrow> map_of ps \<subseteq>\<^sub>m map_of ps' \<Longrightarrow> sel_ok et ps' sc q"
  by (auto simp: sel_ok_def intro: select_text_mono)

lemma list_plain:
  assumes "et \<in> set eventTypes" "names_ok ps" "list_all (sql_text et ps) xs"
  shows "list_all plain xs"
  using sql_plain [OF assms(1,2)] assms(3) by (auto simp: list_all_iff)

lemma sel_methods:
  assumes et: "et \<in> set eventTypes" "names_ok ps" and q: "sel_ok et ps sc q"
  shows "list_all (sql_text et ps) xs \<Longrightarrow> sel_ok et ps sc (Columns xs q)"
    and "list_all (sql_text et ps) xs \<Longrightarrow> sel_ok et ps sc (GroupBy xs q)"
    and "list_all (sql_text et ps) xs \<Longrightarrow> sel_ok et ps sc (OrderBy xs q)"
    and "sql_text et ps x \<Longrightarrow> sel_ok et ps sc (Where x q)"
    and "sel_ok et ps sc (Limit n q)"
proof -
  note p = list_plain [OF et] sql_plain [OF et]
  have c: "core_text et ps (q_core q)" using q select_text_core by (auto simp: sel_ok_def)
  show "list_all (sql_text et ps) xs \<Longrightarrow> sel_ok et ps sc (Columns xs q)"
    using q c p(1) built_Columns by (auto simp: sel_ok_def Columns_def params_checked scope_checked core_text_def
        intro!: select_text_checked)
  show "list_all (sql_text et ps) xs \<Longrightarrow> sel_ok et ps sc (GroupBy xs q)"
    using q c p(1) built_GroupBy by (auto simp: sel_ok_def GroupBy_def params_checked scope_checked core_text_def
        intro!: select_text_checked)
  show "list_all (sql_text et ps) xs \<Longrightarrow> sel_ok et ps sc (OrderBy xs q)"
    using q c p(1) built_OrderBy by (auto simp: sel_ok_def OrderBy_def params_checked scope_checked core_text_def
        intro!: select_text_checked)
  show "sql_text et ps x \<Longrightarrow> sel_ok et ps sc (Where x q)"
    using q c p(2) built_Where by (auto simp: sel_ok_def Where_def params_checked scope_checked core_text_def cond_ok_def
        intro!: select_text_checked)
  show "sel_ok et ps sc (Limit n q)"
    using q c built_Limit [of "[sc]" q n] by (cases q) (auto simp: sel_ok_def Limit_def upd_def)
qed

lemma table_plain: "et \<in> set eventTypes \<Longrightarrow> plain (table_name (et_table et))"
proof -
  have "\<forall>et \<in> set eventTypes. plain (table_name (et_table et))"
    by (simp add: eventTypes_def et_defs Logs_def Spans_def Metrics_def Hosts_def Containers_def Profiles_def RumPageViews1m_def
        RumVitals1m_def RumSessions_def AnalyticsEvents_def DBQueryStats_def)
  then show "et \<in> set eventTypes \<Longrightarrow> plain (table_name (et_table et))" by blast
qed

lemma sel_From: "plain (table_name t) \<Longrightarrow> sel_ok et ps sc (From sc t)"
  using built_From [of sc "[sc]" t] by (simp add: sel_ok_def From_def empty_core_def core_text_def)

lemma sel_source:
  assumes "bev b \<in> set eventTypes"
  shows "sel_ok (bev b) ps sc (source b sc)"
proof -
  have "list_all plain containerColumns" by (simp add: containerColumns_def)
  then have "built [sc] (FromSub sc (container_source sc))"
    unfolding container_source_def by (intro built.intros) (simp_all add: Containers_def)
  then have "sel_ok (bev b) ps sc (FromSub sc (container_source sc))"
    by (auto simp: sel_ok_def FromSub_def container_source_def From_def empty_core_def core_text_def Let_def)
  moreover have "sel_ok (bev b) ps sc (Final (From sc t))" if "plain (table_name t)" for t
    using built_Final [OF built_From [of sc "[sc]" t]] that
    by (simp add: sel_ok_def Final_def From_def upd_def empty_core_def core_text_def)
  ultimately show ?thesis
    using table_plain [OF assms] by (auto simp: source_def Let_def container_source_def Metrics1m_def intro: sel_From)
qed

lemma sel_wheres:
  assumes "et \<in> set eventTypes" "names_ok ps" "list_all (sql_text et ps) conds"
  shows "sel_ok et ps sc q \<Longrightarrow> sel_ok et ps sc (fold Where conds q)"
  using assms(3) by (induction conds arbitrary: q) (auto intro: sel_methods [OF assms(1,2)])

lemma aliases_sql: "list_all (sql_text et ps) (aliases fe)"
  by (auto simp: aliases_def facet_alias_def list_all_iff simp del: append.simps intro!: sql_append)

lemma aliased_sql: "list_all (sql_text et ps) fe \<Longrightarrow> list_all (sql_text et ps) (aliased fe)"
  by (auto simp: aliased_def facet_alias_def list_all_iff simp del: append.simps intro!: sql_append)

definition bound :: "bstate \<Rightarrow> bool" where
  "bound s \<longleftrightarrow> (\<exists>K \<subseteq> reserved_names. st_ok K s)"

lemma boundI: "K \<subseteq> reserved_names \<Longrightarrow> st_ok K s \<Longrightarrow> bound s"
  by (auto simp: bound_def)

text \<open>What a step of building the statement yields: the select over the parameters bound so far.\<close>

definition yields :: "eventType \<Rightarrow> scope \<Rightarrow> bstate \<Rightarrow> select \<times> string list \<times> (string \<times> select) option \<Rightarrow> bstate \<Rightarrow> bool" where
  "yields et sc s r t \<longleftrightarrow>
     bound t \<and> map_of (bs_params s) \<subseteq>\<^sub>m map_of (bs_params t) \<and>
     sel_ok et (bs_params t) sc (fst r) \<and> list_all (sql_text et (bs_params t)) (fst (snd r)) \<and>
     (case snd (snd r) of None \<Rightarrow> True
        | Some (tuple, sub) \<Rightarrow> sql_text et (bs_params t) tuple \<and> sel_ok et (bs_params t) sc sub)"

lemma bwp_single:
  assumes K: "K \<subseteq> reserved_names" and s: "st_ok K s" and et: "bev b \<in> set eventTypes"
    and cols: "list_all (col_agg (bev b)) (pl_columns (bd_plan b))" and q: "sel_ok (bev b) (bs_params s) sc q"
  shows "bwp (columns_sql b) (\<lambda>cols. bwp (b_ret (Columns cols q, [], None)) (yields (bev b) sc s)) s"
  unfolding columns_sql_def bwp_ret
proof (rule bwp_mono [OF bwp_columns_from [OF K s cols]], clarify)
  fix xs t assume t: "texts (bev b) K s xs t"
  then have "st_ok K t" by (auto simp: texts_def intro: ext_ok)
  moreover have "sel_ok (bev b) (bs_params t) sc q" using q t sel_mono by (auto simp: texts_def ext_def)
  ultimately show "yields (bev b) sc s (Columns xs q, [], None) t"
    using t sel_methods(1) [OF et st_ok_names [OF K]] boundI [OF K] by (auto simp: yields_def texts_def ext_def)
qed

lemma ext_le: "ext K s t \<Longrightarrow> map_of (bs_params s) \<subseteq>\<^sub>m map_of (bs_params t)"
  by (simp add: ext_def)

lemma bwp_next:
  assumes "ext K s t" and "\<And>t. st_ok K t \<Longrightarrow> bwp f (renders et K t) t"
    and "\<And>x u. ext K s u \<Longrightarrow> ext K t u \<Longrightarrow> sql_text et (bs_params u) x \<Longrightarrow> Q x u"
  shows "bwp f Q t"
  by (rule bwp_mono [OF assms(2) [OF ext_ok [OF assms(1)]]])
    (use ext_trans [OF assms(1)] assms(3) in \<open>auto simp: renders_def\<close>)

lemma bwp_histogram:
  assumes K: "K \<subseteq> reserved_names" and s: "st_ok K s" and et: "bev b \<in> set eventTypes"
    and h: "pl_hist (bd_plan b) = Some h" "hist_res (bev b) h" and q: "sel_ok (bev b) (bs_params s) sc q"
  shows "bwp (histogram_select b q) (\<lambda>(q', extra). bwp (b_ret (q', extra, None)) (yields (bev b) sc s)) s"
proof -
  obtain a r where a: "ag_arg h = Some a" "at_res a = Some r" "res_ok (bev b) r"
    using h(2) by (auto simp: hist_res_def arg_res_def)
  note num = bwp_num [OF K _ a(2,3)] and par = bwp_param [OF K, where v = "PFloat _" and et = "bev b", simplified]
  show ?thesis
    unfolding histogram_select_def h(1) a(1) b_need_Some bwp_bind bwp_ret prod.case
  proof (rule bwp_next [OF ext_refl [OF s] num], assumption, rule bwp_next [OF _ par], assumption, assumption,
      rule bwp_next [OF _ par], assumption, assumption, goal_cases)
    case (1 x t p u w v)
    have v: "st_ok K v" by (rule ext_ok [OF 1(7)])
    have tx: "sql_text (bev b) (bs_params v) x" "sql_text (bev b) (bs_params v) p"
      using ext_sql [OF ext_trans [OF 1(5,8)] 1(3)] ext_sql [OF 1(8,6)] by auto
    have c: "list_all (sql_text (bev b) (bs_params v)) [''toInt64(assumeNotNull(floor('' @ x @ '' / '' @ w @ ''))) AS hb'',
        ''CAST(count() AS Nullable(Float64)) AS a0'']" "sql_text (bev b) (bs_params v) (x @ '' >= 0 AND '' @ x @ '' < '' @ p)"
      using tx 1(9) by (auto intro!: sql_append simp del: append.simps)
    note m = sel_methods [OF et st_ok_names [OF K v]]
    have "sel_ok (bev b) (bs_params v) sc (OrderBy [''hb''] (GroupBy [''hb'']
         (Columns [''toInt64(assumeNotNull(floor('' @ x @ '' / '' @ w @ ''))) AS hb'',
                   ''CAST(count() AS Nullable(Float64)) AS a0''] q)))"
      by (intro m(3) m(2) m(1) c sel_mono [OF q ext_le [OF 1(7)]]) simp_all
    then show ?case
      unfolding yields_def using boundI [OF K v] c(2) ext_le [OF 1(7)] by (auto simp del: append.simps)
  qed
qed

lemma bwp_next_list:
  assumes "ext K s t" and "\<And>t. st_ok K t \<Longrightarrow> bwp f (\<lambda>xs u. texts et K t xs u \<and> length xs = n) t"
    and "\<And>xs u. ext K s u \<Longrightarrow> ext K t u \<Longrightarrow> list_all (sql_text et (bs_params u)) xs \<Longrightarrow> length xs = n \<Longrightarrow> Q xs u"
  shows "bwp f Q t"
  by (rule bwp_mono [OF assms(2) [OF ext_ok [OF assms(1)]]])
    (use ext_trans [OF assms(1)] assms(3) in \<open>auto simp: texts_def\<close>)

lemma bwp_facets_select:
  assumes K: "K \<subseteq> reserved_names" and s: "st_ok K s" and et: "bev b \<in> set eventTypes"
    and f: "list_all (attr_res (bev b)) (pl_facets (bd_plan b))"
    and cols: "list_all (col_agg (bev b)) (pl_columns (bd_plan b))" and q: "sel_ok (bev b) (bs_params s) sc q"
  shows "bwp (facets_select b q) (\<lambda>q'. bwp (b_ret (q', [], None)) (yields (bev b) sc s)) s"
  unfolding facets_select_def bwp_bind bwp_ret columns_sql_def
proof (rule bwp_next_list [OF ext_refl [OF s] bwp_facets [OF K _ f]], assumption,
    rule bwp_next_list [OF _ bwp_columns_from [OF K _ cols]], assumption, assumption, goal_cases)
  case (1 fe t cs u)
  have u: "st_ok K u" by (rule ext_ok [OF 1(5)])
  note m = sel_methods [OF et st_ok_names [OF K u]]
  have "list_all (sql_text (bev b) (bs_params u)) (aliased fe @ cs)"
    using 1(7) texts_ext [OF 1(6,3)] by (simp add: aliased_sql)
  then have "sel_ok (bev b) (bs_params u) sc (Limit (pl_limit (bd_plan b) + 1) (OrderBy (''a0 DESC'' # aliases fe)
      (GroupBy (aliases fe) (Columns (aliased fe @ cs) q))))"
    by (intro m(5) m(3) m(2) m(1) sel_mono [OF q ext_le [OF 1(5)]]) (simp_all add: aliases_sql)
  then show ?case using boundI [OF K u] ext_le [OF 1(5)] by (auto simp: yields_def)
qed

lemma time_sql: "sql_text (bev b) ps (timeMillis b)" "sql_text (bev b) ps (timeNanos b)"
  by (auto simp: timeMillis_def timeNanos_def simp del: append.simps intro!: sql_append)

lemma bucket_sql_text:
  assumes "map_of ps ''b_ms'' = Some (PInt v)"
  shows "sql_text (bev b) ps (bucket_sql b)"
proof -
  have "sql_text (bev b) ps (''toInt64(intDiv('' @ timeMillis b @ '', '' @ param_ref ''b_ms'' ''Int64'' @ '') * '' @
      param_ref ''b_ms'' ''Int64'' @ '') AS bk'')"
    using int_param_sql [OF assms] time_sql by (intro sql_append) auto
  then show ?thesis by (simp add: bucket_sql_def param_ref_def)
qed

lemma tuple_sql_text:
  assumes "list_all (sql_text et ps) fe"
  shows "sql_text et ps (tuple_sql fe)"
proof -
  have "sql_text et ps (''('' @ join_with '', '' fe @ '')'')" using sql_join [OF assms] by (intro sql_append) auto
  then show ?thesis using assms by (auto simp: tuple_sql_def simp del: append.simps split: list.split)
qed

lemma bwp_top_groups:
  assumes K: "K \<subseteq> reserved_names" and s: "st_ok K s" and et: "bev b \<in> set eventTypes"
    and cols: "list_all (col_agg (bev b)) (pl_columns (bd_plan b))" "pl_columns (bd_plan b) \<noteq> []"
    and tx: "list_all (sql_text (bev b) (bs_params s)) fe" "list_all (sql_text (bev b) (bs_params s)) conds"
  shows "bwp (top_groups b sc conds fe) (\<lambda>sub t. ext K s t \<and> sel_ok (bev b) (bs_params t) sc sub) s"
proof -
  obtain c cs where c: "pl_columns (bd_plan b) = c # cs" "col_agg (bev b) c" using cols by (cases "pl_columns (bd_plan b)") auto
  show ?thesis
    unfolding top_groups_def c(1) list.case b_need_Some bwp_bind bwp_ret
  proof (rule bwp_next [OF ext_refl [OF s] bwp_agg_sql [OF K _ c(2)]], assumption, goal_cases)
    case (1 a t)
    note m = sel_methods [OF et st_ok_names [OF K ext_ok [OF 1(1)]]]
    note w = sel_wheres [OF et st_ok_names [OF K ext_ok [OF 1(1)]]]
    have "sql_text (bev b) (bs_params t) (a @ '' DESC'')" using 1(3) by (intro sql_append) auto
    then show ?case
      using texts_ext [OF 1(1) tx(1)] texts_ext [OF 1(1) tx(2)] 1(1)
      by (intro conjI m(5) m(3) m(2) m(1) w sel_source [OF et]) (simp_all del: append.simps)
  qed
qed

lemma bwp_series:
  assumes s: "st_ok range_names s" and et: "bev b \<in> set eventTypes"
    and f: "list_all (attr_res (bev b)) (pl_facets (bd_plan b))"
    and cols: "list_all (col_agg (bev b)) (pl_columns (bd_plan b))" "pl_columns (bd_plan b) \<noteq> []"
    and q: "sel_ok (bev b) (bs_params s) sc q" and conds: "list_all (sql_text (bev b) (bs_params s)) conds"
  shows "bwp (series_select b sc conds q) (\<lambda>(q', sub). bwp (b_ret (q', [], sub)) (yields (bev b) sc s)) s"
proof -
  let ?K = "insert ''b_ms'' range_names"
  note K = range_reserved(2)
  show ?thesis
    unfolding series_select_def bwp_bind columns_sql_def Let_def
  proof (rule bwp_next_list [OF ext_refl [OF s] bwp_facets [OF range_reserved(1) _ f]], assumption,
      rule bwp_set_param, erule ext_ok, goal_cases)
    case (4 fe t t2)
    have le: "map_of (bs_params s) \<subseteq>\<^sub>m map_of (bs_params t2)" using ext_le [OF 4(1)] 4(6) map_le_trans by blast
    show ?case
    proof (rule bwp_next_list [OF ext_refl [OF 4(5)] bwp_columns_from [OF K _ cols(1)]], assumption, goal_cases)
      case (1 cs u)
      have u: "st_ok ?K u" by (rule ext_ok [OF 1(1)])
      have le_u: "map_of (bs_params s) \<subseteq>\<^sub>m map_of (bs_params u)" "map_of (bs_params t) \<subseteq>\<^sub>m map_of (bs_params u)"
        using map_le_trans [OF le ext_le [OF 1(1)]] map_le_trans [OF 4(6) ext_le [OF 1(1)]] by auto
      have fe: "list_all (sql_text (bev b) (bs_params u)) fe" "list_all (sql_text (bev b) (bs_params u)) conds"
        using 4(3) conds sql_mono le_u by (auto simp: list_all_iff)
      have "map_of (bs_params u) ''b_ms'' = Some (PInt (pl_bucket (bd_plan b) sdiv 1000000))"
        using 4(7) ext_le [OF 1(1)] by (auto simp: map_le_def dom_def)
      then have bk: "sql_text (bev b) (bs_params u) (bucket_sql b)" by (rule bucket_sql_text)
      let ?q = "Limit (maxPoints + 1) (OrderBy [''bk''] (GroupBy (aliases fe @ [''bk''])
                  (Columns (aliased fe @ [bucket_sql b] @ cs) q)))"
      have main: "sel_ok (bev b) (bs_params v) sc ?q" if "ext ?K u v" for v
      proof -
        note m = sel_methods [OF et st_ok_names [OF K u]]
        have "sel_ok (bev b) (bs_params u) sc ?q"
          by (intro m(5) m(3) m(2) m(1) sel_mono [OF q le_u(1)])
            (use fe(1) bk 1(3) in \<open>simp_all add: aliases_sql aliased_sql\<close>)
        then show ?thesis using sel_mono [OF _ ext_le [OF that]] by blast
      qed
      have "bwp (top_groups b sc conds fe) (\<lambda>sub. bwp (b_ret (?q, Some (tuple_sql fe, sub)))
          (\<lambda>(q', sub). bwp (b_ret (q', [], sub)) (yields (bev b) sc s))) u"
      proof (rule bwp_mono [OF bwp_top_groups [OF K u et cols fe]], elim conjE)
        fix sub v assume v: "ext ?K u v" "sel_ok (bev b) (bs_params v) sc sub"
        then show "bwp (b_ret (?q, Some (tuple_sql fe, sub))) (\<lambda>(q', sub). bwp (b_ret (q', [], sub)) (yields (bev b) sc s)) v"
          using main [OF v(1)] map_le_trans [OF le_u(1) ext_le [OF v(1)]] boundI [OF K ext_ok [OF v(1)]]
            tuple_sql_text [OF texts_ext [OF v(1) fe(1)]]
          unfolding bwp_ret prod.case yields_def by auto
      qed
      then show ?case
        using main [OF ext_refl [OF u]] boundI [OF K u] le_u(1) by (auto simp: bwp_bind bwp_ret yields_def)
    qed
  qed (simp_all add: reserved_names_def)
qed

text \<open>What the translator needs of a plan.\<close>

lemma bwp_build:
  assumes p: "plan_res (bd_plan b)"
  shows "bwp (build_sql b sc from to) (yields (bev b) sc empty_bstate) empty_bstate"
proof -
  have et: "bev b \<in> set eventTypes" and q: "query_res (bev b) (pl_query (bd_plan b))"
    and f: "list_all (attr_res (bev b)) (pl_facets (bd_plan b))" and ne: "pl_columns (bd_plan b) \<noteq> []"
    using p by (auto simp: plan_res_def query_res_def)
  have "bwp (main_select b sc conds) (\<lambda>(q, extra, sub) t. yields (bev b) sc empty_bstate (q, conds @ extra, sub) t) s"
    if s: "st_ok range_names s" and conds: "list_all (sql_text (bev b) (bs_params s)) conds" for conds s
  proof -
    note K = range_reserved(1)
    have q0: "sel_ok (bev b) (bs_params s) sc (source b sc)" by (rule sel_source [OF et])
    have "bwp (main_select b sc conds) (yields (bev b) sc s) s"
    proof (cases "pl_kind (bd_plan b) = KindHistogram")
      case True
      then obtain h where h: "pl_hist (bd_plan b) = Some h" "hist_res (bev b) h" using p by (auto simp: plan_res_def)
      show ?thesis
        using bwp_histogram [OF K s et h q0] True by (simp add: main_select_def bwp_bind split_def)
    next
      case False
      then have cols: "list_all (col_agg (bev b)) (pl_columns (bd_plan b))" using p by (auto simp: plan_res_def)
      show ?thesis
        using False bwp_single [OF K s et cols q0] bwp_facets_select [OF K s et f cols q0]
          bwp_series [OF s et f cols ne q0 conds]
        by (cases "pl_kind (bd_plan b)") (simp_all add: main_select_def bwp_bind split_def)
    qed
    then show ?thesis
    proof (rule bwp_mono, clarify)
      fix q extra tuple t assume y: "yields (bev b) sc s (q, extra, tuple) t"
      then have "list_all (sql_text (bev b) (bs_params t)) conds"
        using conds sql_mono by (auto simp: yields_def list_all_iff)
      then show "yields (bev b) sc empty_bstate (q, conds @ extra, tuple) t"
        using y by (auto simp: yields_def empty_bstate_def)
    qed
  qed
  moreover have "bwp (b_ret x) Q = Q x" for x :: "select \<times> string list \<times> (string \<times> select) option" and Q
    by (simp add: fun_eq_iff bwp_ret)
  ultimately show ?thesis
    unfolding build_sql_def bwp_bind by (intro bwp_mono [OF bwp_filters [OF q]]) (auto simp: split_def)
qed

text \<open>Binding the collected parameters.\<close>

lemma Param_fresh:
  assumes "paramName name" "name \<noteq> ''tenant_id''" "param_text v = Some x" "map_of (q_params (q_core q)) name = None"
  shows "Param name v q = upd (\<lambda>c. c\<lparr>q_params := AList.update name x (q_params c)\<rparr>) q"
  using assms by (simp add: Param_def Let_def)

lemma param_text_typed: "param_type v \<noteq> [] \<Longrightarrow> \<exists>x. param_text v = Some x"
  by (cases v) auto

lemma apply_params_eq:
  assumes "distinct (map fst ps)" "list_all (\<lambda>(_, v). param_type v \<noteq> []) ps" "names_ok ps"
    and "\<And>k. k \<in> fst ` set ps \<Longrightarrow> map_of (q_params (q_core q)) k = None"
  shows "\<exists>f. apply_params ps q = upd (\<lambda>c. c\<lparr>q_params := f\<rparr>) q \<and>
    (\<forall>k. map_of f k = (case map_of ps k of Some v \<Rightarrow> param_text v | None \<Rightarrow> map_of (q_params (q_core q)) k))"
  using assms
proof (induction ps arbitrary: q)
  case Nil
  then show ?case by (intro exI [of _ "q_params (q_core q)"]) (cases q; simp add: apply_params_def upd_def)
next
  case (Cons kv ps)
  obtain k v where kv: "kv = (k, v)" by (cases kv)
  obtain x where x: "param_text v = Some x" using Cons.prems(2) kv param_text_typed by auto
  have k: "paramName k" "k \<noteq> ''tenant_id''" "map_of (q_params (q_core q)) k = None" "k \<notin> fst ` set ps"
    using Cons.prems kv by (auto simp: names_ok_def)
  let ?q = "upd (\<lambda>c. c\<lparr>q_params := AList.update k x (q_params c)\<rparr>) q"
  have "names_ok ps" using Cons.prems(3) kv by (auto simp: names_ok_def)
  moreover have "map_of (q_params (q_core ?q)) j = None" if "j \<in> fst ` set ps" for j
    using that Cons.prems(4) k(4) kv by (auto simp: upd_def update_conv')
  ultimately obtain f where "apply_params ps ?q = upd (\<lambda>c. c\<lparr>q_params := f\<rparr>) ?q"
    "\<forall>j. map_of f j = (case map_of ps j of Some v \<Rightarrow> param_text v | None \<Rightarrow> map_of (q_params (q_core ?q)) j)"
    using Cons.IH [of ?q] Cons.prems(1,2) kv by auto
  moreover have "apply_params (kv # ps) q = apply_params ps ?q"
    using Param_fresh [OF k(1,2) x k(3)] by (simp add: apply_params_def kv)
  moreover have "map_of ps k = None" using k(4) by (simp add: map_of_eq_None_iff)
  ultimately show ?case using kv x by (intro exI [of _ f]) (auto simp: upd_def update_conv' split: option.splits)
qed

text \<open>The finished select: well built, with every parameter its texts refer to bound to its value.\<close>

definition bound_params :: "(string \<times> param_value) list \<Rightarrow> select \<Rightarrow> bool" where
  "bound_params ps q \<longleftrightarrow> (\<forall>k v. map_of ps k = Some v \<longrightarrow> map_of (q_params (q_core q)) k = param_text v)"

lemma apply_params_ok:
  assumes b: "bound s" and q: "sel_ok et (bs_params s) sc q"
  shows "built [sc] (apply_params (bs_params s) q) \<and> select_text et (bs_params s) sc (apply_params (bs_params s) q) \<and>
    bound_params (bs_params s) (apply_params (bs_params s) q) \<and> q_scope (q_core (apply_params (bs_params s) q)) = sc"
proof -
  obtain K where "K \<subseteq> reserved_names" "st_ok K s" using b by (auto simp: bound_def)
  then have st: "distinct (map fst (bs_params s))" "list_all (\<lambda>(_, v). param_type v \<noteq> []) (bs_params s)"
    "names_ok (bs_params s)" using st_ok_names by (auto simp: st_ok_def)
  have "map_of (q_params (q_core q)) k = None" for k using q by (simp add: sel_ok_def)
  from apply_params_eq [OF st this] obtain f where f: "apply_params (bs_params s) q = upd (\<lambda>c. c\<lparr>q_params := f\<rparr>) q"
    "\<And>k. map_of f k = (case map_of (bs_params s) k of Some v \<Rightarrow> param_text v | None \<Rightarrow> map_of (q_params (q_core q)) k)"
    by blast
  have "built [sc] r \<Longrightarrow> built [sc] (apply_params ps r)" for ps r
    by (induction ps arbitrary: r) (auto simp: apply_params_def intro: built_Param)
  then have "built [sc] (apply_params (bs_params s) q)" using q by (simp add: sel_ok_def)
  moreover have "select_text et (bs_params s) sc (apply_params (bs_params s) q)"
    unfolding f(1) using q by (intro select_text_upd) (auto simp: sel_ok_def dest: select_text_core)
  moreover have "bound_params (bs_params s) (apply_params (bs_params s) q)"
    unfolding f(1) bound_params_def by (simp add: upd_def f(2))
  moreover have "q_scope (q_core (apply_params (bs_params s) q)) = sc"
    unfolding f(1) using q by (simp add: upd_def sel_ok_def)
  ultimately show ?thesis by blast
qed

lemma finish_select_ok:
  assumes et: "et \<in> set eventTypes" and y: "yields et sc s0 (q, conds, sub) s" and r: "finish_select s q conds sub = Inr r"
  shows "built [sc] r \<and> select_text et (bs_params s) sc r \<and> bound_params (bs_params s) r \<and> q_scope (q_core r) = sc"
proof -
  have b: "bound s" using y by (simp add: yields_def)
  then have names: "names_ok (bs_params s)" using st_ok_names by (auto simp: bound_def)
  have "sel_ok et (bs_params s) sc (fold Where conds q)"
    using y by (intro sel_wheres [OF et names]) (auto simp: yields_def)
  note main = apply_params_ok [OF b this]
  show ?thesis
  proof (cases sub)
    case None
    then show ?thesis using main r by (auto simp: finish_select_def split: option.splits)
  next
    case (Some ti)
    obtain tuple inner where ti: "ti = (tuple, inner)" by (cases ti)
    have t: "sql_text et (bs_params s) tuple" "sel_ok et (bs_params s) sc inner" using y Some ti by (auto simp: yields_def)
    let ?q = "apply_params (bs_params s) (fold Where conds q)" and ?i = "apply_params (bs_params s) inner"
    note sub_ok = apply_params_ok [OF b t(2)]
    have "r = WhereIn tuple ?i ?q" using r Some ti by (auto simp: finish_select_def split: option.splits)
    moreover have "built [sc] (WhereIn tuple ?i ?q)"
      using main sub_ok sql_plain [OF et names t(1)] by (intro built_WhereIn) auto
    moreover have "select_text et (bs_params s) sc (WhereIn tuple ?i ?q)"
      using main sub_ok t(1) select_text_core [of et "bs_params s" sc ?q]
      by (cases ?q) (auto simp: WhereIn_def select_text_fail core_text_def cond_ok_def)
    moreover have "bound_params (bs_params s) (WhereIn tuple ?i ?q)"
      using main by (auto simp: bound_params_def WhereIn_def fail_def upd_def)
    ultimately show ?thesis using main by auto
  qed
qed

section \<open>Statements of compiled plans\<close>

lemma build_ok:
  assumes "plan_res p"
  obtains q conds sub s where "build p sc from to = Some (finish_select s q conds sub)"
    "yields (pl_event p) sc empty_bstate (q, conds, sub) s"
proof -
  let ?b = "newBuilder p (rate_base p from to)"
  have "bwp (build_sql ?b sc from to) (yields (pl_event p) sc empty_bstate) empty_bstate"
    using bwp_build [of ?b sc "from" to] assms by (simp add: newBuilder_def)
  then obtain q conds sub s where "build_sql ?b sc from to empty_bstate = Some ((q, conds, sub), s)"
    "yields (pl_event p) sc empty_bstate (q, conds, sub) s"
    by (auto simp: bwp_def split: option.splits)
  then show ?thesis by (intro that) (simp add: build_def)
qed

lemma build_select:
  assumes "plan_res p" and "build p sc from to = Some (Inr r)"
  shows "\<exists>ps. built [sc] r \<and> select_text (pl_event p) ps sc r \<and> bound_params ps r \<and> q_scope (q_core r) = sc"
proof -
  obtain q conds sub s where b: "build p sc from to = Some (finish_select s q conds sub)"
    "yields (pl_event p) sc empty_bstate (q, conds, sub) s" by (rule build_ok [OF assms(1)])
  have et: "pl_event p \<in> set eventTypes" using assms(1) by (simp add: plan_res_def)
  have "finish_select s q conds sub = Inr r" using b(1) assms(2) by simp
  from finish_select_ok [OF et b(2) this] show ?thesis by blast
qed

text \<open>
  C26: Translating a compiled plan never panics: for every range it gives a statement or one of the errors
  on the values of dashboard variables.
\<close>

theorem build_total:
  assumes "Compile clock src opt = Inr p"
  shows "\<exists>r. build p sc from to = Some r"
  by (rule build_ok [OF Compile_plan(1) [OF assms], of sc "from" to]) blast

theorem build_total_witness:
  "\<exists>p r. Compile 0 demo_series demo_options = Inr p \<and> build p demo_scope 0 1 = Some r"
  by (rule demo_plan) (use build_total in blast)

text \<open>The statement of the query \<open>demo_series\<close>.\<close>

lemma demo_texts:
  "\<not> forbidden ''CAST(sum(value_count) AS Nullable(Float64)) AS a0''"
  "\<not> forbidden ''timestamp >= fromUnixTimestamp64Nano({t_from:Int64}) AND timestamp < fromUnixTimestamp64Nano({t_to:Int64})''"
  "\<not> forbidden ''toInt64(intDiv(toInt64(toUnixTimestamp(timestamp)) * 1000, {b_ms:Int64}) * {b_ms:Int64}) AS bk''"
  "\<not> forbidden ''bk''"
  by (simp_all add: forbidden_eval)

lemma metric_event:
  assumes "et \<in> set eventTypes" "et_name et = ''Metric''"
  shows "et = etMetric"
proof -
  have "etMetric \<in> set eventTypes" "et_name etMetric = ''Metric''" by (simp_all add: eventTypes_def etMetric_def)
  then show ?thesis using lookupEventType_name assms by (metis option.inject)
qed

lemma show_zero: "show_nat 0 = ''0''"
  by code_simp

lemma metric_fields:
  "et_timeCol etMetric = ''timestamp''" "et_base etMetric = []" "\<not> et_container etMetric"
  by (simp_all add: etMetric_def)

definition demo_range :: string where
  "demo_range =
     ''timestamp >= fromUnixTimestamp64Nano({t_from:Int64}) AND timestamp < fromUnixTimestamp64Nano({t_to:Int64})''"

definition demo_select_sql :: select where
  "demo_select_sql = Limit (maxPoints + 1) (OrderBy [''bk''] (GroupBy [''bk''] (Columns
     [''toInt64(intDiv(toInt64(toUnixTimestamp(timestamp)) * 1000, {b_ms:Int64}) * {b_ms:Int64}) AS bk'',
      ''CAST(sum(value_count) AS Nullable(Float64)) AS a0''] (From demo_scope Metrics1m))))"

lemma demo_columns:
  assumes "pl_columns (bd_plan b) = [c]" "cl_agg c = si_agg (hd (qu_select demo_parsed))" "cl_type c = TNumber" "bd_rollup b"
  shows "columns_sql b s = Some ([''CAST(sum(value_count) AS Nullable(Float64)) AS a0''], s)"
  using assms by (simp add: columns_sql_def column_sql_def agg_sql_def demo_parsed_def count_map_def ifName_def withCond_def
      b_bind_def b_ret_def show_zero)

lemma demo_main:
  assumes "pl_columns (bd_plan b) = [c]" "cl_agg c = si_agg (hd (qu_select demo_parsed))" "cl_type c = TNumber" "bd_rollup b"
    and "pl_facets (bd_plan b) = []" "pl_kind (bd_plan b) = KindTimeseries" "pl_event (bd_plan b) = etMetric"
  shows "main_select b demo_scope cs s = Some ((demo_select_sql, [], None),
    s\<lparr>bs_params := AList.update ''b_ms'' (PInt (pl_bucket (bd_plan b) sdiv 1000000)) (bs_params s)\<rparr>)"
  using assms demo_columns [OF assms(1-4)]
  by (simp add: main_select_def series_select_def facetExprs_def b_bind_def b_ret_def set_param_def source_def Let_def
      aliases_def aliased_def bucket_sql_def timeMillis_def metric_fields demo_select_sql_def)

lemma demo_filters:
  assumes "pl_event (bd_plan b) = etMetric" "qu_where (pl_query (bd_plan b)) = None"
  shows "filters b t0 t1 empty_bstate = Some ([demo_range], empty_bstate\<lparr>bs_params :=
    [(''t_from'', PInt (to_unix_nano t0)), (''t_to'', PInt (to_unix_nano t1))]\<rparr>)"
  using assms by (simp add: filters_def b_bind_def b_ret_def set_param_def metric_fields empty_bstate_def Let_def demo_range_def)

lemma demo_builds:
  "\<not> isl (Build (apply_params [(''t_from'', PInt i), (''t_to'', PInt j), (''b_ms'', PInt k)] (Where demo_range demo_select_sql)))"
  by (simp add: demo_select_sql_def demo_range_def apply_params_def Param_def paramName_def is_lower_def is_digit_def
      From_def Columns_def GroupBy_def OrderBy_def Limit_def Where_def add_checked_def demo_texts empty_core_def upd_def
      Build_def Metrics1m_def)

lemma demo_statement:
  obtains p q sql params where "Compile 0 demo_series demo_options = Inr p"
    "build p demo_scope (pl_from p) (pl_to p) = Some (Inr q)" "SQL p demo_scope = Some (Inr (sql, params))"
proof (rule demo_plan)
  fix p assume p: "Compile 0 demo_series demo_options = Inr p" "pl_rollup p" "pl_kind p = KindTimeseries"
    "pl_bucket p = 5 * minute" "pl_facets p = []" "qu_where (pl_query p) = None" "et_name (pl_event p) = ''Metric''"
    "map (\<lambda>c. (cl_agg c, cl_type c)) (pl_columns p) = [(si_agg (hd (qu_select demo_parsed)), TNumber)]"
  have "pl_event p \<in> set eventTypes" using Compile_plan(1) [OF p(1)] by (simp add: plan_res_def)
  then have et: "pl_event p = etMetric" using p(7) by (rule metric_event)
  obtain c where c: "pl_columns p = [c]" "cl_agg c = si_agg (hd (qu_select demo_parsed))" "cl_type c = TNumber"
    using p(8) by auto
  let ?b = "newBuilder p (rate_base p (pl_from p) (pl_to p))"
  have b: "pl_columns (bd_plan ?b) = [c]" "bd_rollup ?b" "pl_facets (bd_plan ?b) = []" "pl_kind (bd_plan ?b) = KindTimeseries"
    "pl_event (bd_plan ?b) = etMetric" "qu_where (pl_query (bd_plan ?b)) = None"
    using c p et by (simp_all add: newBuilder_def)
  note step = demo_filters [OF b(5,6)] demo_main [OF b(1) c(2,3) b(2-5)]
  obtain i j k where q: "build p demo_scope (pl_from p) (pl_to p) =
      Some (Inr (apply_params [(''t_from'', PInt i), (''t_to'', PInt j), (''b_ms'', PInt k)] (Where demo_range demo_select_sql)))"
  proof -
    have "build_sql ?b demo_scope (pl_from p) (pl_to p) empty_bstate =
        Some ((demo_select_sql, [demo_range], None), empty_bstate\<lparr>bs_params := [(''t_from'', PInt (to_unix_nano (pl_from p))),
          (''t_to'', PInt (to_unix_nano (pl_to p))), (''b_ms'', PInt (pl_bucket (bd_plan ?b) sdiv 1000000))]\<rparr>)"
      by (simp add: build_sql_def step b_bind_def b_ret_def)
    then show ?thesis by (intro that) (simp add: build_def finish_select_def empty_bstate_def)
  qed
  then show ?thesis
    using demo_builds [of i j k] p(1)
    by (cases "Build (apply_params [(''t_from'', PInt i), (''t_to'', PInt j), (''b_ms'', PInt k)] (Where demo_range demo_select_sql))")
      (auto simp: SQL_def intro: that)
qed

text \<open>
  C2: The SQL of a compiled plan contains no text of the query, of a map key or of a variable: every
  fragment is a concatenation of the fixed texts of the translator, expressions of the whitelist of
  the event type, numbers and parameter references, and each reference names a bound parameter with
  the type of its value.
\<close>

theorem build_fragments:
  assumes "Compile clock src opt = Inr p" and "build p sc from to = Some (Inr q)"
  shows "\<exists>ps. select_text (pl_event p) ps sc q \<and> bound_params ps q"
  using build_select [OF Compile_plan(1) [OF assms(1)] assms(2)] by blast

theorem build_fragments_witness:
  "\<exists>p q ps. Compile 0 demo_series demo_options = Inr p \<and> build p demo_scope (pl_from p) (pl_to p) = Some (Inr q) \<and>
     select_text (pl_event p) ps demo_scope q \<and> bound_params ps q"
  by (rule demo_statement) (use build_fragments in blast)



end
