(* ===== verification/Otlp.thy ===== *)
theory Otlp
  imports GoEncoding
begin

text \<open>
  The OTLP trace messages as the telemetry code sees them, and the helpers of
  \<^verbatim>\<open>internal/otlputil/otlputil.go\<close>. Messages are pointers in Go and the sampler compares the pointers
  of resources and scopes, so those carry an identity; fields nobody reads are kept as one opaque text.
\<close>

section \<open>Messages\<close>

datatype any_value =
    NoValue | StringValue string | BoolValue bool | IntValue int | DoubleValue f64 | BytesValue string
  | ArrayValue "any_value option list" | KvlistValue "(string \<times> any_value option) list"

type_synonym key_values = "(string \<times> any_value option) list"

text \<open>A \<^verbatim>\<open>*Resource\<close> or \<^verbatim>\<open>*InstrumentationScope\<close> that is not nil: the identity of the object and its contents.\<close>

record resource =
  re_ptr :: nat
  re_attributes :: key_values

record otlp_scope =
  sco_ptr :: nat
  sco_rest :: string

record span_msg =
  sp_traceId :: string
  sp_spanId :: string
  sp_traceState :: string
  sp_name :: string
  sp_start :: nat
  sp_end :: nat
  sp_status :: int
  sp_attributes :: key_values
  sp_rest :: string

record scope_spans =
  ss_scope :: "otlp_scope option"
  ss_schemaUrl :: string
  ss_spans :: "span_msg list"

record resource_spans =
  rs_resource :: "resource option"
  rs_schemaUrl :: string
  rs_scopes :: "scope_spans list"

type_synonym trace_request = "resource_spans list"

definition rs_attributes :: "resource_spans \<Rightarrow> key_values" where
  "rs_attributes rs = (case rs_resource rs of None \<Rightarrow> [] | Some r \<Rightarrow> re_attributes r)"

text \<open>The spans of a request with their groups, in the order the nested loops visit them.\<close>

type_synonym placed_span = "resource_spans \<times> scope_spans \<times> span_msg"

definition request_spans :: "trace_request \<Rightarrow> placed_span list" where
  "request_spans req =
     concat (map (\<lambda>rs. concat (map (\<lambda>ss. map (\<lambda>sp. (rs, ss, sp)) (ss_spans ss)) (rs_scopes rs))) req)"

section \<open>Attributes\<close>

fun anyValueJSON :: "any_value \<Rightarrow> json" where
  "anyValueJSON NoValue = JNull"
| "anyValueJSON (StringValue s) = JString s"
| "anyValueJSON (BoolValue b) = JBool b"
| "anyValueJSON (IntValue n) = JInt n"
| "anyValueJSON (DoubleValue x) = JFloat x"
| "anyValueJSON (BytesValue b) = JString (base64 b)"
| "anyValueJSON (ArrayValue vs) = JArray (map (\<lambda>v. case v of None \<Rightarrow> JNull | Some x \<Rightarrow> anyValueJSON x) vs)"
| "anyValueJSON (KvlistValue kvs) =
     JObject (map (\<lambda>(k, v). (k, case v of None \<Rightarrow> JNull | Some x \<Rightarrow> anyValueJSON x)) kvs)"

definition AnyValueString :: "any_value option \<Rightarrow> string" where
  "AnyValueString v =
     (case v of
        None \<Rightarrow> []
      | Some (StringValue s) \<Rightarrow> s
      | Some (BoolValue b) \<Rightarrow> if b then ''true'' else ''false''
      | Some (IntValue n) \<Rightarrow> show_int n
      | Some (DoubleValue x) \<Rightarrow> format_g x
      | Some (BytesValue b) \<Rightarrow> base64 b
      | Some x \<Rightarrow> (case json_text (anyValueJSON x) of None \<Rightarrow> [] | Some t \<Rightarrow> t))"

text \<open>Later duplicates win in both.\<close>

definition AttrsToMap :: "key_values \<Rightarrow> string \<rightharpoonup> string" where
  "AttrsToMap kvs = map_of (rev (map (\<lambda>(k, v). (k, AnyValueString v)) kvs))"

definition FindAttr :: "key_values \<Rightarrow> string \<Rightarrow> any_value option" where
  "FindAttr kvs key = (case find (\<lambda>(k, v). k = key) (rev kvs) of None \<Rightarrow> None | Some (_, v) \<Rightarrow> v)"

definition AttrString :: "key_values \<Rightarrow> string \<Rightarrow> string" where
  "AttrString kvs key = AnyValueString (FindAttr kvs key)"

section \<open>Identifiers and partition keys\<close>

definition HexID :: "string \<Rightarrow> string" where
  "HexID b = (if list_ex (\<lambda>c. byte c \<noteq> 0) b then hex_encode b else [])"

definition first_attr :: "string \<Rightarrow> resource option list \<Rightarrow> string option" where
  "first_attr key rs =
     find (\<lambda>v. v \<noteq> []) (map (\<lambda>r. AttrString (case r of None \<Rightarrow> [] | Some x \<Rightarrow> re_attributes x) key) rs)"

definition resourceKey :: "string \<Rightarrow> resource option list \<Rightarrow> string" where
  "resourceKey tenant rs =
     (case first_attr ''host.id'' rs of
        Some h \<Rightarrow> tenant @ ''/'' @ h
      | None \<Rightarrow>
          (case first_attr ''service.name'' rs of
             Some s \<Rightarrow> tenant @ ''/'' @ s
           | None \<Rightarrow> tenant @ ''/''))"

definition TracesPartitionKey :: "string \<Rightarrow> trace_request \<Rightarrow> string" where
  "TracesPartitionKey tenant req =
     (case request_spans req of
        [] \<Rightarrow> tenant @ ''/''
      | (_, _, sp) # _ \<Rightarrow> tenant @ ''/'' @ hex_encode (sp_traceId sp))"

lemma AttrString_map:
  "AttrString kvs key = (case AttrsToMap kvs key of None \<Rightarrow> [] | Some s \<Rightarrow> s)"
proof -
  have "AnyValueString (case find (\<lambda>(k, v). k = key) xs of None \<Rightarrow> None | Some (_, v) \<Rightarrow> v) =
      (case map_of (map (\<lambda>(k, v). (k, AnyValueString v)) xs) key of None \<Rightarrow> [] | Some s \<Rightarrow> s)" for xs
    by (induction xs) (auto simp: AnyValueString_def)
  then show ?thesis by (simp add: AttrString_def FindAttr_def AttrsToMap_def rev_map)
qed

end
