(* ===== verification/GoMath.thy ===== *)
theory GoMath
  imports GoFloat
begin

text \<open>
  Functions of Go's \<^verbatim>\<open>math\<close> package and the built-in \<^verbatim>\<open>min\<close> and \<^verbatim>\<open>max\<close> on \<^verbatim>\<open>float64\<close>, on top of the
  rounding arithmetic of \<^verbatim>\<open>GoFloat\<close>.
\<close>

fun is_neg_zero :: "f64 \<Rightarrow> bool" where
  "is_neg_zero (FNum s m) = (s \<and> m = 0)"
| "is_neg_zero _ = False"

definition f_max :: "f64 \<Rightarrow> f64 \<Rightarrow> f64" where
  "f_max x y =
     (if x = FInf False \<or> y = FInf False then FInf False
      else if is_nan x \<or> is_nan y then FNaN
      else if f_eq x (FNum False 0) \<and> f_eq x y then (if is_neg_zero x then y else x)
      else if f_gt x y then x else y)"

definition f_min :: "f64 \<Rightarrow> f64 \<Rightarrow> f64" where
  "f_min x y =
     (if x = FInf True \<or> y = FInf True then FInf True
      else if is_nan x \<or> is_nan y then FNaN
      else if f_eq x (FNum False 0) \<and> f_eq x y then (if is_neg_zero x then x else y)
      else if f_lt x y then x else y)"

text \<open>\<^verbatim>\<open>math.Round\<close>: half away from zero. The integers next to a \<^verbatim>\<open>float64\<close> are themselves representable.\<close>

fun f_round :: "f64 \<Rightarrow> f64" where
  "f_round (FNum s m) = FNum s (of_int \<lfloor>m + 1 / 2\<rfloor>)"
| "f_round x = x"

text \<open>The conversion \<^verbatim>\<open>uint64(f)\<close> of a value in the uint64 range.\<close>

fun f_to_uint :: "f64 \<Rightarrow> nat" where
  "f_to_uint (FNum s m) = (if s then 0 else nat \<lfloor>m\<rfloor>)"
| "f_to_uint _ = 2 ^ 63"

definition f_const :: "rat \<Rightarrow> f64" where
  "f_const r = of_exact False r"

text \<open>
  \<^verbatim>\<open>math.Pow(x, n)\<close> for \<open>1/2 \<le> x < 1\<close> and an integral exponent \<open>n \<ge> 2\<close>: the loop squares the fraction
  \<open>x1\<close> with its binary exponent \<open>xe\<close> and multiplies the selected powers into \<open>a1\<close> and \<open>ae\<close>.
\<close>

fun pow_loop :: "nat \<Rightarrow> f64 \<Rightarrow> int \<Rightarrow> f64 \<Rightarrow> int \<Rightarrow> f64 \<times> int" where
  "pow_loop i x1 xe a1 ae =
     (if i = 0 then (a1, ae)
      else
        let (a1', ae') = (if odd i then (f_mul a1 x1, ae + xe) else (a1, ae));
            x2 = f_mul x1 x1;
            (x3, xe3) = (if f_lt x2 (FNum False (1 / 2)) then (f_add x2 x2, 2 * xe - 1) else (x2, 2 * xe))
        in pow_loop (i div 2) x3 xe3 a1' ae')"

declare pow_loop.simps [simp del]

fun f_ldexp :: "f64 \<Rightarrow> int \<Rightarrow> f64" where
  "f_ldexp (FNum s m) e = round64 s (m * 2 powi e)"
| "f_ldexp x e = x"

definition f_pow :: "f64 \<Rightarrow> nat \<Rightarrow> f64" where
  "f_pow x n =
     (if n = 0 then FNum False 1 else if n = 1 then x
      else case pow_loop n x 0 (FNum False 1) 0 of (a, e) \<Rightarrow> f_ldexp a e)"

section \<open>Rounding at most doubles\<close>

text \<open>The magnitude of a value that an operation returned is never negative.\<close>

fun f_wf :: "f64 \<Rightarrow> bool" where
  "f_wf (FNum s m) = (0 \<le> m)"
| "f_wf _ = True"

lemma round_half_even_le: "0 \<le> x \<Longrightarrow> of_int (round_half_even x) \<le> 2 * x"
proof -
  assume x: "0 \<le> x"
  let ?f = "\<lfloor>x\<rfloor>"
  have f: "0 \<le> ?f" "of_int ?f \<le> x" using x by simp_all
  show ?thesis
  proof (cases "x - of_int ?f < 1 / 2")
    case True
    then have "round_half_even x = ?f" by (simp add: round_half_even_def Let_def)
    then show ?thesis using f x by linarith
  next
    case False
    moreover have "0 \<le> (of_int ?f :: rat)" using f(1) by (simp only: of_int_0_le_iff)
    ultimately have "of_int ?f + 1 \<le> 2 * x" by linarith
    moreover have "of_int (round_half_even x) \<le> (of_int ?f + 1 :: rat)" by (simp add: round_half_even_def Let_def)
    ultimately show ?thesis by linarith
  qed
qed

lemma round_mag_le: "0 \<le> r \<Longrightarrow> round_mag r \<le> 2 * r"
proof -
  assume r: "0 \<le> r"
  let ?u = "2 powi ulp_exp r :: rat"
  have u: "0 < ?u" by simp
  have "of_int (round_half_even (r / ?u)) * ?u \<le> 2 * (r / ?u) * ?u"
    using r u round_half_even_le [of "r / ?u"] by (intro mult_right_mono) simp_all
  then show ?thesis using r u by (simp add: round_mag_def)
qed

lemma round64_small:
  assumes "0 \<le> r" and "r < 2 ^ 1000"
  shows "round64 s r = FNum s (round_mag r)" and "round_mag r \<le> 2 * r"
proof -
  have "2 * r < 2 * 2 ^ 1000" using assms(2) by simp
  also have "\<dots> \<le> (2 ^ 1024 :: rat)" by simp
  finally show "round64 s r = FNum s (round_mag r)"
    using round_mag_le [OF assms(1)] by (simp add: round64_def Let_def)
  show "round_mag r \<le> 2 * r" by (rule round_mag_le [OF assms(1)])
qed

lemma round_mag_nonneg: "0 \<le> round_mag r"
proof (cases "r \<le> 0")
  case False
  then have "0 \<le> \<lfloor>r / 2 powi ulp_exp r\<rfloor>" by simp
  then have "0 \<le> round_half_even (r / 2 powi ulp_exp r)" by (simp add: round_half_even_def Let_def)
  then show ?thesis using False by (simp add: round_mag_def)
qed (simp add: round_mag_def)

end
