(* ===== verification/TraceWeights.thy ===== *)
theory TraceWeights
  imports Otlp GoMath
begin

text \<open>
  Sampling probabilities of spans: \<^verbatim>\<open>internal/apm/sampling.go\<close> (what the processor reads from the
  trace state and the attributes) and \<^verbatim>\<open>internal/tailsampling/weights.go\<close> (the 56-bit thresholds and
  randomness of consistent probability sampling, and the rewriting of the trace state). The hash of
  the third-party package xxhash is the parameter \<open>xx\<close>.
\<close>

section \<open>Probabilities of a trace state\<close>

abbreviation f_zero :: f64 where "f_zero \<equiv> FNum False 0"
abbreviation f_one :: f64 where "f_one \<equiv> FNum False 1"

definition minProbability :: f64 where
  "minProbability = f_const (1 / 1000000)"

definition MinProbability :: f64 where
  "MinProbability = minProbability"

definition clampP :: "f64 \<Rightarrow> f64" where
  "clampP p = f_min f_one (f_max minProbability p)"

definition two56 :: f64 where
  "two56 = f_of_int (2 ^ 56)"

definition th_probability :: "string \<Rightarrow> f64 option" where
  "th_probability sv =
     (if sv = [] \<or> length sv > 14 then None
      else case parse_hex64 (sv @ replicate (14 - length sv) CHR ''0'') of
        None \<Rightarrow> None
      | Some t \<Rightarrow> Some (f_sub f_one (f_div (f_of_int (int t)) two56)))"

definition p_probability :: "string \<Rightarrow> f64 option" where
  "p_probability sv =
     (case parse_int64 sv of
        None \<Rightarrow> None
      | Some n \<Rightarrow>
          if n < 0 \<or> n > 63 then None
          else if n = 63 then Some f_zero
          else Some (f_ldexp f_one (- n)))"

text \<open>The sub-keys of an \<^verbatim>\<open>ot\<close> entry; \<open>found\<close> is the value of the last valid \<^verbatim>\<open>p\<close> key so far.\<close>

fun ot_subs :: "f64 option \<Rightarrow> string list \<Rightarrow> f64 option" where
  "ot_subs found [] = found"
| "ot_subs found (sub # subs) =
     (case cut_byte sub CHR '':'' of (sk, sv, ok) \<Rightarrow>
        if \<not> ok then ot_subs found subs
        else if sk = ''th'' then
          (case th_probability sv of Some p \<Rightarrow> Some p | None \<Rightarrow> ot_subs found subs)
        else if sk = ''p'' then
          (case p_probability sv of Some p \<Rightarrow> ot_subs (Some p) subs | None \<Rightarrow> ot_subs found subs)
        else ot_subs found subs)"

fun ot_entries :: "string list \<Rightarrow> f64 option" where
  "ot_entries [] = None"
| "ot_entries (entry # es) =
     (case cut_byte (trim_space entry) CHR ''='' of (k, v, ok) \<Rightarrow>
        if \<not> ok \<or> k \<noteq> ''ot'' then ot_entries es
        else case ot_subs None (split_on CHR '';'' v) of
          Some p \<Rightarrow> Some p
        | None \<Rightarrow> ot_entries es)"

definition probabilityFromTraceState :: "string \<Rightarrow> f64 option" where
  "probabilityFromTraceState ts = (if ts = [] then None else ot_entries (split_on CHR '','' ts))"

text \<open>An attribute map is nil in Go for some callers; reading it is reading the empty map.\<close>

definition ratio_of :: "(string \<rightharpoonup> string) \<Rightarrow> f64 option" where
  "ratio_of attrs =
     (case attrs ''sampling.ratio'' of
        None \<Rightarrow> None
      | Some v \<Rightarrow>
          if v = [] then None
          else case ParseFloat v of
            None \<Rightarrow> None
          | Some p \<Rightarrow> if f_gt p f_zero \<and> f_le p f_one \<and> \<not> is_nan p then Some p else None)"

definition attr_ratio :: "(string \<rightharpoonup> string) \<Rightarrow> (string \<rightharpoonup> string) \<Rightarrow> f64 option" where
  "attr_ratio spanAttrs resAttrs = (case ratio_of spanAttrs of Some p \<Rightarrow> Some p | None \<Rightarrow> ratio_of resAttrs)"

definition SampleWeight :: "string \<Rightarrow> (string \<rightharpoonup> string) \<Rightarrow> (string \<rightharpoonup> string) \<Rightarrow> f64" where
  "SampleWeight ts spanAttrs resAttrs =
     (case probabilityFromTraceState ts of
        Some p \<Rightarrow> if f_eq p f_zero then f_zero else f_div f_one (clampP p)
      | None \<Rightarrow>
          (case attr_ratio spanAttrs resAttrs of Some p \<Rightarrow> f_div f_one (clampP p) | None \<Rightarrow> f_one))"

definition HeadProbability :: "string \<Rightarrow> (string \<rightharpoonup> string) \<Rightarrow> (string \<rightharpoonup> string) \<Rightarrow> f64 \<times> bool" where
  "HeadProbability ts spanAttrs resAttrs =
     (case probabilityFromTraceState ts of
        Some p \<Rightarrow> (p, True)
      | None \<Rightarrow> (case attr_ratio spanAttrs resAttrs of Some p \<Rightarrow> (p, False) | None \<Rightarrow> (f_one, False)))"

section \<open>Thresholds and randomness\<close>

definition maxThreshold :: nat where
  "maxThreshold = 2 ^ 56"

definition Threshold :: "f64 \<Rightarrow> nat" where
  "Threshold p =
     (if f_ge p f_one \<or> is_nan p then 0
      else if f_le p f_zero then maxThreshold
      else
        let t = f_round (f_mul (f_sub f_one p) two56)
        in if f_ge t two56 then maxThreshold - 1 else f_to_uint t)"

definition EncodeThreshold :: "nat \<Rightarrow> string" where
  "EncodeThreshold t =
     (if t = 0 then ''0''
      else
        let u = (if t \<ge> maxThreshold then maxThreshold - 1 else t); s = show_hex u
        in rev (dropWhile (\<lambda>c. c = CHR ''0'') (rev (replicate (14 - length s) CHR ''0'' @ s))))"

fun sub_value :: "string \<Rightarrow> string list \<Rightarrow> string option" where
  "sub_value key [] = None"
| "sub_value key (sub # subs) =
     (case cut_byte sub CHR '':'' of (sk, sv, ok) \<Rightarrow> if ok \<and> sk = key then Some sv else sub_value key subs)"

fun entry_value :: "string \<Rightarrow> string list \<Rightarrow> string option" where
  "entry_value key [] = None"
| "entry_value key (entry # es) =
     (case cut_byte (trim_space entry) CHR ''='' of (k, v, ok) \<Rightarrow>
        if \<not> ok \<or> k \<noteq> ''ot'' then entry_value key es
        else case sub_value key (split_on CHR '';'' v) of Some x \<Rightarrow> Some x | None \<Rightarrow> entry_value key es)"

definition otSubKey :: "string \<Rightarrow> string \<Rightarrow> string option" where
  "otSubKey traceState key = entry_value key (split_on CHR '','' traceState)"

definition hashRandomness :: "(string \<Rightarrow> nat) \<Rightarrow> string \<Rightarrow> nat" where
  "hashRandomness xx traceID = xx (''openlog-tail-sampling/v1:'' @ traceID) div 2 ^ 8"

definition big_endian :: "string \<Rightarrow> nat" where
  "big_endian bs = foldl (\<lambda>a c. a * 256 + byte c) 0 bs"

definition traceRandomness :: "(string \<Rightarrow> nat) \<Rightarrow> string \<Rightarrow> string \<Rightarrow> nat" where
  "traceRandomness xx traceID traceState =
     (let fromID = (if length traceID \<noteq> 16 then hashRandomness xx traceID
                    else big_endian (drop 8 traceID) mod maxThreshold)
      in case otSubKey traceState ''rv'' of
           None \<Rightarrow> fromID
         | Some rv \<Rightarrow>
             if length rv = 14 then (case parse_hex64 rv of Some v \<Rightarrow> v | None \<Rightarrow> fromID) else fromID)"

section \<open>Rewriting the trace state\<close>

text \<open>One entry of the old state: what it adds to the other vendors' entries and to the \<^verbatim>\<open>ot\<close> sub-keys.\<close>

definition kept_sub :: "string \<Rightarrow> bool" where
  "kept_sub sub = (case cut_byte sub CHR '':'' of (sk, _, ok) \<Rightarrow> ok \<and> sk \<noteq> ''th'' \<and> sk \<noteq> ''p'')"

definition split_entry :: "string \<Rightarrow> string list \<times> string list" where
  "split_entry entry0 =
     (let entry = trim_space entry0 in
      if entry = [] then ([], [])
      else case cut_byte entry CHR ''='' of (k, v, ok) \<Rightarrow>
        if \<not> ok \<or> k \<noteq> ''ot'' then ([entry], [])
        else ([], filter kept_sub (split_on CHR '';'' v)))"

definition other_entries :: "string \<Rightarrow> string list" where
  "other_entries ts = concat (map (\<lambda>e. fst (split_entry e)) (split_on CHR '','' ts))"

definition kept_subs :: "string \<Rightarrow> string list" where
  "kept_subs ts = concat (map (\<lambda>e. snd (split_entry e)) (split_on CHR '','' ts))"

definition WithThreshold :: "string \<Rightarrow> string \<Rightarrow> string" where
  "WithThreshold ts th =
     (let others = take 31 (other_entries ts);
          out = ''ot='' @ join_with '';'' ((''th:'' @ th) # kept_subs ts)
      in if others = [] then out else out @ '','' @ join_with '','' others)"

section \<open>Thresholds are read back exactly\<close>

lemma strip_right:
  "rev (dropWhile P (rev w)) @ drop (length (dropWhile P (rev w))) w = w"
proof -
  have "rev (dropWhile P (rev w)) = take (length (dropWhile P (rev w))) w"
    by (simp add: dropWhile_eq_drop rev_drop)
  then show ?thesis by simp
qed

lemma strip_zeros:
  fixes w :: string
  defines "v \<equiv> rev (dropWhile (\<lambda>c. c = CHR ''0'') (rev w))"
  shows "v @ replicate (length w - length v) CHR ''0'' = w" and "length v \<le> length w" and "set v \<subseteq> set w"
proof -
  let ?n = "length (dropWhile (\<lambda>c. c = CHR ''0'') (rev w))"
  have "drop ?n w = rev (takeWhile (\<lambda>c. c = CHR ''0'') (rev w))"
    by (metis rev_append rev_rev_ident takeWhile_dropWhile_id append_eq_conv_conj length_rev)
  moreover have "takeWhile (\<lambda>c. c = CHR ''0'') (rev w) = replicate (length w - ?n) CHR ''0''"
  proof (rule replicate_eqI)
    show "length (takeWhile (\<lambda>c. c = CHR ''0'') (rev w)) = length w - ?n"
      by (metis diff_add_inverse2 length_append length_rev takeWhile_dropWhile_id)
  qed (auto dest: set_takeWhileD)
  ultimately show "v @ replicate (length w - length v) CHR ''0'' = w"
    using strip_right [of "\<lambda>c. c = CHR ''0''" w] by (simp add: v_def)
  show "length v \<le> length w" using length_dropWhile_le [of _ "rev w"] by (simp add: v_def)
  show "set v \<subseteq> set w" by (auto simp: v_def dest: set_dropWhileD)
qed

lemma zero_is_hex [simp]: "is_hex CHR ''0''"
  by (simp add: is_hex_def is_digit_def)

definition hex14 :: "nat \<Rightarrow> string" where
  "hex14 t = (let s = show_hex t in replicate (14 - length s) CHR ''0'' @ s)"

lemma hex14_ok:
  assumes "t < maxThreshold"
  shows "length (hex14 t) = 14" and "hex_digits_val 0 (hex14 t) = t" and "list_all is_hex (hex14 t)"
proof -
  have "length (show_hex t) \<le> 14" using assms by (intro length_show_hex) (auto simp: maxThreshold_def)
  then show "length (hex14 t) = 14" by (simp add: hex14_def Let_def)
  show "hex_digits_val 0 (hex14 t) = t" by (simp add: hex14_def Let_def hex_leading_zeros show_hex_value)
  show "list_all is_hex (hex14 t)" using show_hex_is_hex by (auto simp: hex14_def Let_def list_all_iff)
qed

lemma EncodeThreshold_ok:
  assumes "t < maxThreshold"
  shows "EncodeThreshold t @ replicate (14 - length (EncodeThreshold t)) CHR ''0'' = hex14 t" (is ?pad)
    and "length (EncodeThreshold t) \<le> 14" and "EncodeThreshold t \<noteq> []" and "list_all is_hex (EncodeThreshold t)"
proof -
  note h = hex14_ok [OF assms]
  let ?v = "rev (dropWhile (\<lambda>c. c = CHR ''0'') (rev (hex14 t)))"
  show p: ?pad
  proof (cases "t = 0")
    case True
    then show ?thesis by (simp add: EncodeThreshold_def hex14_def show_hex.simps hex_char_def numeral_eq_Suc) code_simp
  next
    case False
    then have "EncodeThreshold t = ?v" using assms by (simp add: EncodeThreshold_def hex14_def Let_def)
    then show ?thesis using strip_zeros(1) [of "hex14 t"] h by simp
  qed
  have e: "EncodeThreshold t = (if t = 0 then ''0'' else ?v)"
    using assms by (simp add: EncodeThreshold_def hex14_def Let_def)
  then show "length (EncodeThreshold t) \<le> 14" using strip_zeros(2) [of "hex14 t"] h by simp
  show "list_all is_hex (EncodeThreshold t)"
    using e strip_zeros(3) [of "hex14 t"] h by (auto simp: list_all_iff)
  show "EncodeThreshold t \<noteq> []"
  proof
    assume n: "EncodeThreshold t = []"
    then have "t \<noteq> 0" by (cases "t = 0") (simp_all add: EncodeThreshold_def)
    moreover have "hex14 t = replicate 14 CHR ''0''" using p n by simp
    then have "t = 0" using h(2) hex_trailing_zeros [of 0 "[]" 14] by simp
    ultimately show False by simp
  qed
qed

lemma th_read_back:
  assumes "t < maxThreshold"
  shows "th_probability (EncodeThreshold t) = Some (f_sub f_one (f_div (f_of_int (int t)) two56))"
proof -
  note e = EncodeThreshold_ok [OF assms] and h = hex14_ok [OF assms]
  have "t < 2 ^ 64" using assms by (simp add: maxThreshold_def)
  then have "parse_hex64 (hex14 t) = Some t" using h by (auto simp: parse_hex64_def)
  then show ?thesis using e by (simp add: th_probability_def)
qed

lemma two56_value: "two56 = FNum False (2 ^ 56)"
proof -
  have one: "floorlog 2 1 = 1" by (simp add: floorlog_def)
  have "nat (2 ^ 56) = 1 * 2 ^ 56" by simp
  then have "floorlog 2 (nat (2 ^ 56)) = 57" using floorlog_power [of 1 2 56] one by simp
  moreover have "floorlog 2 (nat 1) = 1" by (simp add: floorlog_def)
  ultimately have "ilog2 (of_int (2 ^ 56)) = 56" by (simp only: ilog2_def quotient_of_int Let_def prod.case) simp
  then have "ulp_exp (of_int (2 ^ 56)) = 4" by (simp add: ulp_exp_def)
  then have "round_mag (of_int (2 ^ 56)) = of_int (2 ^ 56)"
    by (intro round_mag_exact [where k = "2 ^ 52"]) simp_all
  then show ?thesis by (simp add: two56_def f_of_int_def of_exact_def round64_def Let_def)
qed

lemma Threshold_below:
  assumes "f_lt f_zero p" and "f_wf p"
  shows "Threshold p < maxThreshold"
proof (cases "f_ge p f_one \<or> is_nan p")
  case True
  then show ?thesis by (simp add: Threshold_def maxThreshold_def)
next
  case False
  then obtain m where p: "p = FNum False m" "0 < m" "m < 1"
    using assms by (cases p) (auto simp: f_le_def split: if_splits)
  let ?a = "round_mag (1 - m)" and ?b = "round_mag (round_mag (1 - m) * 2 ^ 56)"
  have a: "f_sub f_one p = FNum False ?a" "?a \<le> 2"
    using p round64_small(1) [of "1 - m" False] round64_small(2) [of "1 - m"] by (simp_all add: f_sub_def of_exact_def)
  have m: "0 \<le> ?a * 2 ^ 56" using round_mag_nonneg by simp
  have "?a * 2 ^ 56 \<le> 2 * 2 ^ 56" using a(2) by simp
  then have "?a * 2 ^ 56 < 2 ^ 1000" by (rule le_less_trans) simp
  then have "f_mul (f_sub f_one p) two56 = FNum False ?b"
    using round64_small(1) [OF m] by (simp add: a(1) two56_value)
  then have t: "f_round (f_mul (f_sub f_one p) two56) = FNum False (of_int \<lfloor>?b + 1 / 2\<rfloor>)" by simp
  have nl: "\<not> f_le p f_zero" using assms p by (simp add: f_le_def)
  show ?thesis
  proof (cases "f_ge (f_round (f_mul (f_sub f_one p) two56)) two56")
    case True
    then show ?thesis using False nl by (simp add: Threshold_def Let_def maxThreshold_def)
  next
    case ge: False
    have "\<not> f_ge (FNum False (of_int \<lfloor>?b + 1 / 2\<rfloor>)) (FNum False (2 ^ 56))" 
      using ge unfolding t unfolding two56_value .
    then have "(of_int \<lfloor>?b + 1 / 2\<rfloor> :: rat) < of_int (2 ^ 56)" by (simp only: f_le_fval fval.simps not_le if_False) simp
    then have "\<lfloor>?b + 1 / 2\<rfloor> < 2 ^ 56" by (simp only: of_int_less_iff)
    moreover have "z < 2 ^ 56 \<Longrightarrow> nat z < maxThreshold" for z :: int by (simp add: maxThreshold_def)
    ultimately have "nat \<lfloor>?b + 1 / 2\<rfloor> < maxThreshold" by blast
    moreover have "f_to_uint (f_round (f_mul (f_sub f_one p) two56)) = nat \<lfloor>?b + 1 / 2\<rfloor>" by (simp add: t)
    ultimately show ?thesis using False nl ge by (simp add: Threshold_def Let_def)
  qed
qed

section \<open>White space around entries\<close>

definition solid :: "char \<Rightarrow> bool" where
  "solid c \<longleftrightarrow> byte c < 128 \<and> \<not> is_space_rune (byte c)"

lemma full_rune:
  assumes "rune_len t = length t" and "t \<noteq> []"
  shows "(\<exists>a. t = [a] \<and> byte a < 128) \<or> list_all (\<lambda>c. 128 \<le> byte c) t"
  using assms by (cases t) (auto simp: rune_len_def in_range_def is_cont_def split: list.splits if_splits)

lemma trail_len_soft:
  assumes "0 < trail_len s"
  shows "trail_len s \<le> length s" and "list_all (\<lambda>c. \<not> solid c) (drop (length s - trail_len s) s)"
proof -
  let ?k = "trail_len s" and ?t = "drop (length s - trail_len s) s"
  from assms have k: "?k \<le> length s \<and> rune_len ?t = ?k \<and> space_len ?t = ?k"
    by (auto simp: trail_len_def find_Some_iff split: option.splits if_splits)
  then show "?k \<le> length s" by simp
  have r: "rune_len ?t = length ?t" "space_len ?t \<noteq> 0" "?t \<noteq> []" using k assms by auto
  from full_rune [OF r(1,3)] show "list_all (\<lambda>c. \<not> solid c) ?t"
  proof
    assume "\<exists>a. ?t = [a] \<and> byte a < 128"
    then obtain a where a: "?t = [a]" "byte a < 128" by blast
    have "space_len [a] \<noteq> 0" using r(2) unfolding a(1) .
    then have "is_space_rune (byte a)"
      using a(2) by (auto simp: space_len_def decode_rune_def rune_len_def split: if_splits)
    then show ?thesis unfolding a(1) by (simp add: solid_def)
  next
    assume "list_all (\<lambda>c. 128 \<le> byte c) ?t"
    then show ?thesis by (auto simp: list_all_iff solid_def)
  qed
qed

lemma trim_right_solid:
  assumes "list_all solid q"
  shows "\<exists>r'. trim_right_fuel n (q @ r) = q @ r'"
proof (induction n arbitrary: r)
  case (Suc n)
  show ?case
  proof (cases "trail_len (q @ r) > 0")
    case True
    let ?s = "q @ r" and ?k = "trail_len (q @ r)"
    have k: "?k \<le> length r"
    proof (rule ccontr)
      assume c: "\<not> ?k \<le> length r"
      then have l: "length ?s - ?k < length q" using True trail_len_soft(1) [OF True] by simp
      have "hd (drop (length ?s - ?k) ?s) = q ! (length ?s - ?k)"
        using l by (subst hd_drop_conv_nth) (auto simp: nth_append)
      then have "q ! (length ?s - ?k) \<in> set (drop (length ?s - ?k) ?s)"
        using l by (metis drop_eq_Nil2 hd_in_set leD length_append trans_less_add1)
      then show False using trail_len_soft(2) [OF True] assms l by (metis list_all_iff nth_mem)
    qed
    then have "take (length ?s - ?k) ?s = q @ take (length r - ?k) r" by simp
    then show ?thesis using Suc True by simp
  qed simp
qed simp

lemma trim_space_solid:
  assumes "list_all solid q" and "q \<noteq> []"
  shows "\<exists>r'. trim_space (q @ r) = q @ r'"
proof -
  obtain c cs where c: "q = c # cs" "solid c" using assms by (cases q) auto
  have "space_len (q @ r) = 0" using c by (auto simp: space_len_def decode_rune_def rune_len_def solid_def Let_def)
  then have "trim_left_fuel n (q @ r) = q @ r" for n by (cases n) simp_all
  then show ?thesis using trim_right_solid [OF assms(1)] by (simp add: trim_space_def)
qed

lemma trim_space_id:
  assumes "list_all solid q" and "q \<noteq> []"
  shows "trim_space q = q"
proof -
  have "length (trim_right_fuel n s) \<le> length s" for n s
  proof (induction n arbitrary: s)
    case (Suc n)
    then show ?case using Suc.IH [of "take (length s - trail_len s) s"] by auto
  qed simp
  moreover have "length (trim_left_fuel n s) \<le> length s" for n s
  proof (induction n arbitrary: s)
    case (Suc n)
    then show ?case using Suc.IH [of "drop (space_len s) s"] by auto
  qed simp
  ultimately have "length (trim_space q) \<le> length q" unfolding trim_space_def by (meson le_trans)
  then show ?thesis using trim_space_solid [OF assms, of "[]"] by auto
qed

lemma trim_right_subset: "set (trim_right_fuel n s) \<subseteq> set s"
  by (induction n arbitrary: s) (auto, meson in_set_takeD subsetD)

lemma trim_left_subset: "set (trim_left_fuel n s) \<subseteq> set s"
  by (induction n arbitrary: s) (auto, meson in_set_dropD subsetD)

lemma trim_space_subset: "set (trim_space s) \<subseteq> set s"
  using trim_right_subset trim_left_subset unfolding trim_space_def by blast

section \<open>The rewritten trace state\<close>

lemma cut_byte_subset: "cut_byte s c = (k, v, ok) \<Longrightarrow> set k \<subseteq> set s \<and> set v \<subseteq> set s"
  by (auto simp: cut_byte_def dest: in_set_takeD in_set_dropD split: option.splits)

lemma cut_byte_append: "c \<notin> set p \<Longrightarrow> cut_byte (p @ c # r) c = (p, r, True)"
  by (simp add: cut_byte_def index_byte_append)

lemma split_on_subset: "x \<in> set (split_on c s) \<Longrightarrow> set x \<subseteq> set s"
proof (induction s arbitrary: x)
  case (Cons a s)
  then show ?case by (cases "split_on c s") (fastforce split: if_splits)+
qed simp

lemma split_entry_subset:
  assumes "x \<in> set (fst (split_entry e)) \<union> set (snd (split_entry e))"
  shows "set x \<subseteq> set e"
proof -
  obtain k v ok where c: "cut_byte (trim_space e) CHR ''='' = (k, v, ok)" by (cases "cut_byte (trim_space e) CHR ''=''")
  have "x = trim_space e \<or> x \<in> set (split_on CHR '';'' v)"
    using assms by (auto simp: split_entry_def Let_def c split: if_splits)
  then show ?thesis
    using split_on_subset [of x _ v] cut_byte_subset [OF c] trim_space_subset [of e] by blast
qed

lemma kept_subs_no_comma: "x \<in> set (kept_subs ts) \<Longrightarrow> CHR '','' \<notin> set x"
  using split_entry_subset split_on_parts unfolding kept_subs_def by fastforce

lemma hex_solid: "is_hex c \<Longrightarrow> solid c \<and> c \<noteq> CHR '';'' \<and> c \<noteq> CHR '','' \<and> c \<noteq> CHR '':''"
  by (auto simp: is_hex_def is_digit_def solid_def is_space_rune_def)

definition ot_entry :: "string \<Rightarrow> string \<Rightarrow> string" where
  "ot_entry ts th = ''ot='' @ join_with '';'' ((''th:'' @ th) # kept_subs ts)"

lemma ot_entry_eq: "\<exists>r. ot_entry ts th = (''ot=th:'' @ th) @ r \<and> (r = [] \<or> (\<exists>r'. r = CHR '';'' # r'))"
  by (cases "kept_subs ts") (auto simp: ot_entry_def)

lemma ot_entry_no_comma:
  assumes "list_all is_hex th"
  shows "CHR '','' \<notin> set (ot_entry ts th)"
proof -
  have "CHR '','' \<notin> set th" using assms hex_solid by (auto simp: list_all_iff)
  then show ?thesis
    using set_join_with [of "'';''" "(''th:'' @ th) # kept_subs ts"] kept_subs_no_comma [of _ ts]
    by (auto simp: ot_entry_def)
qed

lemma first_entry:
  assumes "list_all is_hex th"
  shows "\<exists>es. split_on CHR '','' (WithThreshold ts th) = ot_entry ts th # es"
proof -
  note n = ot_entry_no_comma [OF assms, of ts]
  have "WithThreshold ts th = ot_entry ts th \<or> (\<exists>r. WithThreshold ts th = ot_entry ts th @ CHR '','' # r)"
    unfolding WithThreshold_def ot_entry_def [symmetric] Let_def by auto
  then show ?thesis using split_on_plain [OF n] split_on_append [OF n] by auto
qed

lemma ot_entry_sub:
  assumes "list_all is_hex th"
  shows "\<exists>v subs. cut_byte (trim_space (ot_entry ts th)) CHR ''='' = (''ot'', v, True) \<and>
    split_on CHR '';'' v = (''th:'' @ th) # subs"
proof -
  obtain r where r: "ot_entry ts th = (''ot=th:'' @ th) @ r" "r = [] \<or> (\<exists>r'. r = CHR '';'' # r')"
    using ot_entry_eq by blast
  let ?q = "if r = [] then ''ot=th:'' @ th else ''ot=th:'' @ th @ '';''"
  have s: "list_all solid ?q" "?q \<noteq> []"
    using assms hex_solid by (auto simp: list_all_iff solid_def is_space_rune_def)
  have "ot_entry ts th = ?q @ tl r" using r by auto
  then obtain r' where t: "trim_space (ot_entry ts th) = ?q @ r'" using trim_space_solid [OF s] by metis
  have n: "CHR '';'' \<notin> set (''th:'' @ th)" using assms hex_solid by (auto simp: list_all_iff)
  show ?thesis
  proof (cases "r = []")
    case True
    then have "ot_entry ts th = ''ot=th:'' @ th" using r by simp
    then have "trim_space (ot_entry ts th) = ''ot'' @ CHR ''='' # ''th:'' @ th"
      using trim_space_id [of "''ot=th:'' @ th"] s True by simp
    then show ?thesis using cut_byte_append [of "CHR ''=''" "''ot''"] split_on_plain [OF n] by fastforce
  next
    case False
    then have "trim_space (ot_entry ts th) = ''ot'' @ CHR ''='' # (''th:'' @ th) @ CHR '';'' # r'" using t by simp
    then show ?thesis using cut_byte_append [of "CHR ''=''" "''ot''"] split_on_append [OF n] by fastforce
  qed
qed

text \<open>
  C13: The weight a kept span gets is the one the processor reads: for every trace state, rewriting it with
  the encoding of a threshold below \<open>2 ^ 56\<close> makes the reader's sampling probability exactly
  \<open>1 - T / 2 ^ 56\<close>, whatever \<^verbatim>\<open>th\<close>, \<^verbatim>\<open>p\<close> or other entries it had before.
\<close>

theorem threshold_roundtrip:
  assumes "t < maxThreshold"
  shows "HeadProbability (WithThreshold ts (EncodeThreshold t)) spanAttrs resAttrs =
    (f_sub f_one (f_div (f_of_int (int t)) two56), True)"
proof -
  let ?th = "EncodeThreshold t"
  note e = EncodeThreshold_ok [OF assms]
  obtain es where es: "split_on CHR '','' (WithThreshold ts ?th) = ot_entry ts ?th # es"
    using first_entry [OF e(4)] by blast
  obtain v subs where v: "cut_byte (trim_space (ot_entry ts ?th)) CHR ''='' = (''ot'', v, True)"
    "split_on CHR '';'' v = (''th:'' @ ?th) # subs" using ot_entry_sub [OF e(4)] by blast
  have "cut_byte (''th:'' @ ?th) CHR '':'' = (''th'', ?th, True)"
    using cut_byte_append [of "CHR '':''" "''th''" ?th] by simp
  moreover have "WithThreshold ts ?th \<noteq> []" by (simp add: WithThreshold_def Let_def)
  ultimately have "probabilityFromTraceState (WithThreshold ts ?th) = th_probability ?th"
    by (simp add: probabilityFromTraceState_def es v th_read_back [OF assms])
  then show ?thesis by (simp add: HeadProbability_def th_read_back [OF assms])
qed

theorem threshold_roundtrip_witness:
  "HeadProbability (WithThreshold ''vendor=a,ot=p:1;x:1'' (EncodeThreshold (2 ^ 55))) Map.empty Map.empty =
     (f_sub f_one (f_div (f_of_int (int (2 ^ 55))) two56), True)"
  by (rule threshold_roundtrip) (simp add: maxThreshold_def)

end
