(* ===== verification/TailPolicy.thy ===== *)
theory TailPolicy
  imports TraceWeights
begin

text \<open>
  Tail sampling policies (\<^verbatim>\<open>internal/tailsampling/policy.go\<close>): validation of a decoded policy
  document and the evaluation of its rules against a trace. Decoding the JSON document is the
  parameter \<open>decode\<close> of \<open>ParsePolicy\<close>.
\<close>

section \<open>Documents\<close>

definition MaxRules :: nat where "MaxRules = 50"
definition MaxNameBytes :: nat where "MaxNameBytes = 64"
definition MaxValueBytes :: nat where "MaxValueBytes = 512"
definition MaxServices :: nat where "MaxServices = 50"
definition MaxPolicyBytes :: nat where "MaxPolicyBytes = 65536"
definition MaxRateLimit :: f64 where "MaxRateLimit = FNum False 10000000"
definition MaxThresholdMs :: int where "MaxThresholdMs = 3600000"
definition DefaultRuleName :: string where "DefaultRuleName = ''baseline''"

record tail_rule =
  ru_name :: string
  ru_type :: string
  ru_ratio :: "f64 option"
  ru_thresholdMs :: int
  ru_service :: string
  ru_services :: "string list"
  ru_route :: string
  ru_key :: string
  ru_value :: string

definition KeepRatio :: "tail_rule \<Rightarrow> f64" where
  "KeepRatio r = (case ru_ratio r of None \<Rightarrow> f_one | Some x \<Rightarrow> x)"

record policy =
  po_enabled :: bool
  po_baseline :: f64
  po_maxSpans :: f64
  po_rules :: "tail_rule list"

definition KeepAll :: policy where
  "KeepAll = \<lparr>po_enabled = False, po_baseline = f_one, po_maxSpans = f_zero, po_rules = []\<rparr>"

section \<open>Validation\<close>

datatype policy_error =
    TooLarge | NotDecoded string | BadBaseline | BadRateLimit | TooManyRules
  | BadName nat | UsedName nat string | BadRatio nat | LongValue nat | ErrorRuleFields nat | BadThreshold nat
  | BadServices nat | EmptyService nat | NoRoute nat | BadRoute nat | NoKey nat | BadType nat

definition validRatio :: "f64 \<Rightarrow> bool" where
  "validRatio r \<longleftrightarrow> f_ge r f_zero \<and> f_le r f_one"

definition name_ok :: "string \<Rightarrow> bool" where
  "name_ok s \<longleftrightarrow> s \<noteq> [] \<and> length s \<le> MaxNameBytes \<and> list_all (\<lambda>c. byte c \<notin> {34, 92, 10, 13, 9}) s"

text \<open>The fields each type of rule needs.\<close>

definition check_type :: "nat \<Rightarrow> tail_rule \<Rightarrow> policy_error option" where
  "check_type i r =
     (if ru_type r = ''error'' then
        (if ru_thresholdMs r \<noteq> 0 \<or> ru_route r \<noteq> [] \<or> ru_key r \<noteq> [] \<or> ru_services r \<noteq> [] then Some (ErrorRuleFields i) else None)
      else if ru_type r = ''latency'' then
        (if ru_thresholdMs r \<le> 0 \<or> ru_thresholdMs r > MaxThresholdMs then Some (BadThreshold i) else None)
      else if ru_type r = ''service'' then
        (if ru_services r = [] \<or> length (ru_services r) > MaxServices then Some (BadServices i)
         else if [] \<in> set (ru_services r) then Some (EmptyService i) else None)
      else if ru_type r = ''route'' then
        (if ru_route r = [] then Some (NoRoute i)
         else if path_match (ru_route r) [] = None then Some (BadRoute i) else None)
      else if ru_type r = ''attribute'' then (if ru_key r = [] then Some (NoKey i) else None)
      else Some (BadType i))"

definition check_rule :: "nat \<Rightarrow> string list \<Rightarrow> tail_rule \<Rightarrow> policy_error option" where
  "check_rule i names r =
     (if \<not> name_ok (ru_name r) then Some (BadName i)
      else if ru_name r = DefaultRuleName \<or> ru_name r = ''rate_limit'' \<or> ru_name r \<in> set names
      then Some (UsedName i (ru_name r))
      else if (case ru_ratio r of Some x \<Rightarrow> \<not> validRatio x | None \<Rightarrow> False) then Some (BadRatio i)
      else if list_ex (\<lambda>s. length s > MaxValueBytes) ([ru_service r, ru_route r, ru_key r, ru_value r] @ ru_services r)
      then Some (LongValue i)
      else check_type i r)"

fun check_rules :: "nat \<Rightarrow> string list \<Rightarrow> tail_rule list \<Rightarrow> policy_error option" where
  "check_rules i names [] = None"
| "check_rules i names (r # rs) =
     (case check_rule i names r of Some e \<Rightarrow> Some e | None \<Rightarrow> check_rules (Suc i) (ru_name r # names) rs)"

definition Validate_policy :: "policy \<Rightarrow> policy_error option" where
  "Validate_policy p =
     (if \<not> validRatio (po_baseline p) then Some BadBaseline
      else if f_lt (po_maxSpans p) f_zero \<or> f_gt (po_maxSpans p) MaxRateLimit then Some BadRateLimit
      else if length (po_rules p) > MaxRules then Some TooManyRules
      else check_rules 0 [] (po_rules p))"

text \<open>Go returns the decoded policy beside a validation error; the callers use it only without one.\<close>

definition ParsePolicy :: "(string \<Rightarrow> string + policy) \<Rightarrow> string \<Rightarrow> policy_error + policy" where
  "ParsePolicy decode b =
     (if length b > MaxPolicyBytes then Inl TooLarge
      else case decode b of
        Inl e \<Rightarrow> Inl (NotDecoded e)
      | Inr p \<Rightarrow> (case Validate_policy p of Some e \<Rightarrow> Inl e | None \<Rightarrow> Inr p))"

section \<open>Evaluation\<close>

record span_facts =
  sf_service :: string
  sf_name :: string
  sf_route :: string
  sf_error :: bool
  sf_durationMs :: f64
  sf_attributes :: "string \<rightharpoonup> string"
  sf_resource :: "string \<rightharpoonup> string"

record trace_summary =
  su_spans :: nat
  su_durationMs :: f64
  su_items :: "span_facts list"

record policy_decision =
  pd_rule :: string
  pd_ratio :: f64

definition MatchRoute :: "string \<Rightarrow> string \<Rightarrow> bool" where
  "MatchRoute pattern value =
     (if value = [] then False
      else if pattern = value then True
      else if has_suffix pattern ''*'' \<and> list_all (\<lambda>c. byte c \<notin> {42, 63, 91, 92}) (butlast pattern)
      then has_prefix value (butlast pattern)
      else path_match pattern value = Some True)"

definition attr_matches :: "tail_rule \<Rightarrow> (string \<rightharpoonup> string) \<Rightarrow> bool" where
  "attr_matches r attrs =
     (case attrs (ru_key r) of None \<Rightarrow> False | Some v \<Rightarrow> ru_value r = [] \<or> v = ru_value r)"

definition span_matches :: "tail_rule \<Rightarrow> span_facts \<Rightarrow> bool" where
  "span_matches r s =
     (if ru_service r \<noteq> [] \<and> ru_type r \<noteq> ''service'' \<and> sf_service s \<noteq> ru_service r then False
      else if ru_type r = ''error'' then sf_error s
      else if ru_type r = ''latency'' then f_ge (sf_durationMs s) (f_of_int (ru_thresholdMs r))
      else if ru_type r = ''service'' then sf_service s \<in> set (ru_services r)
      else if ru_type r = ''route'' then
        MatchRoute (ru_route r) (sf_route s) \<or> (sf_route s = [] \<and> MatchRoute (ru_route r) (sf_name s))
      else if ru_type r = ''attribute'' then attr_matches r (sf_attributes s) \<or> attr_matches r (sf_resource s)
      else False)"

definition Matches :: "tail_rule \<Rightarrow> trace_summary \<Rightarrow> bool" where
  "Matches r t =
     (if ru_type r = ''latency'' \<and> ru_service r = [] then f_ge (su_durationMs t) (f_of_int (ru_thresholdMs r))
      else list_ex (span_matches r) (su_items t))"

definition Evaluate :: "policy \<Rightarrow> trace_summary \<Rightarrow> policy_decision" where
  "Evaluate p t =
     (if \<not> po_enabled p then \<lparr>pd_rule = DefaultRuleName, pd_ratio = f_one\<rparr>
      else case find (\<lambda>r. Matches r t) (po_rules p) of
        Some r \<Rightarrow> \<lparr>pd_rule = ru_name r, pd_ratio = KeepRatio r\<rparr>
      | None \<Rightarrow> \<lparr>pd_rule = DefaultRuleName, pd_ratio = po_baseline p\<rparr>)"

definition needsAttributes :: "policy \<Rightarrow> bool" where
  "needsAttributes p = list_ex (\<lambda>r. ru_type r = ''attribute'') (po_rules p)"

section \<open>Validated policies\<close>

lemma check_rules_ok:
  assumes "check_rules i names rs = None"
  shows "distinct (map ru_name rs) \<and> set (map ru_name rs) \<inter> set names = {} \<and>
    list_all (\<lambda>r. ru_name r \<noteq> DefaultRuleName \<and> validRatio (KeepRatio r)) rs"
  using assms
proof (induction i names rs rule: check_rules.induct)
  case (2 i names r rs)
  then have r: "check_rule i names r = None" "check_rules (Suc i) (ru_name r # names) rs = None"
    by (auto split: option.splits)
  have "validRatio f_one" by (simp add: validRatio_def f_le_def)
  with r(1) have "ru_name r \<notin> set names \<and> ru_name r \<noteq> DefaultRuleName \<and> validRatio (KeepRatio r)"
    by (auto simp: check_rule_def KeepRatio_def split: if_splits option.splits)
  with "2.IH" [OF r] show ?case by auto
qed simp

lemma Validate_policy_ok:
  assumes "Validate_policy p = None"
  shows "validRatio (po_baseline p)" and "distinct (map ru_name (po_rules p))"
    and "list_all (\<lambda>r. ru_name r \<noteq> DefaultRuleName \<and> validRatio (KeepRatio r)) (po_rules p)"
  using assms check_rules_ok [of 0 "[]" "po_rules p"] by (auto simp: Validate_policy_def split: if_splits)

text \<open>
  C28: The first matching rule of an accepted policy decides a trace, and the decision names it: the reported
  name identifies exactly one rule (or the baseline), no rule before it matches, and the keep
  probability is the ratio of that rule, a number between 0 and 1.
\<close>

theorem Evaluate_first_match:
  assumes "Validate_policy p = None" and "po_enabled p"
  shows "validRatio (pd_ratio (Evaluate p t)) \<and>
    (if pd_rule (Evaluate p t) = DefaultRuleName
     then pd_ratio (Evaluate p t) = po_baseline p \<and> list_all (\<lambda>r. \<not> Matches r t) (po_rules p)
     else \<exists>before r after. po_rules p = before @ r # after \<and> ru_name r = pd_rule (Evaluate p t) \<and> Matches r t \<and>
       list_all (\<lambda>q. \<not> Matches q t \<and> ru_name q \<noteq> ru_name r) before \<and> list_all (\<lambda>q. ru_name q \<noteq> ru_name r) after \<and>
       pd_ratio (Evaluate p t) = KeepRatio r)"
proof (cases "find (\<lambda>r. Matches r t) (po_rules p)")
  case None
  then have "Evaluate p t = \<lparr>pd_rule = DefaultRuleName, pd_ratio = po_baseline p\<rparr>" using assms(2) by (simp add: Evaluate_def)
  moreover have "list_all (\<lambda>r. \<not> Matches r t) (po_rules p)" using None by (auto simp: find_None_iff list_all_iff)
  ultimately show ?thesis using Validate_policy_ok(1) [OF assms(1)] by simp
next
  case (Some r)
  note v = Validate_policy_ok [OF assms(1)]
  obtain i where i: "i < length (po_rules p)" "r = po_rules p ! i" "Matches r t" "\<forall>j<i. \<not> Matches (po_rules p ! j) t"
    using Some by (auto simp: find_Some_iff)
  let ?b = "take i (po_rules p)" and ?a = "drop (Suc i) (po_rules p)"
  have d: "po_rules p = ?b @ r # ?a" using i(1,2) by (simp add: id_take_nth_drop)
  have "distinct (map ru_name (?b @ r # ?a))" using v(2) d by simp
  then have "list_all (\<lambda>q. ru_name q \<noteq> ru_name r) ?b" "list_all (\<lambda>q. ru_name q \<noteq> ru_name r) ?a"
    by (auto simp: list_all_iff image_iff)
  moreover have "list_all (\<lambda>q. \<not> Matches q t) ?b" using i(1,4) by (auto simp: list_all_iff in_set_conv_nth)
  moreover have "ru_name r \<noteq> DefaultRuleName" "validRatio (KeepRatio r)"
    using v(3) i(1,2) nth_mem by (auto simp: list_all_iff)
  moreover have "Evaluate p t = \<lparr>pd_rule = ru_name r, pd_ratio = KeepRatio r\<rparr>" using Some assms(2) by (simp add: Evaluate_def)
  moreover note d i(3)
  ultimately have r: "\<exists>after. po_rules p = ?b @ r # after \<and> ru_name r = pd_rule (Evaluate p t) \<and> Matches r t \<and>
      list_all (\<lambda>q. \<not> Matches q t \<and> ru_name q \<noteq> ru_name r) ?b \<and> list_all (\<lambda>q. ru_name q \<noteq> ru_name r) after \<and>
      pd_ratio (Evaluate p t) = KeepRatio r"
    by (intro exI [of _ ?a]) (simp add: list_all_iff)
  then have n: "pd_rule (Evaluate p t) \<noteq> DefaultRuleName" "validRatio (pd_ratio (Evaluate p t))"
    using \<open>ru_name r \<noteq> DefaultRuleName\<close> \<open>validRatio (KeepRatio r)\<close> by auto
  show ?thesis unfolding if_not_P [OF n(1)] using r n(2) by blast
qed

definition demo_policy :: policy where
  "demo_policy =
     \<lparr>po_enabled = True, po_baseline = f_zero, po_maxSpans = f_zero,
      po_rules = [\<lparr>ru_name = ''errors'', ru_type = ''error'', ru_ratio = None, ru_thresholdMs = 0, ru_service = [],
                    ru_services = [], ru_route = [], ru_key = [], ru_value = []\<rparr>]\<rparr>"

definition demo_summary :: trace_summary where
  "demo_summary =
     \<lparr>su_spans = 1, su_durationMs = f_zero,
      su_items = [\<lparr>sf_service = ''a'', sf_name = ''x'', sf_route = [], sf_error = True, sf_durationMs = f_zero,
                    sf_attributes = Map.empty, sf_resource = Map.empty\<rparr>]\<rparr>"

lemma demo_policy_valid: "Validate_policy demo_policy = None"
  by (simp add: Validate_policy_def demo_policy_def validRatio_def f_le_def MaxRateLimit_def MaxRules_def check_rule_def
      name_ok_def MaxNameBytes_def DefaultRuleName_def check_type_def)

theorem Evaluate_first_match_witness:
  "pd_rule (Evaluate demo_policy demo_summary) = ''errors'' \<and>
   (\<exists>before r after. po_rules demo_policy = before @ r # after \<and> ru_name r = ''errors'' \<and> Matches r demo_summary)"
proof -
  have "pd_rule (Evaluate demo_policy demo_summary) = ''errors''"
    by (simp add: Evaluate_def demo_policy_def demo_summary_def Matches_def span_matches_def)
  moreover have "po_enabled demo_policy" by (simp add: demo_policy_def)
  ultimately show ?thesis
    using Evaluate_first_match [OF demo_policy_valid, of demo_summary] by (auto simp: DefaultRuleName_def split: if_splits)
qed

end
