(* ===== verification/TailEngine.thy ===== *)
theory TailEngine
  imports TailPolicy GoTime "HOL-Library.AList"
begin

text \<open>
  The tail sampling engine (\<^verbatim>\<open>internal/tailsampling/engine.go\<close>): it buffers the spans of each trace,
  decides a trace when it is due or when a memory bound is hit, remembers decisions for late spans
  and counts references to Kafka records so that an offset is committed only when nothing of the
  record is pending.

  Traces and offset entries are shared by pointer in Go, so they live in stores that map an address
  to an object. \<^verbatim>\<open>proto.Size\<close>, the xxhash function and the policies in force are the fields of an
  environment; the clock is a sequence of readings, one per call of \<^verbatim>\<open>e.now()\<close>. Prometheus metrics
  are counters of the state.
\<close>

section \<open>State\<close>

record env =
  en_size :: "span_msg \<Rightarrow> nat"
  en_hash :: "string \<Rightarrow> nat"
  en_policy :: "string \<Rightarrow> policy"

record tail_options =
  to_wait :: duration
  to_maxTraces :: int
  to_maxSpans :: int
  to_maxBytes :: int
  to_ttl :: duration
  to_cacheSize :: int

definition defaults :: "tail_options \<Rightarrow> tail_options" where
  "defaults o1 =
     o1\<lparr>to_wait := (if to_wait o1 \<le> 0 then 30 * second else to_wait o1),
        to_maxTraces := (if to_maxTraces o1 \<le> 0 then 100000 else to_maxTraces o1),
        to_maxSpans := (if to_maxSpans o1 \<le> 0 then 2000 else to_maxSpans o1),
        to_maxBytes := (if to_maxBytes o1 \<le> 0 then 536870912 else to_maxBytes o1),
        to_ttl := (if to_ttl o1 \<le> 0 then 10 * minute else to_ttl o1),
        to_cacheSize := (if to_cacheSize o1 \<le> 0 then 500000 else to_cacheSize o1)\<rparr>"

text \<open>\<^verbatim>\<open>StaticPolicies\<close>: one policy for every tenant, with overrides.\<close>

definition StaticPolicies :: "policy \<Rightarrow> (string \<rightharpoonup> policy) \<Rightarrow> string \<Rightarrow> policy" where
  "StaticPolicies dflt byTenant tenant = (case byTenant tenant of Some p \<Rightarrow> p | None \<Rightarrow> dflt)"

type_synonym part_key = "string \<times> int"
type_synonym trace_key = "string \<times> string"

record source_rec =
  so_tenant :: string
  so_requestID :: string
  so_receivedAt :: gtime
  so_topic :: string
  so_partition :: int
  so_offset :: int
  so_epoch :: int

record tail_output =
  ou_tenant :: string
  ou_requestID :: string
  ou_receivedAt :: gtime
  ou_traceID :: string
  ou_rule :: string
  ou_request :: trace_request
  ou_refs :: "nat list"

record trace =
  tr_key :: trace_key
  tr_first :: gtime
  tr_spans :: "placed_span list"
  tr_bytes :: int
  tr_refs :: "nat list"
  tr_receivedAt :: gtime
  tr_requestID :: string

record off_entry =
  oe_offset :: int
  oe_epoch :: int
  oe_refs :: int

record part_state =
  ps_entries :: "nat list"
  ps_lastSeen :: int
  ps_lastEpoch :: int
  ps_committed :: int

record decision =
  de_keep :: bool
  de_ratio :: f64
  de_rule :: string
  de_expires :: gtime

record rateEstimator =
  re_sec :: int
  re_cur :: f64
  re_rate :: f64

record metrics =
  m_traces :: nat
  m_bufSpans :: int
  m_bufBytes :: int
  m_cacheEntries :: nat
  m_decisions :: "string \<times> string \<Rightarrow> nat"
  m_spans :: "string \<Rightarrow> nat"
  m_late :: "string \<Rightarrow> nat"
  m_evictions :: "string \<Rightarrow> nat"
  m_rateLimited :: nat
  m_rejected :: "string \<Rightarrow> nat"
  m_delays :: "duration list"

record engine =
  e_opts :: tail_options
  e_clock :: "nat \<Rightarrow> gtime"
  e_reads :: nat
  e_heap :: "nat \<Rightarrow> trace"
  e_nextTrace :: nat
  e_traces :: "(trace_key \<times> nat) list"
  e_fifo :: "nat list"
  e_spans :: int
  e_bytes :: int
  e_cache :: "(trace_key \<times> decision) list"
  e_cacheOrder :: "(trace_key \<times> gtime) list"
  e_cacheHead :: nat
  e_rates :: "(string \<times> rateEstimator) list"
  e_offs :: "nat \<Rightarrow> off_entry"
  e_nextOff :: nat
  e_parts :: "(part_key \<times> part_state) list"
  e_out :: "tail_output list"
  e_m :: metrics

definition zero_metrics :: metrics where
  "zero_metrics =
     \<lparr>m_traces = 0, m_bufSpans = 0, m_bufBytes = 0, m_cacheEntries = 0, m_decisions = (\<lambda>_. 0), m_spans = (\<lambda>_. 0),
      m_late = (\<lambda>_. 0), m_evictions = (\<lambda>_. 0), m_rateLimited = 0, m_rejected = (\<lambda>_. 0), m_delays = []\<rparr>"

definition zero_trace :: trace where
  "zero_trace =
     \<lparr>tr_key = ([], []), tr_first = 0, tr_spans = [], tr_bytes = 0, tr_refs = [], tr_receivedAt = 0, tr_requestID = []\<rparr>"

definition NewEngine :: "tail_options \<Rightarrow> (nat \<Rightarrow> gtime) \<Rightarrow> engine" where
  "NewEngine opts clock =
     \<lparr>e_opts = defaults opts, e_clock = clock, e_reads = 0, e_heap = (\<lambda>_. zero_trace), e_nextTrace = 0, e_traces = [],
      e_fifo = [], e_spans = 0, e_bytes = 0, e_cache = [], e_cacheOrder = [], e_cacheHead = 0, e_rates = [],
      e_offs = (\<lambda>_. \<lparr>oe_offset = 0, oe_epoch = 0, oe_refs = 0\<rparr>), e_nextOff = 0, e_parts = [], e_out = [],
      e_m = zero_metrics\<rparr>"

definition read_now :: "engine \<Rightarrow> gtime \<times> engine" where
  "read_now e = (e_clock e (e_reads e), e\<lparr>e_reads := Suc (e_reads e)\<rparr>)"

definition count_up :: "('a \<Rightarrow> nat) \<Rightarrow> 'a \<Rightarrow> nat \<Rightarrow> 'a \<Rightarrow> nat" where
  "count_up f l n = f(l := f l + n)"

definition set_m :: "(metrics \<Rightarrow> metrics) \<Rightarrow> engine \<Rightarrow> engine" where
  "set_m f e = e\<lparr>e_m := f (e_m e)\<rparr>"

definition add_ref :: "int \<Rightarrow> nat \<Rightarrow> engine \<Rightarrow> engine" where
  "add_ref n i e = e\<lparr>e_offs := (e_offs e)(i := (e_offs e i)\<lparr>oe_refs := oe_refs (e_offs e i) + n\<rparr>)\<rparr>"

definition outcome :: "bool \<Rightarrow> string" where
  "outcome keep = (if keep then ''kept'' else ''dropped'')"

definition gauges :: "engine \<Rightarrow> engine" where
  "gauges e =
     set_m (\<lambda>m. m\<lparr>m_traces := length (e_traces e), m_bufSpans := e_spans e, m_bufBytes := e_bytes e,
                  m_cacheEntries := length (e_cache e)\<rparr>) e"

definition Buffered :: "engine \<Rightarrow> nat \<times> int" where
  "Buffered e = (length (e_traces e), e_spans e)"

section \<open>Decision cache\<close>

definition cached :: "trace_key \<Rightarrow> gtime \<Rightarrow> engine \<Rightarrow> decision option" where
  "cached key now e =
     (case map_of (e_cache e) key of None \<Rightarrow> None | Some d \<Rightarrow> if now < de_expires d then Some d else None)"

definition popCache :: "engine \<Rightarrow> engine" where
  "popCache e =
     (let it = e_cacheOrder e ! e_cacheHead e;
          e1 = e\<lparr>e_cacheOrder := (e_cacheOrder e)[e_cacheHead e := (([], []), 0)], e_cacheHead := Suc (e_cacheHead e)\<rparr>;
          e2 = (case map_of (e_cache e1) (fst it) of
                  Some d \<Rightarrow> if de_expires d = snd it then e1\<lparr>e_cache := AList.delete (fst it) (e_cache e1)\<rparr> else e1
                | None \<Rightarrow> e1)
      in if e_cacheHead e2 > 1024 \<and> e_cacheHead e2 * 2 > length (e_cacheOrder e2)
         then e2\<lparr>e_cacheOrder := drop (e_cacheHead e2) (e_cacheOrder e2), e_cacheHead := 0\<rparr> else e2)"

definition cache_left :: "engine \<Rightarrow> nat" where
  "cache_left e = length (e_cacheOrder e) - e_cacheHead e"

lemma popCache_left: "e_cacheHead e < length (e_cacheOrder e) \<Longrightarrow> cache_left (popCache e) < cache_left e"
  by (auto simp: popCache_def cache_left_def Let_def split: option.splits)

function trim_cache :: "engine \<Rightarrow> engine" where
  "trim_cache e =
     (if int (length (e_cache e)) > to_cacheSize (e_opts e) \<and> e_cacheHead e < length (e_cacheOrder e)
      then trim_cache (popCache e) else e)"
  by pat_completeness auto
termination
  by (relation "measure cache_left") (auto simp: popCache_left)

definition remember :: "trace_key \<Rightarrow> decision \<Rightarrow> engine \<Rightarrow> engine" where
  "remember key d e =
     trim_cache (e\<lparr>e_cache := AList.update key d (e_cache e), e_cacheOrder := e_cacheOrder e @ [(key, de_expires d)]\<rparr>)"

function purgeCache :: "gtime \<Rightarrow> engine \<Rightarrow> engine" where
  "purgeCache now e =
     (if e_cacheHead e < length (e_cacheOrder e) \<and> \<not> now < snd (e_cacheOrder e ! e_cacheHead e)
      then purgeCache now (popCache e) else e)"
  by pat_completeness auto
termination
  by (relation "measure (cache_left \<circ> snd)") (auto simp: popCache_left)

declare trim_cache.simps [simp del] purgeCache.simps [simp del]

section \<open>Rate limit\<close>

definition unix_seconds :: "gtime \<Rightarrow> int" where
  "unix_seconds t = (t - unix_epoch) div second"

definition rate_decay :: "int \<Rightarrow> rateEstimator \<Rightarrow> rateEstimator" where
  "rate_decay s r =
     (if re_sec r \<noteq> 0 \<and> s > re_sec r then
        (let rate = f_add (f_mul (f_const (7 / 10)) (re_rate r)) (f_mul (f_const (3 / 10)) (re_cur r));
             gap = s - re_sec r - 1
         in r\<lparr>re_rate := (if gap > 0 then f_mul rate (f_pow (f_const (7 / 10)) (nat (min gap 60))) else rate)\<rparr>)
      else r)"

definition factor :: "gtime \<Rightarrow> f64 \<Rightarrow> f64 \<Rightarrow> rateEstimator \<Rightarrow> f64 \<times> rateEstimator" where
  "factor now x limit r =
     (let s = unix_seconds now;
          r1 = (if s \<noteq> re_sec r then (rate_decay s r)\<lparr>re_sec := s, re_cur := f_zero\<rparr> else r);
          r2 = r1\<lparr>re_cur := f_add (re_cur r1) x\<rparr>;
          est = f_max (re_rate r2) (re_cur r2)
      in (if f_le est limit then f_one else f_div limit est, r2))"

section \<open>Evaluating a trace\<close>

definition ratioAttr :: "key_values \<Rightarrow> string \<Rightarrow> string \<rightharpoonup> string" where
  "ratioAttr kvs key = (let x = AttrString kvs key in if x \<noteq> [] then [key \<mapsto> x] else Map.empty)"

definition head_probability :: "span_msg \<Rightarrow> resource_spans \<Rightarrow> f64 \<times> bool" where
  "head_probability sp rs =
     (case HeadProbability (sp_traceState sp) Map.empty Map.empty of (p, fromTS) \<Rightarrow>
        if fromTS then (p, True)
        else (fst (HeadProbability [] (ratioAttr (sp_attributes sp) ''sampling.ratio'')
                (ratioAttr (rs_attributes rs) ''sampling.ratio'')), False))"

definition span_facts_of :: "bool \<Rightarrow> placed_span \<Rightarrow> span_facts" where
  "span_facts_of attrs ps =
     (case ps of (rs, _, sp) \<Rightarrow>
        \<lparr>sf_service = AttrString (rs_attributes rs) ''service.name'', sf_name = sp_name sp,
         sf_route = AttrString (sp_attributes sp) ''http.route'', sf_error = (sp_status sp = 2),
         sf_durationMs = (if sp_start sp > 0 \<and> sp_end sp > sp_start sp
                          then f_div (f_of_int (int (sp_end sp - sp_start sp))) (f_of_int 1000000) else f_zero),
         sf_attributes = (if attrs then AttrsToMap (sp_attributes sp) else Map.empty),
         sf_resource = (if attrs then AttrsToMap (rs_attributes rs) else Map.empty)\<rparr>)"

fun trace_bounds :: "placed_span list \<Rightarrow> nat \<times> nat \<Rightarrow> nat \<times> nat" where
  "trace_bounds [] b = b"
| "trace_bounds ((rs, ss, sp) # xs) (minStart, maxEnd) =
     trace_bounds xs
       (let st = sp_start sp; en = sp_end sp in
        if st > 0 \<and> en > st
        then (if minStart = 0 \<or> st < minStart then st else minStart, if en > maxEnd then en else maxEnd)
        else (minStart, maxEnd))"

definition summarize :: "trace \<Rightarrow> bool \<Rightarrow> trace_summary" where
  "summarize t attrs =
     (case trace_bounds (tr_spans t) (0, 0) of (minStart, maxEnd) \<Rightarrow>
        \<lparr>su_spans = length (tr_spans t),
         su_durationMs = (if maxEnd > minStart then f_div (f_of_int (int (maxEnd - minStart))) (f_of_int 1000000) else f_zero),
         su_items = map (span_facts_of attrs) (tr_spans t)\<rparr>)"

fun head_loop :: "placed_span list \<Rightarrow> f64 \<times> f64 \<times> string \<Rightarrow> f64 \<times> f64 \<times> string" where
  "head_loop [] acc = acc"
| "head_loop ((rs, ss, sp) # xs) (headTS, minHead, traceState) =
     (case head_probability sp rs of (p, fromTS) \<Rightarrow>
        let minHead' = (if f_gt p f_zero \<and> f_lt p minHead then p else minHead)
        in if fromTS \<and> f_gt p headTS then head_loop xs (p, minHead', sp_traceState sp)
           else head_loop xs (headTS, minHead', traceState))"

definition rate_ratio :: "policy \<Rightarrow> trace \<Rightarrow> gtime \<Rightarrow> f64 \<Rightarrow> engine \<Rightarrow> f64 \<times> engine" where
  "rate_ratio pol t now ratio e =
     (if f_gt (po_maxSpans pol) f_zero \<and> f_gt ratio f_zero then
        (let r = (case map_of (e_rates e) (fst (tr_key t)) of Some r \<Rightarrow> r | None \<Rightarrow> \<lparr>re_sec = 0, re_cur = f_zero, re_rate = f_zero\<rparr>);
             (q, r') = factor now (f_mul (f_of_int (int (length (tr_spans t)))) ratio) (po_maxSpans pol) r;
             e1 = e\<lparr>e_rates := AList.update (fst (tr_key t)) r' (e_rates e)\<rparr>
         in if f_lt q f_one then (f_mul ratio q, set_m (\<lambda>m. m\<lparr>m_rateLimited := Suc (m_rateLimited m)\<rparr>) e1) else (ratio, e1))
      else (ratio, e))"

definition draw :: "env \<Rightarrow> trace \<Rightarrow> f64 \<Rightarrow> bool \<times> f64" where
  "draw v t ratio =
     (case head_loop (tr_spans t) (f_zero, f_one, []) of (headTS, minHead, traceState) \<Rightarrow>
        let r = f_min f_one (f_max ratio (f_div MinProbability minHead)) in
        if f_gt headTS f_zero
        then (traceRandomness (en_hash v) (snd (tr_key t)) traceState \<ge> Threshold (f_mul headTS r), r)
        else (hashRandomness (en_hash v) (snd (tr_key t)) < f_to_uint (f_mul r two56), r))"

definition evaluate :: "env \<Rightarrow> policy \<Rightarrow> trace \<Rightarrow> gtime \<Rightarrow> engine \<Rightarrow> (bool \<times> f64 \<times> string) \<times> engine" where
  "evaluate v pol t now e =
     (if \<not> po_enabled pol then ((True, f_one, DefaultRuleName), e)
      else
        let d = Evaluate pol (summarize t (needsAttributes pol));
            (ratio, e1) = rate_ratio pol t now (pd_ratio d) e
        in if f_ge ratio f_one then ((True, f_one, pd_rule d), e1)
           else if f_le ratio f_zero then ((False, f_zero, pd_rule d), e1)
           else case draw v t ratio of (keep, r) \<Rightarrow> ((keep, r, pd_rule d), e1))"

section \<open>Outputs\<close>

definition reweighted :: "span_msg \<Rightarrow> resource_spans \<Rightarrow> f64 \<Rightarrow> span_msg" where
  "reweighted sp rs ratio =
     (if f_ge ratio f_one then sp
      else
        let head = fst (head_probability sp rs) in
        if f_le head f_zero then sp
        else sp\<lparr>sp_traceState := WithThreshold (sp_traceState sp) (EncodeThreshold (Threshold (f_mul head ratio)))\<rparr>)"

definition sameResource :: "resource_spans \<Rightarrow> resource_spans \<Rightarrow> bool" where
  "sameResource a b \<longleftrightarrow> map_option re_ptr (rs_resource a) = map_option re_ptr (rs_resource b) \<and> rs_schemaUrl a = rs_schemaUrl b"

definition sameScope :: "scope_spans \<Rightarrow> scope_spans \<Rightarrow> bool" where
  "sameScope a b \<longleftrightarrow> map_option sco_ptr (ss_scope a) = map_option sco_ptr (ss_scope b) \<and> ss_schemaUrl a = ss_schemaUrl b"

definition append_scope :: "scope_spans list \<Rightarrow> scope_spans \<Rightarrow> span_msg \<Rightarrow> scope_spans list" where
  "append_scope sss ss sp =
     (if sss \<noteq> [] \<and> sameScope (last sss) ss
      then butlast sss @ [(last sss)\<lparr>ss_spans := ss_spans (last sss) @ [sp]\<rparr>]
      else sss @ [\<lparr>ss_scope = ss_scope ss, ss_schemaUrl = ss_schemaUrl ss, ss_spans = [sp]\<rparr>])"

definition appendToRequest :: "trace_request \<Rightarrow> placed_span \<Rightarrow> trace_request" where
  "appendToRequest req s =
     (case s of (rs, ss, sp) \<Rightarrow>
        if req \<noteq> [] \<and> sameResource (last req) rs
        then butlast req @ [(last req)\<lparr>rs_scopes := append_scope (rs_scopes (last req)) ss sp\<rparr>]
        else req @ [\<lparr>rs_resource = rs_resource rs, rs_schemaUrl = rs_schemaUrl rs, rs_scopes = append_scope [] ss sp\<rparr>])"

section \<open>Decisions\<close>

definition take_trace :: "nat \<Rightarrow> string \<Rightarrow> gtime \<Rightarrow> engine \<Rightarrow> engine" where
  "take_trace i reason now e =
     (let t = e_heap e i in
      set_m (\<lambda>m. m\<lparr>m_evictions := (if reason \<noteq> ''timeout'' then count_up (m_evictions m) reason 1 else m_evictions m),
                   m_delays := m_delays m @ [time_sub now (tr_first t)]\<rparr>)
        (e\<lparr>e_fifo := remove1 i (e_fifo e), e_traces := AList.delete (tr_key t) (e_traces e),
           e_spans := e_spans e - int (length (tr_spans t)), e_bytes := e_bytes e - tr_bytes t\<rparr>))"

definition kept_output :: "trace \<Rightarrow> f64 \<Rightarrow> string \<Rightarrow> tail_output" where
  "kept_output t ratio rule =
     \<lparr>ou_tenant = fst (tr_key t), ou_requestID = tr_requestID t, ou_receivedAt = tr_receivedAt t,
      ou_traceID = snd (tr_key t), ou_rule = rule,
      ou_request = foldl (\<lambda>req (rs, ss, sp). appendToRequest req (rs, ss, reweighted sp rs ratio)) [] (tr_spans t),
      ou_refs = tr_refs t\<rparr>"

definition decide :: "env \<Rightarrow> nat \<Rightarrow> string \<Rightarrow> engine \<Rightarrow> engine" where
  "decide v i reason e0 =
     (let (now, e) = read_now e0; t = e_heap e i;
          e1 = take_trace i reason now e;
          ((keep, ratio, rule), e2) = evaluate v (en_policy v (fst (tr_key t))) t now e1;
          e3 = remember (tr_key t) \<lparr>de_keep = keep, de_ratio = ratio, de_rule = rule, de_expires = now + to_ttl (e_opts e2)\<rparr> e2;
          e4 = set_m (\<lambda>m. m\<lparr>m_decisions := count_up (m_decisions m) (rule, outcome keep) 1,
                            m_spans := count_up (m_spans m) (outcome keep) (length (tr_spans t))\<rparr>) e3
      in if \<not> keep then fold (add_ref (- 1)) (tr_refs t) e4
         else e4\<lparr>e_out := e_out e4 @ [kept_output t ratio rule]\<rparr>)"

text \<open>What a decision leaves alone; the loops below end because it takes the trace out of the queue.\<close>

lemma popCache_frame [simp]:
  "e_opts (popCache e) = e_opts e" "e_clock (popCache e) = e_clock e" "e_reads (popCache e) = e_reads e"
  "e_heap (popCache e) = e_heap e" "e_nextTrace (popCache e) = e_nextTrace e" "e_traces (popCache e) = e_traces e"
  "e_fifo (popCache e) = e_fifo e" "e_spans (popCache e) = e_spans e" "e_bytes (popCache e) = e_bytes e"
  "e_offs (popCache e) = e_offs e" "e_nextOff (popCache e) = e_nextOff e" "e_parts (popCache e) = e_parts e"
  "e_out (popCache e) = e_out e" "e_m (popCache e) = e_m e"
  by (simp_all add: popCache_def Let_def split: option.splits)

lemma trim_cache_frame [simp]:
  "e_opts (trim_cache e) = e_opts e" "e_clock (trim_cache e) = e_clock e" "e_reads (trim_cache e) = e_reads e"
  "e_heap (trim_cache e) = e_heap e" "e_nextTrace (trim_cache e) = e_nextTrace e" "e_traces (trim_cache e) = e_traces e"
  "e_fifo (trim_cache e) = e_fifo e" "e_spans (trim_cache e) = e_spans e" "e_bytes (trim_cache e) = e_bytes e"
  "e_offs (trim_cache e) = e_offs e" "e_nextOff (trim_cache e) = e_nextOff e" "e_parts (trim_cache e) = e_parts e"
  "e_out (trim_cache e) = e_out e" "e_m (trim_cache e) = e_m e"
  by (induction e rule: trim_cache.induct; subst trim_cache.simps; simp)+

lemma purgeCache_frame [simp]:
  "e_opts (purgeCache n e) = e_opts e" "e_clock (purgeCache n e) = e_clock e" "e_reads (purgeCache n e) = e_reads e"
  "e_heap (purgeCache n e) = e_heap e" "e_nextTrace (purgeCache n e) = e_nextTrace e" "e_traces (purgeCache n e) = e_traces e"
  "e_fifo (purgeCache n e) = e_fifo e" "e_spans (purgeCache n e) = e_spans e" "e_bytes (purgeCache n e) = e_bytes e"
  "e_offs (purgeCache n e) = e_offs e" "e_nextOff (purgeCache n e) = e_nextOff e" "e_parts (purgeCache n e) = e_parts e"
  "e_out (purgeCache n e) = e_out e" "e_m (purgeCache n e) = e_m e"
  by (induction n e rule: purgeCache.induct; subst purgeCache.simps; simp)+

lemma remember_frame [simp]:
  "e_opts (remember k d e) = e_opts e" "e_clock (remember k d e) = e_clock e" "e_reads (remember k d e) = e_reads e"
  "e_heap (remember k d e) = e_heap e" "e_nextTrace (remember k d e) = e_nextTrace e" "e_traces (remember k d e) = e_traces e"
  "e_fifo (remember k d e) = e_fifo e" "e_spans (remember k d e) = e_spans e" "e_bytes (remember k d e) = e_bytes e"
  "e_offs (remember k d e) = e_offs e" "e_nextOff (remember k d e) = e_nextOff e" "e_parts (remember k d e) = e_parts e"
  "e_out (remember k d e) = e_out e" "e_m (remember k d e) = e_m e"
  by (simp_all add: remember_def)

lemma set_m_frame [simp]:
  "e_opts (set_m f e) = e_opts e" "e_clock (set_m f e) = e_clock e" "e_reads (set_m f e) = e_reads e"
  "e_heap (set_m f e) = e_heap e" "e_nextTrace (set_m f e) = e_nextTrace e" "e_traces (set_m f e) = e_traces e"
  "e_fifo (set_m f e) = e_fifo e" "e_spans (set_m f e) = e_spans e" "e_bytes (set_m f e) = e_bytes e"
  "e_offs (set_m f e) = e_offs e" "e_nextOff (set_m f e) = e_nextOff e" "e_parts (set_m f e) = e_parts e"
  "e_out (set_m f e) = e_out e" "e_m (set_m f e) = f (e_m e)" "e_cache (set_m f e) = e_cache e"
  by (simp_all add: set_m_def)

lemma gauges_frame [simp]:
  "e_opts (gauges e) = e_opts e" "e_clock (gauges e) = e_clock e" "e_reads (gauges e) = e_reads e"
  "e_heap (gauges e) = e_heap e" "e_nextTrace (gauges e) = e_nextTrace e" "e_traces (gauges e) = e_traces e"
  "e_fifo (gauges e) = e_fifo e" "e_spans (gauges e) = e_spans e" "e_bytes (gauges e) = e_bytes e"
  "e_offs (gauges e) = e_offs e" "e_nextOff (gauges e) = e_nextOff e" "e_parts (gauges e) = e_parts e"
  "e_out (gauges e) = e_out e" "e_cache (gauges e) = e_cache e" "m_spans (e_m (gauges e)) = m_spans (e_m e)"
  "m_rejected (e_m (gauges e)) = m_rejected (e_m e)"
  by (simp_all add: gauges_def)

lemma add_ref_frame [simp]:
  "e_opts (add_ref n i e) = e_opts e" "e_clock (add_ref n i e) = e_clock e" "e_reads (add_ref n i e) = e_reads e"
  "e_heap (add_ref n i e) = e_heap e" "e_nextTrace (add_ref n i e) = e_nextTrace e" "e_traces (add_ref n i e) = e_traces e"
  "e_fifo (add_ref n i e) = e_fifo e" "e_spans (add_ref n i e) = e_spans e" "e_bytes (add_ref n i e) = e_bytes e"
  "e_nextOff (add_ref n i e) = e_nextOff e" "e_parts (add_ref n i e) = e_parts e"
  "e_out (add_ref n i e) = e_out e" "e_m (add_ref n i e) = e_m e" "e_cache (add_ref n i e) = e_cache e"
  by (simp_all add: add_ref_def)

lemma add_refs_frame [simp]:
  "e_opts (fold (add_ref n) is e) = e_opts e" "e_clock (fold (add_ref n) is e) = e_clock e"
  "e_reads (fold (add_ref n) is e) = e_reads e" "e_heap (fold (add_ref n) is e) = e_heap e"
  "e_nextTrace (fold (add_ref n) is e) = e_nextTrace e" "e_traces (fold (add_ref n) is e) = e_traces e"
  "e_fifo (fold (add_ref n) is e) = e_fifo e" "e_spans (fold (add_ref n) is e) = e_spans e"
  "e_bytes (fold (add_ref n) is e) = e_bytes e" "e_nextOff (fold (add_ref n) is e) = e_nextOff e"
  "e_parts (fold (add_ref n) is e) = e_parts e" "e_out (fold (add_ref n) is e) = e_out e"
  "e_m (fold (add_ref n) is e) = e_m e" "e_cache (fold (add_ref n) is e) = e_cache e"
  by (induction "is" arbitrary: e; simp)+

lemma evaluate_frame:
  "evaluate v pol t now e = (r, e') \<Longrightarrow> e_opts e' = e_opts e \<and> e_clock e' = e_clock e \<and> e_reads e' = e_reads e \<and>
     e_heap e' = e_heap e \<and> e_nextTrace e' = e_nextTrace e \<and> e_traces e' = e_traces e \<and> e_fifo e' = e_fifo e \<and>
     e_spans e' = e_spans e \<and> e_bytes e' = e_bytes e \<and> e_offs e' = e_offs e \<and> e_nextOff e' = e_nextOff e \<and>
     e_parts e' = e_parts e \<and> e_out e' = e_out e \<and> e_cache e' = e_cache e \<and> m_spans (e_m e') = m_spans (e_m e) \<and>
     m_rejected (e_m e') = m_rejected (e_m e)"
  by (auto simp: evaluate_def rate_ratio_def Let_def split: if_splits prod.splits)

lemma decide_frame:
  "e_fifo (decide v i reason e) = remove1 i (e_fifo e)"
  "e_traces (decide v i reason e) = AList.delete (tr_key (e_heap e i)) (e_traces e)"
  "e_heap (decide v i reason e) = e_heap e"
  "e_nextTrace (decide v i reason e) = e_nextTrace e" "e_opts (decide v i reason e) = e_opts e"
  "e_clock (decide v i reason e) = e_clock e" "e_reads (decide v i reason e) = Suc (e_reads e)"
  "e_spans (decide v i reason e) = e_spans e - int (length (tr_spans (e_heap e i)))"
  "e_bytes (decide v i reason e) = e_bytes e - tr_bytes (e_heap e i)"
  "e_nextOff (decide v i reason e) = e_nextOff e" "e_parts (decide v i reason e) = e_parts e"
  "m_rejected (e_m (decide v i reason e)) = m_rejected (e_m e)"
  by (auto simp: decide_def read_now_def take_trace_def Let_def split: prod.splits dest!: evaluate_frame)

section \<open>Receiving records\<close>

definition src_part :: "source_rec \<Rightarrow> part_key" where
  "src_part src = (so_topic src, so_partition src)"

definition fresh_part :: part_state where
  "fresh_part = \<lparr>ps_entries = [], ps_lastSeen = - 1, ps_lastEpoch = 0, ps_committed = - 1\<rparr>"

definition part :: "source_rec \<Rightarrow> engine \<Rightarrow> part_state \<times> engine" where
  "part src e =
     (case map_of (e_parts e) (src_part src) of
        Some ps \<Rightarrow> (ps, e)
      | None \<Rightarrow> (fresh_part, e\<lparr>e_parts := AList.update (src_part src) fresh_part (e_parts e)\<rparr>))"

definition valid_ids :: "span_msg \<Rightarrow> bool" where
  "valid_ids sp \<longleftrightarrow> length (sp_traceId sp) = 16 \<and> length (sp_spanId sp) = 8"

text \<open>\<open>touched\<close> are the addresses of the traces this record has added a span to.\<close>

definition appendSpan :: "env \<Rightarrow> nat \<Rightarrow> nat \<Rightarrow> nat list \<Rightarrow> placed_span \<Rightarrow> engine \<Rightarrow> nat list \<times> engine" where
  "appendSpan v i ent touched s e =
     (let t = e_heap e i; n = int (en_size v (snd (snd s))) + 16;
          t1 = t\<lparr>tr_spans := tr_spans t @ [s], tr_bytes := tr_bytes t + n\<rparr>;
          e1 = e\<lparr>e_heap := (e_heap e)(i := t1), e_bytes := e_bytes e + n, e_spans := e_spans e + 1\<rparr>
      in if i \<in> set touched then (touched, e1)
         else if tr_refs t1 = [] \<or> last (tr_refs t1) \<noteq> ent
         then (i # touched,
               add_ref 1 ent (e1\<lparr>e_heap := (e_heap e1)(i := t1\<lparr>tr_refs := tr_refs t1 @ [ent]\<rparr>)\<rparr>))
         else (i # touched, e1))"

definition check_full :: "env \<Rightarrow> nat \<Rightarrow> engine \<Rightarrow> engine" where
  "check_full v i e =
     (if int (length (tr_spans (e_heap e i))) \<ge> to_maxSpans (e_opts e) then decide v i ''max_spans'' e else e)"

type_synonym add_state = "engine \<times> (trace_key \<times> tail_output) list \<times> nat list"

text \<open>A span of a decided trace: it joins the late output of its trace in this record.\<close>

definition late_span :: "source_rec \<Rightarrow> nat \<Rightarrow> trace_key \<Rightarrow> decision \<Rightarrow> placed_span \<Rightarrow> add_state \<Rightarrow> add_state" where
  "late_span src ent key d s st =
     (case (st, s) of ((e, late, touched), (rs, ss, sp)) \<Rightarrow>
        let e1 = set_m (\<lambda>m. m\<lparr>m_late := count_up (m_late m) (outcome (de_keep d)) 1,
                              m_spans := count_up (m_spans m) (outcome (de_keep d)) 1\<rparr>) e in
        if \<not> de_keep d then (e1, late, touched)
        else
          let (o1, e2) =
                (case map_of late key of
                   Some o1 \<Rightarrow> (o1, e1)
                 | None \<Rightarrow>
                     (\<lparr>ou_tenant = so_tenant src, ou_requestID = so_requestID src, ou_receivedAt = so_receivedAt src,
                       ou_traceID = sp_traceId sp, ou_rule = de_rule d, ou_request = [], ou_refs = [ent]\<rparr>,
                      add_ref 1 ent e1))
          in (e2, AList.update key
                (o1\<lparr>ou_request := appendToRequest (ou_request o1) (rs, ss, reweighted sp rs (de_ratio d))\<rparr>) late, touched))"

definition make_room :: "env \<Rightarrow> engine \<Rightarrow> engine" where
  "make_room v e =
     (if int (length (e_traces e)) \<ge> to_maxTraces (e_opts e) then decide v (hd (e_fifo e)) ''max_traces'' e else e)"

definition new_trace :: "source_rec \<Rightarrow> trace_key \<Rightarrow> gtime \<Rightarrow> engine \<Rightarrow> nat \<times> engine" where
  "new_trace src key now e =
     (let i = e_nextTrace e;
          t = \<lparr>tr_key = key, tr_first = now, tr_spans = [], tr_bytes = 0, tr_refs = [],
               tr_receivedAt = so_receivedAt src, tr_requestID = so_requestID src\<rparr>
      in (i, e\<lparr>e_heap := (e_heap e)(i := t), e_nextTrace := Suc i, e_fifo := e_fifo e @ [i],
               e_traces := AList.update key i (e_traces e)\<rparr>))"

definition buffer_span :: "env \<Rightarrow> nat \<Rightarrow> nat \<Rightarrow> placed_span \<Rightarrow> add_state \<Rightarrow> add_state" where
  "buffer_span v i ent s st =
     (case st of (e, late, touched) \<Rightarrow>
        let (touched1, e1) = appendSpan v i ent touched s e in (check_full v i e1, late, touched1))"

definition add_span :: "env \<Rightarrow> source_rec \<Rightarrow> nat \<Rightarrow> gtime \<Rightarrow> placed_span \<Rightarrow> add_state \<Rightarrow> add_state" where
  "add_span v src ent now s st =
     (case (st, s) of ((e, late, touched), (rs, ss, sp)) \<Rightarrow>
        if \<not> valid_ids sp
        then (set_m (\<lambda>m. m\<lparr>m_rejected := count_up (m_rejected m) ''invalid_span_id'' 1\<rparr>) e, late, touched)
        else
          let key = (so_tenant src, sp_traceId sp) in
          case map_of (e_traces e) key of
            Some i \<Rightarrow> buffer_span v i ent s st
          | None \<Rightarrow>
              (case cached key now e of
                 Some d \<Rightarrow> late_span src ent key d s st
               | None \<Rightarrow>
                   (case new_trace src key now (make_room v e) of (i, e1) \<Rightarrow>
                      buffer_span v i ent s (e1, late, touched))))"

function shed :: "env \<Rightarrow> engine \<Rightarrow> engine" where
  "shed v e =
     (if e_bytes e > to_maxBytes (e_opts e) \<and> e_fifo e \<noteq> []
      then shed v (decide v (hd (e_fifo e)) ''max_bytes'' e) else e)"
  by pat_completeness auto
termination
  by (relation "measure (length \<circ> e_fifo \<circ> snd)") (auto simp: decide_frame length_remove1)

declare shed.simps [simp del]

definition new_entry :: "source_rec \<Rightarrow> part_state \<Rightarrow> engine \<Rightarrow> nat \<times> engine" where
  "new_entry src ps e =
     (let ent = e_nextOff e; committed = (if ps_lastSeen ps < 0 then so_offset src else ps_committed ps) in
      (ent, e\<lparr>e_offs := (e_offs e)(ent := \<lparr>oe_offset = so_offset src, oe_epoch = so_epoch src, oe_refs = 0\<rparr>),
              e_nextOff := Suc ent,
              e_parts := AList.update (src_part src)
                \<lparr>ps_entries = ps_entries ps @ [ent], ps_lastSeen = so_offset src, ps_lastEpoch = so_epoch src,
                 ps_committed = committed\<rparr> (e_parts e)\<rparr>))"

text \<open>Go iterates over the map of late outputs in an unspecified order, which is the argument \<open>ord\<close>.\<close>

definition Add ::
  "env \<Rightarrow> (tail_output list \<Rightarrow> tail_output list) \<Rightarrow> source_rec \<Rightarrow> trace_request \<Rightarrow> engine \<Rightarrow> engine" where
  "Add v ord src req e =
     (let (ps, e1) = part src e in
      if so_offset src \<le> ps_lastSeen ps then e1
      else
        let (ent, e2) = new_entry src ps e1; (now, e3) = read_now e2;
            (e4, late, touched) = fold (add_span v src ent now) (request_spans req) (e3, [], [])
        in gauges (shed v (e4\<lparr>e_out := e_out e4 @ ord (map snd late)\<rparr>)))"

section \<open>Time and rebalancing\<close>

function decide_due :: "env \<Rightarrow> gtime \<Rightarrow> engine \<Rightarrow> engine" where
  "decide_due v now e =
     (if e_fifo e \<noteq> [] \<and> \<not> time_sub now (tr_first (e_heap e (hd (e_fifo e)))) < to_wait (e_opts e)
      then decide_due v now (decide v (hd (e_fifo e)) ''timeout'' e) else e)"
  by pat_completeness auto
termination
  by (relation "measure (length \<circ> e_fifo \<circ> snd \<circ> snd)") (auto simp: decide_frame length_remove1)

definition Tick :: "env \<Rightarrow> engine \<Rightarrow> engine" where
  "Tick v e = (let (now, e1) = read_now e in gauges (purgeCache now (decide_due v now e1)))"

definition NextDeadline :: "engine \<Rightarrow> gtime" where
  "NextDeadline e =
     (case e_fifo e of [] \<Rightarrow> zero_time | i # _ \<Rightarrow> tr_first (e_heap e i) + to_wait (e_opts e))"

function decide_rest :: "env \<Rightarrow> string \<Rightarrow> engine \<Rightarrow> engine" where
  "decide_rest v reason e =
     (if e_fifo e \<noteq> [] then decide_rest v reason (decide v (hd (e_fifo e)) reason e) else e)"
  by pat_completeness auto
termination
  by (relation "measure (length \<circ> e_fifo \<circ> snd \<circ> snd)") (auto simp: decide_frame length_remove1)

declare decide_due.simps [simp del] decide_rest.simps [simp del]

definition DecideAll :: "env \<Rightarrow> string \<Rightarrow> engine \<Rightarrow> engine" where
  "DecideAll v reason e = gauges (decide_rest v reason e)"

type_synonym part_set = "(string \<times> int list) list"

definition part_keys :: "part_set \<Rightarrow> part_key list" where
  "part_keys parts = concat (map (\<lambda>(topic, ps). map (Pair topic) ps) parts)"

definition gone_entries :: "part_set \<Rightarrow> engine \<Rightarrow> nat list" where
  "gone_entries parts e =
     concat (map (\<lambda>k. case map_of (e_parts e) k of Some st \<Rightarrow> ps_entries st | None \<Rightarrow> []) (part_keys parts))"

definition DecidePartitions :: "env \<Rightarrow> part_set \<Rightarrow> engine \<Rightarrow> engine" where
  "DecidePartitions v parts e =
     (let gone = gone_entries parts e in
      if gone = [] then e
      else gauges (fold (\<lambda>i. decide v i ''revoked'')
             (filter (\<lambda>i. list_ex (\<lambda>r. r \<in> set gone) (tr_refs (e_heap e i))) (e_fifo e)) e))"

definition DropPartitions :: "part_set \<Rightarrow> engine \<Rightarrow> engine" where
  "DropPartitions parts e = e\<lparr>e_parts := fold AList.delete (part_keys parts) (e_parts e)\<rparr>"

section \<open>Outputs and offsets\<close>

definition TakeOutputs :: "engine \<Rightarrow> tail_output list \<times> engine" where
  "TakeOutputs e = (e_out e, e\<lparr>e_out := []\<rparr>)"

definition Release :: "tail_output list \<Rightarrow> engine \<Rightarrow> engine" where
  "Release outs e = fold (\<lambda>o1. fold (add_ref (- 1)) (ou_refs o1)) outs e"

definition containsPart :: "part_set \<Rightarrow> part_key \<Rightarrow> bool" where
  "containsPart m k = (case map_of m (fst k) of Some ps \<Rightarrow> snd k \<in> set ps | None \<Rightarrow> False)"

definition commit_part :: "(nat \<Rightarrow> off_entry) \<Rightarrow> part_state \<Rightarrow> part_state \<times> (int \<times> int) option" where
  "commit_part offs ps =
     (let rest = dropWhile (\<lambda>i. oe_refs (offs i) \<le> 0) (ps_entries ps);
          (epoch, offset) = (case rest of
                               i # _ \<Rightarrow> (oe_epoch (offs i), oe_offset (offs i))
                             | [] \<Rightarrow> (ps_lastEpoch ps, ps_lastSeen ps + 1));
          ps1 = ps\<lparr>ps_entries := rest\<rparr>
      in if offset \<le> ps_committed ps \<or> ps_lastSeen ps < 0 then (ps1, None)
         else (ps1\<lparr>ps_committed := offset\<rparr>, Some (epoch, offset)))"

definition commit_selected :: "part_set option \<Rightarrow> part_key \<Rightarrow> bool" where
  "commit_selected only k = (case only of None \<Rightarrow> True | Some m \<Rightarrow> containsPart m k)"

definition CommitOffsets :: "part_set option \<Rightarrow> engine \<Rightarrow> (part_key \<times> int \<times> int) list \<times> engine" where
  "CommitOffsets only e =
     (let step = (\<lambda>(k, ps). if commit_selected only k then commit_part (e_offs e) ps else (ps, None)) in
      (concat (map (\<lambda>(k, ps). case snd (step (k, ps)) of Some c \<Rightarrow> [(k, c)] | None \<Rightarrow> []) (e_parts e)),
       e\<lparr>e_parts := map (\<lambda>(k, ps). (k, fst (step (k, ps)))) (e_parts e)\<rparr>))"

end
