(* ===== verification/TailRunner.thy ===== *)
theory TailRunner
  imports TailEngine
begin

text \<open>
  The Kafka loop around the tail sampling engine (\<^verbatim>\<open>internal/tailsampling/runner.go\<close>): records are
  decoded and added, the kept traces are produced to the sampled topic, split into records of bounded
  size, and only then are offsets committed; partitions that are revoked or lost are decided first.

  The broker and the protobuf library are parameters: \<^verbatim>\<open>proto.Unmarshal\<close>, \<^verbatim>\<open>proto.Marshal\<close> and
  \<^verbatim>\<open>proto.Size\<close> are functions of the environment, and the outcomes of the attempts of the n-th call
  of \<^verbatim>\<open>produce\<close> until its context ends are a list. The lock of the runner serializes the events, so
  a run is a sequence of them.
\<close>

section \<open>Records and messages\<close>

record kafka_record =
  kr_topic :: string
  kr_partition :: int
  kr_offset :: int
  kr_epoch :: int
  kr_timestamp :: gtime
  kr_headers :: "(string \<times> string) list"
  kr_value :: string

record queue_message =
  qm_topic :: string
  qm_key :: string
  qm_value :: string
  qm_tenant :: string
  qm_requestID :: string
  qm_receivedAt :: gtime

definition SchemaVersion :: string where "SchemaVersion = ''1''"
definition HeaderSchemaVersion :: string where "HeaderSchemaVersion = ''openlog-schema-version''"
definition HeaderTenantID :: string where "HeaderTenantID = ''openlog-tenant-id''"
definition HeaderReceivedAt :: string where "HeaderReceivedAt = ''openlog-received-at''"
definition HeaderRequestID :: string where "HeaderRequestID = ''openlog-request-id''"

definition SampledTracesTopic :: "string \<Rightarrow> string" where
  "SampledTracesTopic prefix = prefix @ ''.otlp.traces.sampled.v1''"

text \<open>\<^verbatim>\<open>HeaderValue\<close> returns the empty string and false when the header is missing.\<close>

definition HeaderValue :: "kafka_record \<Rightarrow> string \<Rightarrow> string \<times> bool" where
  "HeaderValue r key = (case map_of (kr_headers r) key of Some x \<Rightarrow> (x, True) | None \<Rightarrow> ([], False))"

text \<open>\<^verbatim>\<open>Message.Record\<close>; the broker gives it its partition, offset and epoch.\<close>

definition message_record :: "queue_message \<Rightarrow> kafka_record" where
  "message_record m =
     \<lparr>kr_topic = qm_topic m, kr_partition = 0, kr_offset = 0, kr_epoch = 0, kr_timestamp = zero_time,
      kr_headers = [(HeaderSchemaVersion, SchemaVersion), (HeaderTenantID, qm_tenant m),
        (HeaderReceivedAt, show_int (to_unix_nano (qm_receivedAt m))), (HeaderRequestID, qm_requestID m)],
      kr_value = qm_value m\<rparr>"

section \<open>State\<close>

record runner_env =
  rv_env :: env
  rv_unmarshal :: "string \<Rightarrow> trace_request option"
  rv_marshal :: "trace_request \<Rightarrow> string option"
  rv_requestSize :: "trace_request \<Rightarrow> int"
  rv_resourceSize :: "resource option \<Rightarrow> nat"
  rv_attempts :: "nat \<Rightarrow> bool \<times> bool list"
  rv_order :: "tail_output list \<Rightarrow> tail_output list"
  rv_prefix :: string
  rv_maxRecordBytes :: int

record runner =
  rn_eng :: engine
  rn_calls :: nat
  rn_failures :: nat
  rn_rejected :: "string \<Rightarrow> nat"
  rn_produced :: "queue_message list"
  rn_commits :: "(part_key \<times> int \<times> int) list list"

definition NewRunner :: "engine \<Rightarrow> runner" where
  "NewRunner eng =
     \<lparr>rn_eng = eng, rn_calls = 0, rn_failures = 0, rn_rejected = (\<lambda>_. 0), rn_produced = [], rn_commits = []\<rparr>"

text \<open>The default of \<^verbatim>\<open>MaxRecordBytes\<close>; the timeouts of the options bound the attempts of the environment.\<close>

definition maxRecordBytes :: "int \<Rightarrow> int" where
  "maxRecordBytes n = (if n \<le> 0 then 8388608 else n)"

section \<open>Adding records\<close>

definition record_source :: "kafka_record \<Rightarrow> source_rec" where
  "record_source rec =
     \<lparr>so_tenant = [], so_requestID = [], so_receivedAt = kr_timestamp rec, so_topic = kr_topic rec,
      so_partition = kr_partition rec, so_offset = kr_offset rec, so_epoch = kr_epoch rec\<rparr>"

definition eng_add :: "runner_env \<Rightarrow> source_rec \<Rightarrow> trace_request \<Rightarrow> runner \<Rightarrow> runner" where
  "eng_add rv src req r = r\<lparr>rn_eng := Add (rv_env rv) (rv_order rv) src req (rn_eng r)\<rparr>"

text \<open>A rejected record is added without spans, so that the offset moves on.\<close>

definition reject :: "runner_env \<Rightarrow> string \<Rightarrow> source_rec \<Rightarrow> runner \<Rightarrow> runner" where
  "reject rv reason src r = eng_add rv src [] (r\<lparr>rn_rejected := count_up (rn_rejected r) reason 1\<rparr>)"

definition received_at :: "kafka_record \<Rightarrow> gtime" where
  "received_at rec =
     (case HeaderValue rec HeaderReceivedAt of (x, ok) \<Rightarrow>
        if ok then (case parse_int64 x of Some n \<Rightarrow> unix_epoch + n | None \<Rightarrow> kr_timestamp rec) else kr_timestamp rec)"

definition addRecord :: "runner_env \<Rightarrow> kafka_record \<Rightarrow> runner \<Rightarrow> runner" where
  "addRecord rv rec r =
     (let src = record_source rec in
      if fst (HeaderValue rec HeaderSchemaVersion) \<noteq> SchemaVersion then reject rv ''schema_version'' src r
      else
        let src1 = src\<lparr>so_tenant := fst (HeaderValue rec HeaderTenantID)\<rparr> in
        if so_tenant src1 = [] then reject rv ''missing_tenant'' src1 r
        else
          let src2 = src1\<lparr>so_requestID := fst (HeaderValue rec HeaderRequestID), so_receivedAt := received_at rec\<rparr> in
          case rv_unmarshal rv (kr_value rec) of
            None \<Rightarrow> reject rv ''decode'' src2 r
          | Some req \<Rightarrow> eng_add rv src2 req r)"

section \<open>Producing\<close>

definition split_span :: "runner_env \<Rightarrow> placed_span \<Rightarrow> trace_request list \<times> trace_request \<times> int \<Rightarrow>
    trace_request list \<times> trace_request \<times> int" where
  "split_span rv s st =
     (case (st, s) of ((done1, cur, size1), (rs, ss, sp)) \<Rightarrow>
        let n = int (en_size (rv_env rv) sp) + 64;
            (done1, cur, size1) = (if size1 > 0 \<and> size1 + n > rv_maxRecordBytes rv then (done1 @ [cur], [], 0)
                                   else (done1, cur, size1));
            size1 = (if size1 = 0 then int (rv_resourceSize rv (rs_resource rs)) + 64 else size1)
        in (done1, appendToRequest cur (rs, ss, sp), size1 + n))"

definition splitRequest :: "runner_env \<Rightarrow> trace_request \<Rightarrow> trace_request list" where
  "splitRequest rv req =
     (if rv_requestSize rv req \<le> rv_maxRecordBytes rv then [req]
      else case fold (split_span rv) (request_spans req) ([], [], 0) of
        (done1, cur, size1) \<Rightarrow> if size1 > 0 then done1 @ [cur] else done1)"

datatype produce_error = MarshalFailed | NotAcknowledged

definition output_message :: "runner_env \<Rightarrow> tail_output \<Rightarrow> string \<Rightarrow> queue_message" where
  "output_message rv o1 b =
     \<lparr>qm_topic = SampledTracesTopic (rv_prefix rv), qm_key = ou_tenant o1 @ ''/'' @ hex_encode (ou_traceID o1),
      qm_value = b, qm_tenant = ou_tenant o1, qm_requestID = ou_requestID o1, qm_receivedAt = ou_receivedAt o1\<rparr>"

definition output_messages :: "runner_env \<Rightarrow> tail_output \<Rightarrow> queue_message list option" where
  "output_messages rv o1 =
     map_option (map (output_message rv o1)) (collect_opts (map (rv_marshal rv) (splitRequest rv (ou_request o1))))"

text \<open>The retry loop: an attempt that fails is counted, and the last one of the list ends with the context.\<close>

fun produce_loop :: "bool \<Rightarrow> bool list \<Rightarrow> nat \<Rightarrow> bool \<times> nat" where
  "produce_loop True _ failures = (True, failures)"
| "produce_loop False [] failures = (False, Suc failures)"
| "produce_loop False (a # as) failures = produce_loop a as (Suc failures)"

definition produce :: "runner_env \<Rightarrow> tail_output list \<Rightarrow> runner \<Rightarrow> produce_error option \<times> runner" where
  "produce rv outs r =
     (if outs = [] then (None, r)
      else case collect_opts (map (output_messages rv) outs) of
        None \<Rightarrow> (Some MarshalFailed, r)
      | Some msgs \<Rightarrow>
          (case produce_loop (fst (rv_attempts rv (rn_calls r))) (snd (rv_attempts rv (rn_calls r))) (rn_failures r) of
             (ok, failures) \<Rightarrow>
               let r1 = r\<lparr>rn_calls := Suc (rn_calls r), rn_failures := failures\<rparr> in
               if ok then (None, r1\<lparr>rn_produced := rn_produced r1 @ concat msgs\<rparr>) else (Some NotAcknowledged, r1)))"

section \<open>Committing\<close>

text \<open>\<^verbatim>\<open>commit\<close> only logs the outcome of the request, so a commit is the request.\<close>

definition commit :: "(part_key \<times> int \<times> int) list \<Rightarrow> runner \<Rightarrow> runner" where
  "commit off r = r\<lparr>rn_commits := rn_commits r @ [off]\<rparr>"

definition release_commit :: "part_set option \<Rightarrow> bool \<Rightarrow> tail_output list \<Rightarrow> runner \<Rightarrow> runner" where
  "release_commit only report outs r =
     (case CommitOffsets only (Release outs (rn_eng r)) of (off, e) \<Rightarrow>
        let r1 = r\<lparr>rn_eng := e\<rparr> in if off \<noteq> [] \<and> report then commit off r1 else r1)"

definition flush :: "runner_env \<Rightarrow> runner \<Rightarrow> produce_error option \<times> runner" where
  "flush rv r =
     (case TakeOutputs (rn_eng r) of (outs, e) \<Rightarrow>
        case produce rv outs (r\<lparr>rn_eng := e\<rparr>) of
          (Some err, r1) \<Rightarrow> (Some err, r1\<lparr>rn_eng := (rn_eng r1)\<lparr>e_out := outs @ e_out (rn_eng r1)\<rparr>\<rparr>)
        | (None, r1) \<Rightarrow> (None, release_commit None True outs r1))"

definition onGone :: "runner_env \<Rightarrow> part_set \<Rightarrow> string \<Rightarrow> runner \<Rightarrow> runner" where
  "onGone rv m how r =
     (if m = [] then r
      else
        case TakeOutputs (DecidePartitions (rv_env rv) m (rn_eng r)) of (outs, e) \<Rightarrow>
          let r2 = (case produce rv outs (r\<lparr>rn_eng := e\<rparr>) of
                      (Some _, r1) \<Rightarrow> r1
                    | (None, r1) \<Rightarrow> release_commit (Some m) (how = ''revoked'') outs r1)
          in r2\<lparr>rn_eng := DropPartitions m (rn_eng r2)\<rparr>)"

section \<open>The loop\<close>

definition flushOutputs :: nat where "flushOutputs = 2000"

fun add_records :: "runner_env \<Rightarrow> kafka_record list \<Rightarrow> runner \<Rightarrow> produce_error option \<times> runner" where
  "add_records rv [] r = (None, r)"
| "add_records rv (rec # recs) r =
     (let r1 = addRecord rv rec r in
      if length (e_out (rn_eng r1)) \<ge> flushOutputs
      then (case flush rv r1 of (Some err, r2) \<Rightarrow> (Some err, r2) | (None, r2) \<Rightarrow> add_records rv recs r2)
      else add_records rv recs r1)"

definition poll_round :: "runner_env \<Rightarrow> kafka_record list \<Rightarrow> runner \<Rightarrow> produce_error option \<times> runner" where
  "poll_round rv recs r =
     (case add_records rv recs r of
        (Some err, r1) \<Rightarrow> (Some err, r1)
      | (None, r1) \<Rightarrow> flush rv (r1\<lparr>rn_eng := Tick (rv_env rv) (rn_eng r1)\<rparr>))"

definition shutdown :: "runner_env \<Rightarrow> runner \<Rightarrow> produce_error option \<times> runner" where
  "shutdown rv r = flush rv (r\<lparr>rn_eng := DecideAll (rv_env rv) ''shutdown'' (rn_eng r)\<rparr>)"

text \<open>
  What the loop meets, in order: the records of a poll (with the state of the context after it), a
  rebalance while it polls, or a closed client. A run that has met all the events still polls.
\<close>

datatype event = Fetched "kafka_record list" bool | Gone part_set string | Closed

datatype run_state = Polling | ClientClosed | Stopped "produce_error option"

fun Run :: "runner_env \<Rightarrow> event list \<Rightarrow> runner \<Rightarrow> run_state \<times> runner" where
  "Run rv [] r = (Polling, r)"
| "Run rv (Closed # _) r = (ClientClosed, r)"
| "Run rv (Gone m how # evs) r = Run rv evs (onGone rv m how r)"
| "Run rv (Fetched recs cancelled # evs) r =
     (case poll_round rv recs r of (failed, r1) \<Rightarrow>
        if failed \<noteq> None \<or> cancelled
        then (case shutdown rv r1 of (err, r2) \<Rightarrow> (Stopped err, r2))
        else Run rv evs r1)"

end
