(* ===== verification/TailEngineCorrect.thy ===== *)
theory TailEngineCorrect
  imports TailEngine "HOL-Library.Multiset"
begin

text \<open>
  Invariants of the tail sampling engine: the queue and the map of buffered traces agree, the totals
  are exact and bounded, every cached decision can still be purged, and the reference count of a
  Kafka record is the number of buffered traces and unproduced outputs that hold spans of it.
\<close>

section \<open>Requests\<close>

definition spans_of :: "trace_request \<Rightarrow> span_msg list" where
  "spans_of req = map (\<lambda>(rs, ss, sp). sp) (request_spans req)"

lemma spans_of_eq: "spans_of req = concat (map (\<lambda>rs. concat (map ss_spans (rs_scopes rs))) req)"
  by (simp add: spans_of_def request_spans_def map_concat comp_def)

lemma concat_map_last: "xs \<noteq> [] \<Longrightarrow> concat (map f xs) = concat (map f (butlast xs)) @ f (last xs)"
  by (induction xs rule: rev_induct) simp_all

lemma append_scope_spans: "concat (map ss_spans (append_scope sss ss sp)) = concat (map ss_spans sss) @ [sp]"
proof (cases "sss \<noteq> [] \<and> sameScope (last sss) ss")
  case True
  then show ?thesis using concat_map_last [of sss ss_spans] by (simp add: append_scope_def)
qed (auto simp: append_scope_def)

lemma appendToRequest_spans: "spans_of (appendToRequest req (rs, ss, sp)) = spans_of req @ [sp]"
proof (cases "req \<noteq> [] \<and> sameResource (last req) rs")
  case True
  then show ?thesis
    using concat_map_last [of req "\<lambda>rs. concat (map ss_spans (rs_scopes rs))"]
    by (simp add: appendToRequest_def spans_of_eq append_scope_spans)
next
  case False
  then have "appendToRequest req (rs, ss, sp) =
      req @ [\<lparr>rs_resource = rs_resource rs, rs_schemaUrl = rs_schemaUrl rs, rs_scopes = append_scope [] ss sp\<rparr>]"
    by (auto simp: appendToRequest_def)
  then show ?thesis using append_scope_spans [of "[]" ss sp] by (simp add: spans_of_eq)
qed

lemma foldl_append_spans:
  "spans_of (foldl (\<lambda>req (rs, ss, sp). appendToRequest req (rs, ss, f rs sp)) req xs) =
     spans_of req @ map (\<lambda>(rs, ss, sp). f rs sp) xs"
  by (induction xs arbitrary: req) (auto simp: appendToRequest_spans)

lemma kept_output_spans:
  "spans_of (ou_request (kept_output t ratio rule)) = map (\<lambda>(rs, ss, sp). reweighted sp rs ratio) (tr_spans t)"
  using foldl_append_spans [of "\<lambda>rs sp. reweighted sp rs ratio" "[]" "tr_spans t"]
  by (simp add: kept_output_def spans_of_eq)

section \<open>Counting references\<close>

definition buf_refs :: "engine \<Rightarrow> nat \<Rightarrow> nat" where
  "buf_refs e r = (\<Sum>i\<in>set (e_fifo e). count_list (tr_refs (e_heap e i)) r)"

definition out_refs :: "tail_output list \<Rightarrow> nat \<Rightarrow> nat" where
  "out_refs outs r = sum_list (map (\<lambda>o1. count_list (ou_refs o1) r) outs)"

lemma out_refs_simps [simp]:
  "out_refs [] r = 0" "out_refs (o1 # os) r = count_list (ou_refs o1) r + out_refs os r"
  "out_refs (xs @ ys) r = out_refs xs r + out_refs ys r"
  by (simp_all add: out_refs_def)

lemma out_refs_mset: "mset xs = mset ys \<Longrightarrow> out_refs xs r = out_refs ys r"
proof -
  assume e: "mset xs = mset ys"
  let ?f = "\<lambda>o1. count_list (ou_refs o1) r"
  have "sum_mset (image_mset ?f (mset xs)) = sum_mset (image_mset ?f (mset ys))" by (simp only: e)
  then show ?thesis by (simp only: out_refs_def mset_map [symmetric] sum_mset_sum_list)
qed

lemma fold_add_ref:
  "oe_refs (e_offs (fold (add_ref n) is e) r) = oe_refs (e_offs e r) + n * int (count_list is r)"
  "oe_offset (e_offs (fold (add_ref n) is e) r) = oe_offset (e_offs e r)"
  "oe_epoch (e_offs (fold (add_ref n) is e) r) = oe_epoch (e_offs e r)"
  by (induction "is" arbitrary: e) (auto simp: add_ref_def algebra_simps)

text \<open>\<open>leak\<close> are references nobody holds any more, \<open>extra\<close> outputs that are not yet in the engine.\<close>

definition refs_ok :: "(nat \<Rightarrow> nat) \<Rightarrow> tail_output list \<Rightarrow> engine \<Rightarrow> bool" where
  "refs_ok leak extra e \<longleftrightarrow>
     (\<forall>r. oe_refs (e_offs e r) = int (buf_refs e r + out_refs (e_out e @ extra) r + leak r)) \<and>
     (\<forall>r \<ge> e_nextOff e. oe_refs (e_offs e r) = 0)"

lemma refs_ok_cong:
  assumes "\<And>r. buf_refs e' r = buf_refs e r" and "e_out e' = e_out e" and "e_offs e' = e_offs e" and "e_nextOff e' = e_nextOff e"
  shows "refs_ok leak extra e' = refs_ok leak extra e"
  using assms by (simp add: refs_ok_def)

section \<open>The buffer\<close>

definition buffer_ok :: "engine \<Rightarrow> bool" where
  "buffer_ok e \<longleftrightarrow>
     distinct (e_fifo e) \<and> distinct (map fst (e_traces e)) \<and>
     (\<forall>k i. map_of (e_traces e) k = Some i \<longleftrightarrow> i \<in> set (e_fifo e) \<and> tr_key (e_heap e i) = k) \<and>
     (\<forall>i\<in>set (e_fifo e). i < e_nextTrace e)"

definition span_bytes :: "env \<Rightarrow> placed_span list \<Rightarrow> int" where
  "span_bytes v xs = sum_list (map (\<lambda>s. int (en_size v (snd (snd s))) + 16) xs)"

definition totals_ok :: "env \<Rightarrow> engine \<Rightarrow> bool" where
  "totals_ok v e \<longleftrightarrow>
     e_spans e = (\<Sum>i\<in>set (e_fifo e). int (length (tr_spans (e_heap e i)))) \<and>
     e_bytes e = (\<Sum>i\<in>set (e_fifo e). tr_bytes (e_heap e i)) \<and>
     (\<forall>i\<in>set (e_fifo e). tr_bytes (e_heap e i) = span_bytes v (tr_spans (e_heap e i)))"

text \<open>The bounds, except for the number of spans of the traces in \<open>X\<close>, to which a span has just been added.\<close>

definition bounds_but :: "nat set \<Rightarrow> engine \<Rightarrow> bool" where
  "bounds_but X e \<longleftrightarrow>
     int (length (e_traces e)) \<le> to_maxTraces (e_opts e) \<and>
     (\<forall>i\<in>set (e_fifo e) - X. int (length (tr_spans (e_heap e i))) < to_maxSpans (e_opts e)) \<and>
     0 < to_maxTraces (e_opts e) \<and> 0 < to_maxSpans (e_opts e) \<and> 0 < to_maxBytes (e_opts e) \<and>
     0 < to_cacheSize (e_opts e)"

text \<open>A decision is cached only while its entry in the purge order is ahead.\<close>

definition cache_ok :: "engine \<Rightarrow> bool" where
  "cache_ok e \<longleftrightarrow>
     distinct (map fst (e_cache e)) \<and> e_cacheHead e \<le> length (e_cacheOrder e) \<and>
     (\<forall>k d. map_of (e_cache e) k = Some d \<longrightarrow> (k, de_expires d) \<in> set (drop (e_cacheHead e) (e_cacheOrder e)))"

section \<open>Records\<close>

text \<open>
  The history of a run: the records that were added with the entries they got, and the partition of
  each entry as long as this member owns it.
\<close>

record history =
  h_adds :: "(nat \<times> source_rec \<times> trace_request) list"
  h_owner :: "nat \<Rightarrow> part_key option"

definition part_ok :: "engine \<Rightarrow> part_state \<Rightarrow> bool" where
  "part_ok e ps \<longleftrightarrow>
     sorted_wrt (\<lambda>i j. oe_offset (e_offs e i) < oe_offset (e_offs e j)) (ps_entries ps) \<and>
     (\<forall>i\<in>set (ps_entries ps). i < e_nextOff e \<and> oe_offset (e_offs e i) \<le> ps_lastSeen ps \<and>
        ps_committed ps \<le> oe_offset (e_offs e i)) \<and>
     ps_committed ps \<le> ps_lastSeen ps + 1 \<and> - 1 \<le> ps_lastSeen ps \<and> (ps_lastSeen ps < 0 \<longrightarrow> ps_entries ps = [])"

definition owner_ok :: "history \<Rightarrow> engine \<Rightarrow> bool" where
  "owner_ok h e \<longleftrightarrow>
     (\<forall>i k. h_owner h i = Some k \<longrightarrow> i < e_nextOff e \<and>
        (\<exists>ps. map_of (e_parts e) k = Some ps \<and> (i \<in> set (ps_entries ps) \<or> oe_refs (e_offs e i) = 0)))"

definition adds_ok :: "history \<Rightarrow> engine \<Rightarrow> bool" where
  "adds_ok h e \<longleftrightarrow> (\<forall>(ent, src, req)\<in>set (h_adds h). ent < e_nextOff e \<and> oe_offset (e_offs e ent) = so_offset src)"

definition parts_ok :: "history \<Rightarrow> engine \<Rightarrow> bool" where
  "parts_ok h e \<longleftrightarrow> distinct (map fst (e_parts e)) \<and> (\<forall>ps\<in>snd ` set (e_parts e). part_ok e ps) \<and> owner_ok h e \<and> adds_ok h e"

text \<open>The records that the spans of a trace or an output come from are among its references.\<close>

definition trace_sourced :: "history \<Rightarrow> trace \<Rightarrow> bool" where
  "trace_sourced h t \<longleftrightarrow>
     (\<forall>s\<in>set (tr_spans t). \<exists>ent\<in>set (tr_refs t). \<exists>src req. (ent, src, req) \<in> set (h_adds h) \<and> s \<in> set (request_spans req) \<and>
        tr_key t = (so_tenant src, sp_traceId (snd (snd s))))"

definition out_sourced :: "history \<Rightarrow> tail_output \<Rightarrow> bool" where
  "out_sourced h o1 \<longleftrightarrow>
     (\<forall>x\<in>set (spans_of (ou_request o1)). \<exists>ent\<in>set (ou_refs o1). \<exists>src req rs ss sp ratio.
        (ent, src, req) \<in> set (h_adds h) \<and> (rs, ss, sp) \<in> set (request_spans req) \<and> x = reweighted sp rs ratio \<and>
        ou_tenant o1 = so_tenant src \<and> ou_traceID o1 = sp_traceId sp)"

definition sources_ok :: "history \<Rightarrow> tail_output list \<Rightarrow> engine \<Rightarrow> bool" where
  "sources_ok h extra e \<longleftrightarrow>
     (\<forall>i\<in>set (e_fifo e). trace_sourced h (e_heap e i)) \<and> (\<forall>o1\<in>set (e_out e @ extra). out_sourced h o1)"

definition inv :: "env \<Rightarrow> history \<Rightarrow> (nat \<Rightarrow> nat) \<Rightarrow> tail_output list \<Rightarrow> nat set \<Rightarrow> engine \<Rightarrow> bool" where
  "inv v h leak extra X e \<longleftrightarrow> buffer_ok e \<and> totals_ok v e \<and> bounds_but X e \<and> cache_ok e \<and>
     int (length (e_cache e)) \<le> to_cacheSize (e_opts e) \<and> refs_ok leak extra e \<and> parts_ok h e \<and> sources_ok h extra e"

lemma parts_ok_cong:
  assumes "e_offs e' = e_offs e" and "e_nextOff e' = e_nextOff e" and "e_parts e' = e_parts e"
  shows "parts_ok h e' = parts_ok h e"
  using assms by (simp add: parts_ok_def part_ok_def owner_ok_def adds_ok_def)

section \<open>The cache\<close>

lemma popCache_ok:
  assumes "cache_ok e" and "e_cacheHead e < length (e_cacheOrder e)"
  shows "cache_ok (popCache e)"
proof -
  let ?it = "e_cacheOrder e ! e_cacheHead e" and ?rest = "drop (Suc (e_cacheHead e)) (e_cacheOrder e)"
  have d: "drop (e_cacheHead e) (e_cacheOrder e) = ?it # ?rest" using assms(2) by (simp add: Cons_nth_drop_Suc)
  define c where "c = (case map_of (e_cache e) (fst ?it) of
      Some x \<Rightarrow> if de_expires x = snd ?it then AList.delete (fst ?it) (e_cache e) else e_cache e | None \<Rightarrow> e_cache e)"
  have c: "e_cache (popCache e) = c"
    by (simp add: popCache_def Let_def c_def split: option.splits)
  have h: "e_cacheHead (popCache e) \<le> length (e_cacheOrder (popCache e)) \<and>
      drop (e_cacheHead (popCache e)) (e_cacheOrder (popCache e)) = ?rest"
    using assms(2) by (auto simp: popCache_def Let_def split: option.splits)
  have "distinct (map fst c)" using assms(1) by (auto simp: c_def cache_ok_def distinct_delete split: option.splits)
  moreover have "(k, de_expires x) \<in> set ?rest" if "map_of c k = Some x" for k x
  proof -
    obtain ik ix where it: "?it = (ik, ix)" by (cases ?it)
    have m: "map_of (e_cache e) k = Some x" and n: "(k, de_expires x) \<noteq> ?it"
      using that by (auto simp: c_def delete_conv it split: option.splits if_splits)
    have "(k, de_expires x) \<in> set (drop (e_cacheHead e) (e_cacheOrder e))"
      using assms(1) m unfolding cache_ok_def by blast
    then show ?thesis using d n by simp
  qed
  ultimately show ?thesis using c h by (auto simp: cache_ok_def)
qed

lemma trim_cache_ok:
  "cache_ok e \<Longrightarrow> 0 \<le> to_cacheSize (e_opts e) \<Longrightarrow>
     cache_ok (trim_cache e) \<and> int (length (e_cache (trim_cache e))) \<le> to_cacheSize (e_opts e)"
proof (induction e rule: trim_cache.induct)
  case (1 e)
  show ?case
  proof (cases "int (length (e_cache e)) > to_cacheSize (e_opts e) \<and> e_cacheHead e < length (e_cacheOrder e)")
    case True
    then show ?thesis using 1 popCache_ok [of e] by (subst (1 2) trim_cache.simps) simp
  next
    case False
    have "int (length (e_cache e)) \<le> to_cacheSize (e_opts e)"
    proof (rule ccontr)
      assume n: "\<not> ?thesis"
      then have "drop (e_cacheHead e) (e_cacheOrder e) = []" using False by auto
      then have "map_of (e_cache e) k = None" for k
        using "1.prems"(1) unfolding cache_ok_def by (metis empty_iff empty_set option.exhaust)
      then have "e_cache e = []" by (metis ext map_of_eq_empty_iff)
      then show False using n "1.prems"(2) by simp
    qed
    then show ?thesis using 1 False by (subst (1 2) trim_cache.simps) simp
  qed
qed

lemma remember_ok:
  assumes "cache_ok e" and "0 \<le> to_cacheSize (e_opts e)"
  shows "cache_ok (remember k d e) \<and> int (length (e_cache (remember k d e))) \<le> to_cacheSize (e_opts e)"
proof -
  have "cache_ok (e\<lparr>e_cache := AList.update k d (e_cache e), e_cacheOrder := e_cacheOrder e @ [(k, de_expires d)]\<rparr>)"
    using assms(1) by (auto simp: cache_ok_def distinct_update update_conv' split: if_splits)
  from trim_cache_ok [OF this] show ?thesis using assms(2) by (simp add: remember_def)
qed

lemma purgeCache_ok:
  "cache_ok e \<Longrightarrow> cache_ok (purgeCache now e) \<and> length (e_cache (purgeCache now e)) \<le> length (e_cache e)"
proof (induction now e rule: purgeCache.induct)
  case (1 now e)
  have le: "length (e_cache (popCache e)) \<le> length (e_cache e)"
    by (auto simp: popCache_def Let_def length_delete_le split: option.splits)
  show ?case
  proof (cases "e_cacheHead e < length (e_cacheOrder e) \<and> \<not> now < snd (e_cacheOrder e ! e_cacheHead e)")
    case True
    then have "cache_ok (purgeCache now (popCache e)) \<and>
        length (e_cache (purgeCache now (popCache e))) \<le> length (e_cache (popCache e))"
      using 1 popCache_ok by blast
    then show ?thesis using True le by (subst (1 2) purgeCache.simps) simp
  next
    case False
    then show ?thesis using 1 by (subst (1 2) purgeCache.simps) auto
  qed
qed

section \<open>Decisions\<close>

lemma cache_ok_cong:
  "e_cache e' = e_cache e \<Longrightarrow> e_cacheOrder e' = e_cacheOrder e \<Longrightarrow> e_cacheHead e' = e_cacheHead e \<Longrightarrow> cache_ok e' = cache_ok e"
  by (simp add: cache_ok_def)

lemma add_refs_cache:
  "e_cacheOrder (fold (add_ref n) is e) = e_cacheOrder e" "e_cacheHead (fold (add_ref n) is e) = e_cacheHead e"
  by (induction "is" arbitrary: e; simp add: add_ref_def)+

lemma set_m_cache [simp]: "e_cacheOrder (set_m f e) = e_cacheOrder e" "e_cacheHead (set_m f e) = e_cacheHead e"
  by (simp_all add: set_m_def)

lemma rate_ratio_cache:
  "rate_ratio pol t now ratio e = (r, e') \<Longrightarrow> e_cacheOrder e' = e_cacheOrder e \<and> e_cacheHead e' = e_cacheHead e"
  by (auto simp: rate_ratio_def Let_def split: if_splits prod.splits)

lemma evaluate_cache:
  "evaluate v pol t now e = (r, e') \<Longrightarrow> e_cacheOrder e' = e_cacheOrder e \<and> e_cacheHead e' = e_cacheHead e"
  by (auto simp: evaluate_def Let_def split: if_splits prod.splits dest: rate_ratio_cache)

lemma decide_cases:
  obtains keep ratio rule where
    "e_out (decide v i reason e) = (if keep then e_out e @ [kept_output (e_heap e i) ratio rule] else e_out e)"
    "\<And>r. e_offs (decide v i reason e) r = (e_offs e r)\<lparr>oe_refs :=
       oe_refs (e_offs e r) - (if keep then 0 else int (count_list (tr_refs (e_heap e i)) r))\<rparr>"
    "m_spans (e_m (decide v i reason e)) = count_up (m_spans (e_m e)) (outcome keep) (length (tr_spans (e_heap e i)))"
    "cache_ok e \<Longrightarrow> 0 \<le> to_cacheSize (e_opts e) \<Longrightarrow> cache_ok (decide v i reason e) \<and>
       int (length (e_cache (decide v i reason e))) \<le> to_cacheSize (e_opts e)"
proof -
  let ?t = "e_heap e i" and ?now = "fst (read_now e)"
  let ?e1 = "take_trace i reason ?now (snd (read_now e))"
  obtain keep ratio rule e2 where ev: "evaluate v (en_policy v (fst (tr_key ?t))) ?t ?now ?e1 = ((keep, ratio, rule), e2)"
    by (metis prod.exhaust)
  note fr = evaluate_frame [OF ev] evaluate_cache [OF ev]
  let ?d = "\<lparr>de_keep = keep, de_ratio = ratio, de_rule = rule, de_expires = ?now + to_ttl (e_opts e2)\<rparr>"
  define e3 where "e3 = remember (tr_key ?t) ?d e2"
  define e4 where "e4 = set_m (\<lambda>m. m\<lparr>m_decisions := count_up (m_decisions m) (rule, outcome keep) 1,
      m_spans := count_up (m_spans m) (outcome keep) (length (tr_spans ?t))\<rparr>) e3"
  have d: "decide v i reason e = (if \<not> keep then fold (add_ref (- 1)) (tr_refs ?t) e4
      else e4\<lparr>e_out := e_out e4 @ [kept_output ?t ratio rule]\<rparr>)"
    using ev by (simp add: decide_def read_now_def Let_def e3_def e4_def)
  have f4: "e_out e4 = e_out e" "e_offs e4 = e_offs e"
    "m_spans (e_m e4) = count_up (m_spans (e_m e)) (outcome keep) (length (tr_spans ?t))"
    using fr by (simp_all add: e4_def e3_def take_trace_def read_now_def Let_def)
  show ?thesis
  proof (rule that)
    show "e_out (decide v i reason e) = (if keep then e_out e @ [kept_output ?t ratio rule] else e_out e)"
      by (simp add: d f4)
    show "e_offs (decide v i reason e) r = (e_offs e r)\<lparr>oe_refs :=
        oe_refs (e_offs e r) - (if keep then 0 else int (count_list (tr_refs ?t) r))\<rparr>" for r
      by (auto simp: d f4 fold_add_ref intro!: off_entry.equality)
    show "m_spans (e_m (decide v i reason e)) = count_up (m_spans (e_m e)) (outcome keep) (length (tr_spans ?t))"
      by (simp add: d f4)
    assume c: "cache_ok e" "0 \<le> to_cacheSize (e_opts e)"
    have "cache_ok e2 = cache_ok e"
      using fr by (intro cache_ok_cong) (simp_all add: take_trace_def read_now_def set_m_def Let_def)
    then have "cache_ok e3 \<and> int (length (e_cache e3)) \<le> to_cacheSize (e_opts e)"
      using remember_ok [of e2 "tr_key ?t" ?d] c fr by (simp add: e3_def take_trace_def read_now_def Let_def)
    moreover have k: "e_cache (decide v i reason e) = e_cache e3" "e_cacheOrder (decide v i reason e) = e_cacheOrder e3"
      "e_cacheHead (decide v i reason e) = e_cacheHead e3"
      by (simp_all add: d e4_def set_m_def add_refs_cache)
    moreover have "cache_ok (decide v i reason e) = cache_ok e3" by (rule cache_ok_cong [OF k])
    ultimately show "cache_ok (decide v i reason e) \<and>
        int (length (e_cache (decide v i reason e))) \<le> to_cacheSize (e_opts e)" by simp
  qed
qed

lemma decide_ex:
  "\<exists>keep ratio rule.
    e_out (decide v i reason e) = (if keep then e_out e @ [kept_output (e_heap e i) ratio rule] else e_out e) \<and>
    (\<forall>r. e_offs (decide v i reason e) r = (e_offs e r)\<lparr>oe_refs :=
       oe_refs (e_offs e r) - (if keep then 0 else int (count_list (tr_refs (e_heap e i)) r))\<rparr>) \<and>
    m_spans (e_m (decide v i reason e)) = count_up (m_spans (e_m e)) (outcome keep) (length (tr_spans (e_heap e i)))"
  by (rule decide_cases [of v i reason e]) (intro exI conjI allI, assumption+)

lemma decide_buffer:
  assumes "buffer_ok e" and "i \<in> set (e_fifo e)"
  shows "buffer_ok (decide v i reason e)"
proof -
  have d: "distinct (e_fifo e)" "distinct (map fst (e_traces e))"
    and m: "\<And>k j. map_of (e_traces e) k = Some j \<longleftrightarrow> j \<in> set (e_fifo e) \<and> tr_key (e_heap e j) = k"
    and n: "\<And>j. j \<in> set (e_fifo e) \<Longrightarrow> j < e_nextTrace e"
    using assms(1) unfolding buffer_ok_def by blast+
  have "map_of (AList.delete (tr_key (e_heap e i)) (e_traces e)) k = Some j \<longleftrightarrow>
      (j \<in> set (e_fifo e) \<and> j \<noteq> i) \<and> tr_key (e_heap e j) = k" for k j
  proof (cases "k = tr_key (e_heap e i)")
    case True
    have "j = i" if "j \<in> set (e_fifo e)" "tr_key (e_heap e j) = k"
      using m [of k j] m [of k i] that assms(2) True by simp
    then show ?thesis using True by (auto simp: delete_conv)
  next
    case False
    then show ?thesis using m by (auto simp: delete_conv)
  qed
  then show ?thesis
    using d n by (auto simp: buffer_ok_def decide_frame distinct_delete)
qed

lemma decide_totals:
  assumes "totals_ok v e" and "buffer_ok e" and "i \<in> set (e_fifo e)"
  shows "totals_ok v (decide v i reason e)"
proof -
  have f: "distinct (e_fifo e)" using assms(2) by (simp add: buffer_ok_def)
  then have s: "set (remove1 i (e_fifo e)) = set (e_fifo e) - {i}" by simp
  have "(\<Sum>j\<in>set (e_fifo e) - {i}. g j) = (\<Sum>j\<in>set (e_fifo e). g j) - g i" for g :: "nat \<Rightarrow> int"
    using assms(3) by (subst (2) sum.remove [of _ i]) auto
  then show ?thesis using assms(1,3) by (simp add: totals_ok_def decide_frame s)
qed

lemma decide_bounds:
  assumes "bounds_but X e" and "X \<subseteq> {i}" and "buffer_ok e"
  shows "bounds_but {} (decide v i reason e)"
proof -
  have "length (AList.delete (tr_key (e_heap e i)) (e_traces e)) \<le> length (e_traces e)" by (rule length_delete_le)
  moreover have "set (remove1 i (e_fifo e)) \<subseteq> set (e_fifo e) - X"
    using assms(2,3) by (auto simp: buffer_ok_def)
  ultimately show ?thesis using assms(1) unfolding bounds_but_def decide_frame by auto
qed

lemma decide_refs:
  assumes "refs_ok leak extra e" and "buffer_ok e" and "i \<in> set (e_fifo e)"
  shows "refs_ok leak extra (decide v i reason e)"
proof -
  obtain keep ratio rule where c:
    "e_out (decide v i reason e) = (if keep then e_out e @ [kept_output (e_heap e i) ratio rule] else e_out e)"
    "\<forall>r. e_offs (decide v i reason e) r = (e_offs e r)\<lparr>oe_refs :=
       oe_refs (e_offs e r) - (if keep then 0 else int (count_list (tr_refs (e_heap e i)) r))\<rparr>"
    using decide_ex [of v i reason e] by (elim exE conjE)
  have f: "distinct (e_fifo e)" using assms(2) by (simp add: buffer_ok_def)
  have b: "buf_refs e r = count_list (tr_refs (e_heap e i)) r + buf_refs (decide v i reason e) r" for r
    unfolding buf_refs_def decide_frame using f assms(3) by (subst sum.remove [of _ i]) auto
  have z: "count_list (tr_refs (e_heap e i)) r = 0" if "r \<ge> e_nextOff e" for r
  proof -
    have "oe_refs (e_offs e r) = 0" and "oe_refs (e_offs e r) = int (buf_refs e r + out_refs (e_out e @ extra) r + leak r)"
      using assms(1) that unfolding refs_ok_def by blast+
    then show ?thesis using b [of r] by simp
  qed
  have "out_refs (e_out (decide v i reason e) @ extra) r =
      out_refs (e_out e @ extra) r + (if keep then count_list (tr_refs (e_heap e i)) r else 0)" for r
    by (simp add: c(1) kept_output_def)
  then show ?thesis using assms(1) b z by (auto simp: refs_ok_def c(2) decide_frame)
qed

text \<open>The parts of the invariant on records survive when offsets stay and no reference count grows.\<close>

lemma parts_ok_mono:
  assumes "parts_ok h e" and "e_parts e' = e_parts e" and "e_nextOff e' = e_nextOff e"
    and "\<And>r. oe_offset (e_offs e' r) = oe_offset (e_offs e r)"
    and "\<And>r. 0 \<le> oe_refs (e_offs e' r)"
    and "\<And>r. r \<noteq> new \<Longrightarrow> oe_refs (e_offs e' r) \<le> oe_refs (e_offs e r)"
    and "\<And>k. h_owner h new = Some k \<Longrightarrow> \<exists>ps. map_of (e_parts e) k = Some ps \<and> new \<in> set (ps_entries ps)"
  shows "parts_ok h e'"
proof -
  have "part_ok e' ps = part_ok e ps" for ps using assms(3,4) by (simp add: part_ok_def)
  moreover have "owner_ok h e'"
    unfolding owner_ok_def
  proof (intro allI impI)
    fix i k assume i: "h_owner h i = Some k"
    then obtain ps where ps: "i < e_nextOff e" "map_of (e_parts e) k = Some ps"
      "i \<in> set (ps_entries ps) \<or> oe_refs (e_offs e i) = 0"
      using assms(1) unfolding parts_ok_def owner_ok_def by blast
    have "i \<in> set (ps_entries ps) \<or> oe_refs (e_offs e' i) = 0"
    proof (cases "i = new")
      case True
      then show ?thesis using assms(7) [of k] i ps(2) by auto
    next
      case False
      then show ?thesis using ps(3) assms(5) [of i] assms(6) [of i] by auto
    qed
    then show "i < e_nextOff e' \<and> (\<exists>ps. map_of (e_parts e') k = Some ps \<and> (i \<in> set (ps_entries ps) \<or> oe_refs (e_offs e' i) = 0))"
      using ps assms(2,3) by auto
  qed
  ultimately show ?thesis using assms(1-4) by (simp add: parts_ok_def adds_ok_def)
qed

lemma refs_nonneg: "refs_ok leak extra e \<Longrightarrow> 0 \<le> oe_refs (e_offs e r)"
  by (simp add: refs_ok_def)

lemma decide_parts:
  assumes "parts_ok h e" and "refs_ok leak extra e" and "buffer_ok e" and "i \<in> set (e_fifo e)"
  shows "parts_ok h (decide v i reason e)"
proof -
  obtain keep where c: "\<forall>r. e_offs (decide v i reason e) r = (e_offs e r)\<lparr>oe_refs :=
       oe_refs (e_offs e r) - (if keep then 0 else int (count_list (tr_refs (e_heap e i)) r))\<rparr>"
    using decide_ex [of v i reason e] by (elim exE conjE)
  have n: "0 \<le> oe_refs (e_offs (decide v i reason e) r)" for r
    by (rule refs_nonneg [OF decide_refs [OF assms(2-4)]])
  have "owner_ok h (decide v i reason e)"
    unfolding owner_ok_def
  proof (intro allI impI)
    fix j k assume "h_owner h j = Some k"
    then obtain ps where ps: "j < e_nextOff e" "map_of (e_parts e) k = Some ps"
      "j \<in> set (ps_entries ps) \<or> oe_refs (e_offs e j) = 0"
      using assms(1) unfolding parts_ok_def owner_ok_def by blast
    moreover have "oe_refs (e_offs (decide v i reason e) j) \<le> oe_refs (e_offs e j)" by (simp add: c)
    ultimately show "j < e_nextOff (decide v i reason e) \<and>
        (\<exists>ps. map_of (e_parts (decide v i reason e)) k = Some ps \<and>
          (j \<in> set (ps_entries ps) \<or> oe_refs (e_offs (decide v i reason e) j) = 0))"
      using n [of j] by (auto simp: decide_frame)
  qed
  then show ?thesis using assms(1) by (simp add: parts_ok_def part_ok_def adds_ok_def decide_frame c)
qed

lemma kept_output_sourced:
  assumes "trace_sourced h t"
  shows "out_sourced h (kept_output t ratio rule)"
  unfolding out_sourced_def
proof
  fix x assume "x \<in> set (spans_of (ou_request (kept_output t ratio rule)))"
  then obtain rs ss sp where s: "(rs, ss, sp) \<in> set (tr_spans t)" "x = reweighted sp rs ratio"
    by (auto simp: kept_output_spans)
  with assms obtain ent src req where
    "ent \<in> set (tr_refs t)" "(ent, src, req) \<in> set (h_adds h)" "(rs, ss, sp) \<in> set (request_spans req)"
    "tr_key t = (so_tenant src, sp_traceId sp)"
    unfolding trace_sourced_def by fastforce
  then show "\<exists>ent\<in>set (ou_refs (kept_output t ratio rule)). \<exists>src req rs ss sp ratio'.
      (ent, src, req) \<in> set (h_adds h) \<and> (rs, ss, sp) \<in> set (request_spans req) \<and> x = reweighted sp rs ratio' \<and>
      ou_tenant (kept_output t ratio rule) = so_tenant src \<and> ou_traceID (kept_output t ratio rule) = sp_traceId sp"
    using s(2) by (intro bexI [of _ ent] exI conjI) (auto simp: kept_output_def)
qed

lemma decide_sources:
  assumes "sources_ok h extra e" and "i \<in> set (e_fifo e)"
  shows "sources_ok h extra (decide v i reason e)"
proof -
  obtain keep ratio rule where
    "e_out (decide v i reason e) = (if keep then e_out e @ [kept_output (e_heap e i) ratio rule] else e_out e)"
    using decide_ex [of v i reason e] by (elim exE conjE)
  then show ?thesis
    using assms kept_output_sourced [of h "e_heap e i"]
    by (auto simp: sources_ok_def decide_frame dest: subsetD [OF set_remove1_subset])
qed

lemma decide_inv:
  assumes "inv v h leak extra X e" and "X \<subseteq> {i}" and "i \<in> set (e_fifo e)"
  shows "inv v h leak extra {} (decide v i reason e)"
proof -
  have "cache_ok e" "0 \<le> to_cacheSize (e_opts e)" using assms(1) by (auto simp: inv_def bounds_but_def)
  then have "cache_ok (decide v i reason e) \<and> int (length (e_cache (decide v i reason e))) \<le> to_cacheSize (e_opts e)"
    using decide_cases [of v i reason e] by metis
  then show ?thesis
    using assms decide_buffer decide_totals decide_bounds decide_refs decide_parts decide_sources
    by (auto simp: inv_def decide_frame)
qed

text \<open>What every decision of a buffered trace keeps, the loops of the engine keep.\<close>

locale decision_stable =
  fixes v :: env and P :: "engine \<Rightarrow> bool"
  assumes decide_stable: "P e \<Longrightarrow> i \<in> set (e_fifo e) \<Longrightarrow> P (decide v i reason e)"
begin

lemma shed_stable: "P e \<Longrightarrow> P (shed v e)"
proof (induction v \<equiv> v e rule: shed.induct)
  case (1 e)
  then show ?case using decide_stable [OF "1.prems"] by (subst shed.simps) simp
qed

lemma due_stable: "P e \<Longrightarrow> P (decide_due v now e)"
proof (induction v \<equiv> v now e rule: decide_due.induct)
  case (1 now e)
  then show ?case using decide_stable [OF "1.prems"] by (subst decide_due.simps) simp
qed

lemma rest_stable: "P e \<Longrightarrow> P (decide_rest v reason e)"
proof (induction v \<equiv> v reason e rule: decide_rest.induct)
  case (1 reason e)
  then show ?case using decide_stable [OF "1.prems"] by (subst decide_rest.simps) simp
qed

lemma list_stable:
  "P e \<Longrightarrow> distinct xs \<Longrightarrow> set xs \<subseteq> set (e_fifo e) \<Longrightarrow> P (fold (\<lambda>i. decide v i reason) xs e)"
proof (induction xs arbitrary: e)
  case (Cons x xs)
  have "P (decide v x reason e)" using Cons.prems by (intro decide_stable) auto
  moreover have "set xs \<subseteq> set (e_fifo (decide v x reason e))" 
  proof
    fix y assume "y \<in> set xs"
    then have "y \<noteq> x" "y \<in> set (e_fifo e)" using Cons.prems by auto
    then show "y \<in> set (e_fifo (decide v x reason e))" by (simp add: decide_frame)
  qed
  ultimately show ?case using Cons by simp
qed simp

end

interpretation kept: decision_stable v "inv v h leak extra {}" for v h leak extra
  by unfold_locales (auto intro: decide_inv)

section \<open>Adding spans\<close>

lemma sum_upd:
  fixes g :: "'b \<Rightarrow> 'c::cancel_comm_monoid_add"
  assumes "finite A" and "i \<in> A"
  shows "(\<Sum>j\<in>A. g ((f(i := t)) j)) + g (f i) = (\<Sum>j\<in>A. g (f j)) + g t"
proof -
  have "(\<Sum>j\<in>A - {i}. g ((f(i := t)) j)) = (\<Sum>j\<in>A - {i}. g (f j))" by (rule sum.cong) auto
  then show ?thesis using assms by (simp add: sum.remove [of _ i] ac_simps)
qed

definition adds_ref :: "nat \<Rightarrow> nat \<Rightarrow> nat list \<Rightarrow> engine \<Rightarrow> bool" where
  "adds_ref i ent touched e \<longleftrightarrow>
     i \<notin> set touched \<and> (tr_refs (e_heap e i) = [] \<or> last (tr_refs (e_heap e i)) \<noteq> ent)"

definition grown :: "env \<Rightarrow> nat \<Rightarrow> nat \<Rightarrow> nat list \<Rightarrow> placed_span \<Rightarrow> engine \<Rightarrow> trace" where
  "grown v i ent touched s e =
     (let t = e_heap e i in
      t\<lparr>tr_spans := tr_spans t @ [s], tr_bytes := tr_bytes t + (int (en_size v (snd (snd s))) + 16),
        tr_refs := tr_refs t @ (if adds_ref i ent touched e then [ent] else [])\<rparr>)"

lemma appendSpan_frame:
  assumes "appendSpan v i ent touched s e = (touched', e')"
  shows "e_heap e' = (e_heap e)(i := grown v i ent touched s e)" "touched' = (if i \<in> set touched then touched else i # touched)"
    "e_offs e' = (if adds_ref i ent touched e
       then (e_offs e)(ent := (e_offs e ent)\<lparr>oe_refs := oe_refs (e_offs e ent) + 1\<rparr>) else e_offs e)"
    "e_bytes e' = e_bytes e + (int (en_size v (snd (snd s))) + 16)" "e_spans e' = e_spans e + 1"
    "e_fifo e' = e_fifo e" "e_traces e' = e_traces e" "e_nextTrace e' = e_nextTrace e" "e_opts e' = e_opts e"
    "e_cache e' = e_cache e" "e_cacheOrder e' = e_cacheOrder e" "e_cacheHead e' = e_cacheHead e"
    "e_parts e' = e_parts e" "e_nextOff e' = e_nextOff e" "e_out e' = e_out e" "e_m e' = e_m e"
    "e_clock e' = e_clock e" "e_reads e' = e_reads e"
  using assms by (auto simp: appendSpan_def Let_def grown_def adds_ref_def add_ref_def fun_eq_iff split: if_splits)

definition touched_ok :: "nat \<Rightarrow> nat list \<Rightarrow> engine \<Rightarrow> bool" where
  "touched_ok ent touched e \<longleftrightarrow> (\<forall>i\<in>set touched. i < e_nextTrace e \<and> ent \<in> set (tr_refs (e_heap e i)))"

text \<open>The record that is being added.\<close>

definition current :: "history \<Rightarrow> nat \<Rightarrow> source_rec \<Rightarrow> trace_request \<Rightarrow> engine \<Rightarrow> bool" where
  "current h ent src req e \<longleftrightarrow>
     (ent, src, req) \<in> set (h_adds h) \<and> ent < e_nextOff e \<and>
     (\<forall>k. h_owner h ent = Some k \<longrightarrow> (\<exists>ps. map_of (e_parts e) k = Some ps \<and> ent \<in> set (ps_entries ps)))"

lemma grown_ref: "touched_ok ent touched e \<Longrightarrow> ent \<in> set (tr_refs (grown v i ent touched s e))"
  by (auto simp: grown_def Let_def adds_ref_def touched_ok_def)

lemma appendSpan_inv:
  assumes i: "inv v h leak extra {} e" and c: "current h ent src req e" and t: "touched_ok ent touched e"
    and f: "i \<in> set (e_fifo e)" and k: "tr_key (e_heap e i) = (so_tenant src, sp_traceId (snd (snd s)))"
    and s: "s \<in> set (request_spans req)" and a: "appendSpan v i ent touched s e = (touched', e')"
  shows "inv v h leak extra {i} e'" and "touched_ok ent touched' e'" and "current h ent src req e'"
proof -
  note fr = appendSpan_frame [OF a]
  let ?g = "grown v i ent touched s e"
  have g: "tr_key ?g = tr_key (e_heap e i)" "tr_spans ?g = tr_spans (e_heap e i) @ [s]"
    "tr_bytes ?g = tr_bytes (e_heap e i) + (int (en_size v (snd (snd s))) + 16)"
    "tr_refs ?g = tr_refs (e_heap e i) @ (if adds_ref i ent touched e then [ent] else [])"
    by (simp_all add: grown_def Let_def)
  have nt: "i < e_nextTrace e" using i f by (auto simp: inv_def buffer_ok_def)
  show "touched_ok ent touched' e'"
    using t nt grown_ref [OF t, of v i s] by (auto simp: touched_ok_def fr)
  show "current h ent src req e'" using c by (simp add: current_def fr)
  have "buffer_ok e'" using i by (auto simp: inv_def buffer_ok_def fr g)
  moreover have "totals_ok v e'"
  proof -
    have "totals_ok v e" using i by (simp add: inv_def)
    moreover have "(\<Sum>j\<in>set (e_fifo e). int (length (tr_spans (((e_heap e)(i := ?g)) j)))) =
        (\<Sum>j\<in>set (e_fifo e). int (length (tr_spans (e_heap e j)))) + 1"
      using sum_upd [OF _ f, of "\<lambda>t. int (length (tr_spans t))" "e_heap e" ?g] by (simp add: g)
    moreover have "(\<Sum>j\<in>set (e_fifo e). tr_bytes (((e_heap e)(i := ?g)) j)) =
        (\<Sum>j\<in>set (e_fifo e). tr_bytes (e_heap e j)) + (int (en_size v (snd (snd s))) + 16)"
      using sum_upd [OF _ f, of tr_bytes "e_heap e" ?g] by (simp add: g)
    moreover have "tr_bytes ?g = span_bytes v (tr_spans ?g)"
      using calculation(1) f by (auto simp: totals_ok_def g span_bytes_def)
    ultimately show ?thesis unfolding totals_ok_def fr by auto
  qed
  moreover have "bounds_but {i} e'" using i by (auto simp: inv_def bounds_but_def fr)
  moreover have "cache_ok e'" using i cache_ok_cong [of e' e] by (simp add: inv_def fr)
  moreover have r: "refs_ok leak extra e'"
  proof -
    have "buf_refs e' r = buf_refs e r + (if adds_ref i ent touched e \<and> r = ent then 1 else 0)" for r
      using sum_upd [OF _ f, of "\<lambda>t. count_list (tr_refs t) r" "e_heap e" ?g] by (simp add: buf_refs_def fr g)
    moreover have "refs_ok leak extra e" "ent < e_nextOff e" using i c by (auto simp: inv_def current_def)
    ultimately show ?thesis by (auto simp: refs_ok_def fr)
  qed
  moreover have "parts_ok h e'"
  proof (rule parts_ok_mono [where e = e and new = ent])
    show "\<exists>ps. map_of (e_parts e) k = Some ps \<and> ent \<in> set (ps_entries ps)" if "h_owner h ent = Some k" for k
      using c that by (simp add: current_def)
  qed (use i r in \<open>auto simp: inv_def fr refs_nonneg\<close>)
  moreover have "sources_ok h extra e'"
  proof -
    have "trace_sourced h ?g"
      unfolding trace_sourced_def
    proof
      fix x assume "x \<in> set (tr_spans ?g)"
      then consider "x \<in> set (tr_spans (e_heap e i))" | "x = s" by (auto simp: g)
      then show "\<exists>ent\<in>set (tr_refs ?g). \<exists>src req. (ent, src, req) \<in> set (h_adds h) \<and> x \<in> set (request_spans req) \<and>
          tr_key ?g = (so_tenant src, sp_traceId (snd (snd x)))"
      proof cases
        case 1
        have "trace_sourced h (e_heap e i)" using i f by (simp add: inv_def sources_ok_def)
        then show ?thesis using 1 unfolding trace_sourced_def g by fastforce
      next
        case 2
        then show ?thesis
          using grown_ref [OF t, of v i s] c k s by (intro bexI [of _ ent] exI [of _ src] exI [of _ req]) (auto simp: current_def g)
      qed
    qed
    then show ?thesis using i by (auto simp: inv_def sources_ok_def fr)
  qed
  ultimately show "inv v h leak extra {i} e'" using i by (simp add: inv_def fr)
qed

lemma check_full_inv:
  assumes "inv v h leak extra {i} e" and "i \<in> set (e_fifo e)"
  shows "inv v h leak extra {} (check_full v i e)"
proof (cases "int (length (tr_spans (e_heap e i))) \<ge> to_maxSpans (e_opts e)")
  case True
  then show ?thesis using decide_inv [OF assms(1) _ assms(2)] by (simp add: check_full_def)
next
  case False
  then have "bounds_but {} e" using assms by (auto simp: inv_def bounds_but_def)
  then show ?thesis using assms(1) False by (simp add: check_full_def inv_def)
qed

lemma length_delete_less: "k \<in> fst ` set xs \<Longrightarrow> length (AList.delete k xs) < length xs"
  by (auto simp: AList.delete_eq intro!: length_filter_less)

lemma length_update_new: "map_of xs k = None \<Longrightarrow> length (AList.update k x xs) = Suc (length xs)"
  by (induction xs) (auto split: if_splits)

lemma buffer_front:
  assumes "buffer_ok e" and "e_traces e \<noteq> []"
  shows "hd (e_fifo e) \<in> set (e_fifo e)" and "tr_key (e_heap e (hd (e_fifo e))) \<in> fst ` set (e_traces e)"
proof -
  obtain k i xs where "e_traces e = (k, i) # xs" using assms(2) by (metis list.exhaust surj_pair)
  then have "map_of (e_traces e) k = Some i" by simp
  then have "i \<in> set (e_fifo e)" using assms(1) unfolding buffer_ok_def by blast
  then show h: "hd (e_fifo e) \<in> set (e_fifo e)" by (metis empty_iff empty_set hd_in_set)
  then have "map_of (e_traces e) (tr_key (e_heap e (hd (e_fifo e)))) = Some (hd (e_fifo e))"
    using assms(1) unfolding buffer_ok_def by blast
  then show "tr_key (e_heap e (hd (e_fifo e))) \<in> fst ` set (e_traces e)" by (metis domI dom_map_of_conv_image_fst)
qed

lemma make_room_inv:
  assumes "inv v h leak extra {} e"
  shows "inv v h leak extra {} (make_room v e)" and "int (length (e_traces (make_room v e))) < to_maxTraces (e_opts e)"
    and "map_of (e_traces e) key = None \<Longrightarrow> map_of (e_traces (make_room v e)) key = None"
proof -
  have b: "buffer_ok e" "0 < to_maxTraces (e_opts e)" "int (length (e_traces e)) \<le> to_maxTraces (e_opts e)"
    using assms by (auto simp: inv_def bounds_but_def)
  show "inv v h leak extra {} (make_room v e)"
  proof (cases "int (length (e_traces e)) \<ge> to_maxTraces (e_opts e)")
    case True
    then have "e_traces e \<noteq> []" using b(2) by auto
    then show ?thesis using True decide_inv [OF assms _ buffer_front(1) [OF b(1)]] by (simp add: make_room_def)
  qed (use assms in \<open>simp add: make_room_def\<close>)
  show "int (length (e_traces (make_room v e))) < to_maxTraces (e_opts e)"
  proof (cases "int (length (e_traces e)) \<ge> to_maxTraces (e_opts e)")
    case True
    then have "e_traces e \<noteq> []" using b(2) by auto
    then show ?thesis using True b(3) length_delete_less [OF buffer_front(2) [OF b(1)]] by (simp add: make_room_def decide_frame)
  qed (simp add: make_room_def)
  show "map_of (e_traces e) key = None \<Longrightarrow> map_of (e_traces (make_room v e)) key = None"
    by (auto simp: make_room_def decide_frame delete_conv)
qed

lemma frame_make_room:
  "e_nextTrace (make_room v e) = e_nextTrace e" "e_heap (make_room v e) = e_heap e" "e_opts (make_room v e) = e_opts e"
  "e_nextOff (make_room v e) = e_nextOff e" "e_parts (make_room v e) = e_parts e"
  by (simp_all add: make_room_def decide_frame)

lemma frame_check_full:
  "e_nextTrace (check_full v i e) = e_nextTrace e" "e_heap (check_full v i e) = e_heap e"
  "e_opts (check_full v i e) = e_opts e" "e_nextOff (check_full v i e) = e_nextOff e" "e_parts (check_full v i e) = e_parts e"
  by (simp_all add: check_full_def decide_frame)

lemma new_trace_inv:
  assumes i: "inv v h leak extra {} e" and l: "int (length (e_traces e)) < to_maxTraces (e_opts e)"
    and k: "map_of (e_traces e) key = None" and n: "new_trace src key now e = (i, e')"
  shows "inv v h leak extra {} e'" and "i \<in> set (e_fifo e')" and "tr_key (e_heap e' i) = key"
    and "touched_ok ent touched e \<Longrightarrow> touched_ok ent touched e'" and "e_nextOff e' = e_nextOff e" and "e_parts e' = e_parts e"
proof -
  define t where "t = \<lparr>tr_key = key, tr_first = now, tr_spans = [], tr_bytes = 0, tr_refs = [],
    tr_receivedAt = so_receivedAt src, tr_requestID = so_requestID src\<rparr>"
  have e': "e' = e\<lparr>e_heap := (e_heap e)(i := t), e_nextTrace := Suc i, e_fifo := e_fifo e @ [i],
      e_traces := AList.update key i (e_traces e)\<rparr>" "i = e_nextTrace e"
    using n by (auto simp: new_trace_def Let_def t_def)
  have b: "buffer_ok e" using i by (simp add: inv_def)
  then have ni: "i \<notin> set (e_fifo e)" using e'(2) by (auto simp: buffer_ok_def)
  have same: "((e_heap e)(i := t)) j = e_heap e j" if "j \<in> set (e_fifo e)" for j using that ni by auto
  show "i \<in> set (e_fifo e')" "tr_key (e_heap e' i) = key" "e_nextOff e' = e_nextOff e" "e_parts e' = e_parts e"
    by (simp_all add: e'(1) t_def)
  show "touched_ok ent touched e \<Longrightarrow> touched_ok ent touched e'" by (auto simp: touched_ok_def e' less_Suc_eq)
  have sums: "(\<Sum>j\<in>insert i (set (e_fifo e)). g (((e_heap e)(i := t)) j)) = g t + (\<Sum>j\<in>set (e_fifo e). g (e_heap e j))"
    for g :: "trace \<Rightarrow> 'c::comm_monoid_add"
    using ni same by (simp cong: sum.cong)
  have "length (AList.update key i (e_traces e)) = Suc (length (e_traces e))"
    using k by (rule length_update_new)
  then have "bounds_but {} e'" using i l ni by (auto simp: inv_def bounds_but_def e'(1) t_def)
  moreover have "buffer_ok e'"
    using b k ni e'(2) unfolding buffer_ok_def
    by (auto simp: e'(1) t_def distinct_update update_conv' less_Suc_eq split: if_splits)
  moreover have "totals_ok v e'"
    using i ni sums [of "\<lambda>t. int (length (tr_spans t))"] sums [of tr_bytes]
    by (auto simp: inv_def totals_ok_def e'(1) t_def span_bytes_def)
  moreover have "cache_ok e'" using i cache_ok_cong [of e' e] by (simp add: inv_def e'(1))
  moreover have "buf_refs e' r = buf_refs e r" for r
    using sums [of "\<lambda>t. count_list (tr_refs t) r"] by (simp add: buf_refs_def e'(1) t_def)
  then have "refs_ok leak extra e'" using i refs_ok_cong [of e' e] by (simp add: inv_def e'(1))
  moreover have "parts_ok h e'" using i parts_ok_cong [of e' e h] by (simp add: inv_def e'(1))
  moreover have "sources_ok h extra e'" using i same by (auto simp: inv_def sources_ok_def e'(1) t_def trace_sourced_def)
  ultimately show "inv v h leak extra {} e'" using i by (simp add: inv_def e'(1))
qed

text \<open>Operations that touch only the counters, the clock and the cache.\<close>

lemma buffer_cong:
  assumes "e_opts e' = e_opts e" "e_heap e' = e_heap e" "e_nextTrace e' = e_nextTrace e" "e_traces e' = e_traces e"
    "e_fifo e' = e_fifo e" "e_spans e' = e_spans e" "e_bytes e' = e_bytes e"
  shows "buffer_ok e' = buffer_ok e" and "totals_ok v e' = totals_ok v e" and "bounds_but X e' = bounds_but X e"
  unfolding buffer_ok_def totals_ok_def bounds_but_def assms by (rule refl)+

lemma inv_cong:
  assumes "e_opts e' = e_opts e" "e_heap e' = e_heap e" "e_nextTrace e' = e_nextTrace e" "e_traces e' = e_traces e"
    "e_fifo e' = e_fifo e" "e_spans e' = e_spans e" "e_bytes e' = e_bytes e" "e_offs e' = e_offs e"
    "e_nextOff e' = e_nextOff e" "e_parts e' = e_parts e" "e_out e' = e_out e"
    and "inv v h leak extra X e" and "cache_ok e'" and "length (e_cache e') \<le> length (e_cache e)"
  shows "inv v h leak extra X e'"
proof -
  note eq = assms(1-11)
  have "buffer_ok e' = buffer_ok e" "totals_ok v e' = totals_ok v e" "bounds_but X e' = bounds_but X e"
    by (rule buffer_cong [OF eq(1-7)])+
  moreover have "sources_ok h extra e' = sources_ok h extra e" "refs_ok leak extra e' = refs_ok leak extra e"
    unfolding sources_ok_def refs_ok_def buf_refs_def eq by (rule refl)+
  moreover have "parts_ok h e' = parts_ok h e" by (rule parts_ok_cong) (rule eq)+
  ultimately show ?thesis using assms(12-14) eq(1) by (simp add: inv_def)
qed

lemma set_m_inv: "inv v h leak extra X e \<Longrightarrow> inv v h leak extra X (set_m f e)"
proof (rule inv_cong [of _ e])
  assume "inv v h leak extra X e"
  then show "inv v h leak extra X e" "cache_ok (set_m f e)" using cache_ok_cong [of "set_m f e" e] by (simp_all add: inv_def)
qed simp_all

lemma gauges_inv: "inv v h leak extra X e \<Longrightarrow> inv v h leak extra X (gauges e)"
  unfolding gauges_def by (rule set_m_inv)

lemma read_now_inv: "inv v h leak extra X e \<Longrightarrow> inv v h leak extra X (snd (read_now e))"
proof (rule inv_cong [of _ e])
  assume "inv v h leak extra X e"
  then show "inv v h leak extra X e" "cache_ok (snd (read_now e))"
    using cache_ok_cong [of "snd (read_now e)" e] by (simp_all add: inv_def read_now_def)
qed (simp_all add: read_now_def)

lemma purge_inv: "inv v h leak extra X e \<Longrightarrow> inv v h leak extra X (purgeCache now e)"
proof (rule inv_cong [of _ e])
  assume i: "inv v h leak extra X e"
  then have "cache_ok e" by (simp add: inv_def)
  from purgeCache_ok [OF this, of now]
  show "inv v h leak extra X e" "cache_ok (purgeCache now e)" "length (e_cache (purgeCache now e)) \<le> length (e_cache e)"
    using i by simp_all
qed simp_all

text \<open>An output gets its reference before it joins the late outputs.\<close>

lemma add_output_inv:
  assumes i: "inv v h leak extra X e" and c: "current h ent src req e" and o: "ou_refs o1 = [ent]" "out_sourced h o1"
  shows "inv v h leak (o1 # extra) X (add_ref 1 ent e)"
proof -
  have b: "buf_refs (add_ref 1 ent e) r = buf_refs e r" for r by (simp add: buf_refs_def)
  have r: "refs_ok leak (o1 # extra) (add_ref 1 ent e)"
  proof -
    have "refs_ok leak extra e" "ent < e_nextOff e" using i c by (auto simp: inv_def current_def)
    then show ?thesis using o(1) b by (auto simp: refs_ok_def) (auto simp: add_ref_def)
  qed
  moreover have "parts_ok h (add_ref 1 ent e)"
  proof (rule parts_ok_mono [where e = e and new = ent])
    show "\<exists>ps. map_of (e_parts e) k = Some ps \<and> ent \<in> set (ps_entries ps)" if "h_owner h ent = Some k" for k
      using c that by (simp add: current_def)
    show "0 \<le> oe_refs (e_offs (add_ref 1 ent e) q)" for q by (rule refs_nonneg [OF r])
  qed (use i in \<open>auto simp: inv_def add_ref_def\<close>)
  moreover have "cache_ok (add_ref 1 ent e)" using i cache_ok_cong [of "add_ref 1 ent e" e] by (simp add: inv_def add_ref_def)
  moreover have "sources_ok h (o1 # extra) (add_ref 1 ent e)" using i o(2) by (simp add: inv_def sources_ok_def)
  moreover have "buffer_ok (add_ref 1 ent e)" "totals_ok v (add_ref 1 ent e)" "bounds_but X (add_ref 1 ent e)"
    using i buffer_cong [of "add_ref 1 ent e" e] by (simp_all add: inv_def)
  ultimately show ?thesis using i by (simp add: inv_def)
qed

text \<open>The outputs outside the engine may be reordered, and replaced by ones with the same references.\<close>

lemma inv_extra:
  assumes "inv v h leak extra X e" and "\<And>r. out_refs extra' r = out_refs extra r"
    and "\<And>o1. o1 \<in> set extra' \<Longrightarrow> out_sourced h o1"
  shows "inv v h leak extra' X e"
proof -
  have "refs_ok leak extra' e = refs_ok leak extra e" by (simp only: refs_ok_def out_refs_simps assms(2))
  moreover have "sources_ok h extra' e" using assms by (auto simp: inv_def sources_ok_def)
  ultimately show ?thesis using assms(1) by (simp add: inv_def)
qed

end
