(* ===== verification/TailEngineRuns.thy ===== *)
theory TailEngineRuns
  imports TailEngineCorrect
begin

text \<open>
  The invariant of the tail sampling engine over whole runs: late spans, whole records, time,
  rebalancing and the offsets that may be committed.
\<close>

section \<open>Late spans\<close>

definition late_ok :: "nat \<Rightarrow> string \<Rightarrow> (trace_key \<times> tail_output) list \<Rightarrow> bool" where
  "late_ok ent tenant late \<longleftrightarrow> distinct (map fst late) \<and>
     (\<forall>(k, o1)\<in>set late. ou_refs o1 = [ent] \<and> k = (tenant, ou_traceID o1) \<and> ou_tenant o1 = tenant)"

lemma update_old_refs:
  assumes "map_of late key = Some o1" and "distinct (map fst late)" and "ou_refs o2 = ou_refs o1"
  shows "out_refs (map snd (AList.update key o2 late)) r = out_refs (map snd late) r"
  using assms by (induction late) (auto split: if_splits)

lemma update_new_refs:
  "map_of late key = None \<Longrightarrow> out_refs (map snd (AList.update key o1 late)) r = out_refs (o1 # map snd late) r"
  by (induction late) (auto split: if_splits)

lemma set_update_subset: "set (AList.update k x xs) \<subseteq> insert (k, x) (set xs)"
  by (induction xs) auto

lemma update_ran: "y \<in> snd ` set (AList.update k x xs) \<Longrightarrow> y = x \<or> y \<in> snd ` set xs"
  using set_update_subset [of k x xs] by force

lemma late_ok_update:
  assumes "late_ok ent tenant late" and "ou_refs o1 = [ent]" and "ou_tenant o1 = tenant" and "key = (tenant, ou_traceID o1)"
  shows "late_ok ent tenant (AList.update key o1 late)"
  unfolding late_ok_def
proof (intro conjI ballI)
  show "distinct (map fst (AList.update key o1 late))" using assms(1) by (simp add: late_ok_def distinct_update)
  fix x assume "x \<in> set (AList.update key o1 late)"
  then have "x = (key, o1) \<or> x \<in> set late" using set_update_subset [of key o1 late] by blast
  then show "case x of (k, o2) \<Rightarrow> ou_refs o2 = [ent] \<and> k = (tenant, ou_traceID o2) \<and> ou_tenant o2 = tenant"
    using assms unfolding late_ok_def by (elim disjE) (simp, blast)
qed

lemma update_sourced:
  assumes "sources_ok h (map snd late) e" and "out_sourced h o1" and "o2 \<in> set (map snd (AList.update key o1 late))"
  shows "out_sourced h o2"
proof -
  obtain k where "(k, o2) \<in> set (AList.update key o1 late)" using assms(3) by auto
  then have "(k, o2) = (key, o1) \<or> (k, o2) \<in> set late" using set_update_subset [of key o1 late] by blast
  then show ?thesis
  proof
    assume "(k, o2) \<in> set late"
    then have "o2 \<in> set (e_out e @ map snd late)" by (force simp: image_iff)
    then show ?thesis using assms(1) unfolding sources_ok_def by blast
  qed (use assms(2) in simp)
qed

lemma out_sourced_append:
  assumes "out_sourced h o1" and "ent \<in> set (ou_refs o1)" and "(ent, src, req) \<in> set (h_adds h)"
    and "(rs, ss, sp) \<in> set (request_spans req)" and "ou_tenant o1 = so_tenant src" and "ou_traceID o1 = sp_traceId sp"
  shows "out_sourced h (o1\<lparr>ou_request := appendToRequest (ou_request o1) (rs, ss, reweighted sp rs ratio)\<rparr>)"
  using assms unfolding out_sourced_def by (auto simp: appendToRequest_spans) blast+

lemma late_span_inv:
  assumes i: "inv v h leak (map snd late) {} e" and c: "current h ent src req e" and t: "touched_ok ent touched e"
    and l: "late_ok ent (so_tenant src) late" and s: "(rs, ss, sp) \<in> set (request_spans req)"
    and k: "key = (so_tenant src, sp_traceId sp)"
    and a: "late_span src ent key d (rs, ss, sp) (e, late, touched) = (e', late', touched')"
  shows "inv v h leak (map snd late') {} e' \<and> current h ent src req e' \<and> touched_ok ent touched' e' \<and>
    late_ok ent (so_tenant src) late'"
proof -
  define e1 where "e1 = set_m (\<lambda>m. m\<lparr>m_late := count_up (m_late m) (outcome (de_keep d)) 1,
      m_spans := count_up (m_spans m) (outcome (de_keep d)) 1\<rparr>) e"
  have i1: "inv v h leak (map snd late) {} e1" unfolding e1_def by (rule set_m_inv [OF i])
  have c1: "current h ent src req e1" and t1: "touched_ok ent touched e1"
    using c t by (simp_all add: e1_def current_def touched_ok_def)
  show ?thesis
  proof (cases "de_keep d")
    case False
    then have "(e', late', touched') = (e1, late, touched)" using a by (simp add: late_span_def e1_def Let_def)
    then show ?thesis using i1 c1 t1 l by simp
  next
    case keep: True
    let ?new = "\<lambda>o1. o1\<lparr>ou_request := appendToRequest (ou_request o1) (rs, ss, reweighted sp rs (de_ratio d))\<rparr>"
    have cu: "(ent, src, req) \<in> set (h_adds h)" using c by (simp add: current_def)
    show ?thesis
    proof (cases "map_of late key")
      case (Some o1)
      then have r: "(e', late', touched') = (e1, AList.update key (?new o1) late, touched)"
        using a keep by (simp add: late_span_def e1_def Let_def)
      have o1: "(key, o1) \<in> set late" using Some by (rule map_of_SomeD)
      then have f: "ou_refs o1 = [ent]" "ou_tenant o1 = so_tenant src" "ou_traceID o1 = sp_traceId sp"
        using l k by (auto simp: late_ok_def)
      have "out_sourced h o1" using o1 i by (force simp: inv_def sources_ok_def)
      then have so: "out_sourced h (?new o1)" using f cu s by (intro out_sourced_append) auto
      have "inv v h leak (map snd (AList.update key (?new o1) late)) {} e1"
      proof (rule inv_extra [OF i1])
        show "out_refs (map snd (AList.update key (?new o1) late)) q = out_refs (map snd late) q" for q
          using Some l by (intro update_old_refs) (auto simp: late_ok_def)
        show "out_sourced h o2" if "o2 \<in> set (map snd (AList.update key (?new o1) late))" for o2
          using i so that by (intro update_sourced [of h late e "?new o1" o2 key]) (simp_all add: inv_def)
      qed
      moreover have "late_ok ent (so_tenant src) (AList.update key (?new o1) late)"
        using l f k by (intro late_ok_update) simp_all
      ultimately show ?thesis using r c1 t1 by simp
    next
      case None
      define o1 where "o1 = \<lparr>ou_tenant = so_tenant src, ou_requestID = so_requestID src, ou_receivedAt = so_receivedAt src,
        ou_traceID = sp_traceId sp, ou_rule = de_rule d, ou_request = [], ou_refs = [ent]\<rparr>"
      have r: "(e', late', touched') = (add_ref 1 ent e1, AList.update key (?new o1) late, touched)"
        using a keep None by (simp add: late_span_def e1_def o1_def Let_def)
      have "out_sourced h o1" by (simp add: out_sourced_def o1_def spans_of_eq)
      then have so: "out_sourced h (?new o1)" using cu s by (intro out_sourced_append) (auto simp: o1_def)
      have "inv v h leak (?new o1 # map snd late) {} (add_ref 1 ent e1)"
        using so by (intro add_output_inv [OF i1 c1]) (simp_all add: o1_def)
      then have "inv v h leak (map snd (AList.update key (?new o1) late)) {} (add_ref 1 ent e1)"
      proof (rule inv_extra)
        show "out_refs (map snd (AList.update key (?new o1) late)) q = out_refs (?new o1 # map snd late) q" for q
          using None by (rule update_new_refs)
        show "out_sourced h o2" if "o2 \<in> set (map snd (AList.update key (?new o1) late))" for o2
          using i so that by (intro update_sourced [of h late e "?new o1" o2 key]) (simp_all add: inv_def)
      qed
      moreover have "late_ok ent (so_tenant src) (AList.update key (?new o1) late)"
        using l k by (intro late_ok_update) (simp_all add: o1_def)
      ultimately show ?thesis using r c1 t1 by (simp add: current_def touched_ok_def)
    qed
  qed
qed

section \<open>Whole records\<close>

fun adding :: "env \<Rightarrow> history \<Rightarrow> (nat \<Rightarrow> nat) \<Rightarrow> nat \<Rightarrow> source_rec \<Rightarrow> trace_request \<Rightarrow> add_state \<Rightarrow> bool" where
  "adding v h leak ent src req (e, late, touched) \<longleftrightarrow>
     inv v h leak (map snd late) {} e \<and> current h ent src req e \<and> touched_ok ent touched e \<and> late_ok ent (so_tenant src) late"

lemma buffer_span_adding:
  assumes "adding v h leak ent src req (e, late, touched)" and "i \<in> set (e_fifo e)"
    and "tr_key (e_heap e i) = (so_tenant src, sp_traceId (snd (snd s)))" and "s \<in> set (request_spans req)"
  shows "adding v h leak ent src req (buffer_span v i ent s (e, late, touched))"
proof -
  obtain touched1 e1 where a: "appendSpan v i ent touched s e = (touched1, e1)" by (metis surj_pair)
  have p: "inv v h leak (map snd late) {} e" "current h ent src req e" "touched_ok ent touched e"
    using assms(1) by simp_all
  note g = appendSpan_inv [OF p assms(2-4) a]
  have "inv v h leak (map snd late) {} (check_full v i e1)"
    using check_full_inv [OF g(1)] assms(2) by (simp add: appendSpan_frame(6) [OF a])
  then show ?thesis
    using g(2,3) assms(1) by (simp add: buffer_span_def a current_def touched_ok_def frame_check_full)
qed

lemma add_span_adding:
  assumes a: "adding v h leak ent src req (e, late, touched)" and s: "(rs, ss, sp) \<in> set (request_spans req)"
  shows "adding v h leak ent src req (add_span v src ent now (rs, ss, sp) (e, late, touched))"
proof -
  let ?key = "(so_tenant src, sp_traceId sp)"
  have i: "inv v h leak (map snd late) {} e" "current h ent src req e" "touched_ok ent touched e" "late_ok ent (so_tenant src) late"
    using a by simp_all
  consider (bad) "\<not> valid_ids sp" | (old) i where "valid_ids sp" "map_of (e_traces e) ?key = Some i"
    | (late) d where "valid_ids sp" "map_of (e_traces e) ?key = None" "cached ?key now e = Some d"
    | (new) "valid_ids sp" "map_of (e_traces e) ?key = None" "cached ?key now e = None"
    by (cases "map_of (e_traces e) ?key"; cases "cached ?key now e") auto
  then show ?thesis
  proof cases
    case bad
    then show ?thesis using i set_m_inv [OF i(1)] by (simp add: add_span_def current_def touched_ok_def)
  next
    case (old j)
    then have "j \<in> set (e_fifo e) \<and> tr_key (e_heap e j) = ?key" using i(1) unfolding inv_def buffer_ok_def by blast
    then show ?thesis using buffer_span_adding [OF a, of j "(rs, ss, sp)"] old s by (simp add: add_span_def)
  next
    case (late d)
    obtain e' late' touched' where r: "late_span src ent ?key d (rs, ss, sp) (e, late, touched) = (e', late', touched')"
      by (metis prod.exhaust)
    then show ?thesis using late_span_inv [OF i s refl r] late by (simp add: add_span_def)
  next
    case new
    let ?m = "make_room v e"
    obtain j e1 where n: "new_trace src ?key now ?m = (j, e1)" by (metis surj_pair)
    note m = make_room_inv [OF i(1)]
    have t: "touched_ok ent touched ?m" using i(3) by (simp add: touched_ok_def frame_make_room)
    note w = new_trace_inv [OF m(1) _ m(3) [OF new(2)] n]
    have l: "int (length (e_traces ?m)) < to_maxTraces (e_opts ?m)" using m(2) by (simp add: frame_make_room)
    have "current h ent src req e1" using i(2) w(5,6) [OF l] by (simp add: current_def frame_make_room)
    then have "adding v h leak ent src req (e1, late, touched)" using w(1) [OF l] w(4) [OF l t] i(4) by simp
    from buffer_span_adding [OF this w(2) [OF l], of "(rs, ss, sp)"] w(3) [OF l] s
    show ?thesis using new n by (simp add: add_span_def)
  qed
qed

lemma add_spans_adding:
  assumes "adding v h leak ent src req st" and "set xs \<subseteq> set (request_spans req)"
  shows "adding v h leak ent src req (fold (add_span v src ent now) xs st)"
  using assms
proof (induction xs arbitrary: st)
  case (Cons x xs)
  obtain rs ss sp e late touched where "x = (rs, ss, sp)" "st = (e, late, touched)" by (metis prod.exhaust)
  then have "adding v h leak ent src req (add_span v src ent now x st)" using Cons.prems add_span_adding by auto
  then show ?case using Cons by simp
qed simp

definition received :: "nat \<Rightarrow> source_rec \<Rightarrow> trace_request \<Rightarrow> history \<Rightarrow> history" where
  "received ent src req h =
     h\<lparr>h_adds := (ent, src, req) # h_adds h, h_owner := (h_owner h)(ent := Some (src_part src))\<rparr>"

lemma received_sourced:
  "trace_sourced h t \<Longrightarrow> trace_sourced (received ent src req h) t"
  "out_sourced h o1 \<Longrightarrow> out_sourced (received ent src req h) o1"
proof -
  have a: "x \<in> set (h_adds (received ent src req h))" if "x \<in> set (h_adds h)" for x using that by (simp add: received_def)
  show "trace_sourced h t \<Longrightarrow> trace_sourced (received ent src req h) t"
    unfolding trace_sourced_def by (blast intro: a)
  show "out_sourced h o1 \<Longrightarrow> out_sourced (received ent src req h) o1"
    unfolding out_sourced_def by (blast intro: a)
qed

text \<open>Operations on records and outputs leave the buffer and the cache alone.\<close>

lemma inv_records:
  assumes "inv v h leak extra X e"
    and "e_opts e' = e_opts e" "e_heap e' = e_heap e" "e_nextTrace e' = e_nextTrace e" "e_traces e' = e_traces e"
      "e_fifo e' = e_fifo e" "e_spans e' = e_spans e" "e_bytes e' = e_bytes e"
      "e_cache e' = e_cache e" "e_cacheOrder e' = e_cacheOrder e" "e_cacheHead e' = e_cacheHead e"
    and "refs_ok leak' extra' e'" and "parts_ok h' e'" and "sources_ok h' extra' e'"
  shows "inv v h' leak' extra' X e'"
proof -
  have "buffer_ok e' = buffer_ok e" "totals_ok v e' = totals_ok v e" "bounds_but X e' = bounds_but X e"
    by (rule buffer_cong [OF assms(2-8)])+
  moreover have "cache_ok e' = cache_ok e" by (rule cache_ok_cong [OF assms(9-11)])
  ultimately show ?thesis using assms(1,2,9,12-14) by (simp add: inv_def)
qed

lemma part_inv:
  assumes "inv v h leak [] {} e" and "part src e = (ps, e1)"
  shows "inv v h leak [] {} e1" and "map_of (e_parts e1) (src_part src) = Some ps"
proof -
  show "map_of (e_parts e1) (src_part src) = Some ps"
    using assms(2) by (cases "map_of (e_parts e) (src_part src)") (auto simp: TailEngine.part_def AList.update_conv')
  show "inv v h leak [] {} e1"
  proof (cases "map_of (e_parts e) (src_part src)")
    case None
    then have e1: "e1 = e\<lparr>e_parts := AList.update (src_part src) fresh_part (e_parts e)\<rparr>" and "ps = fresh_part"
      using assms(2) by (auto simp: TailEngine.part_def)
    have p: "parts_ok h e" using assms(1) by (simp add: inv_def)
    have "part_ok e1 q = part_ok e q" for q by (simp add: part_ok_def e1)
    moreover have "part_ok e fresh_part" by (simp add: part_ok_def fresh_part_def)
    moreover have "owner_ok h e1"
      using p None unfolding owner_ok_def parts_ok_def e1 by (fastforce simp: AList.update_conv')
    moreover have "adds_ok h e1" using p by (simp add: parts_ok_def adds_ok_def e1)
    ultimately have "parts_ok h e1"
      using p set_update_subset [of "src_part src" fresh_part "e_parts e"]
      by (auto simp: parts_ok_def e1 distinct_update)
    moreover have "refs_ok leak [] e1 = refs_ok leak [] e" by (rule refs_ok_cong) (simp_all add: e1 buf_refs_def)
    moreover have "sources_ok h [] e1 = sources_ok h [] e" by (simp add: sources_ok_def e1)
    moreover have "refs_ok leak [] e" "sources_ok h [] e" using assms(1) by (simp_all add: inv_def)
    ultimately show ?thesis by (intro inv_records [OF assms(1)]) (simp_all add: e1)
  qed (use assms in \<open>simp add: TailEngine.part_def\<close>)
qed

lemma new_entry_inv:
  assumes i: "inv v h leak [] {} e" and ps: "map_of (e_parts e) (src_part src) = Some ps"
    and o: "ps_lastSeen ps < so_offset src" and n: "new_entry src ps e = (ent, e')"
  shows "inv v (received ent src req h) leak [] {} e'" and "current (received ent src req h) ent src req e'"
proof -
  define ps' where "ps' = \<lparr>ps_entries = ps_entries ps @ [ent], ps_lastSeen = so_offset src, ps_lastEpoch = so_epoch src,
    ps_committed = (if ps_lastSeen ps < 0 then so_offset src else ps_committed ps)\<rparr>"
  define x where "x = \<lparr>oe_offset = so_offset src, oe_epoch = so_epoch src, oe_refs = 0\<rparr>"
  have e': "e' = e\<lparr>e_offs := (e_offs e)(ent := x), e_nextOff := Suc ent, e_parts := AList.update (src_part src) ps' (e_parts e)\<rparr>"
    and ent: "ent = e_nextOff e"
    using n by (auto simp: new_entry_def Let_def ps'_def x_def)
  have p: "parts_ok h e" and r: "refs_ok leak [] e" using i by (simp_all add: inv_def)
  have "ps \<in> snd ` set (e_parts e)" using map_of_SomeD [OF ps] by force
  then have po: "part_ok e ps" using p unfolding parts_ok_def by blast
  have old: "part_ok e' q" if "part_ok e q" for q
  proof -
    have l: "j < ent" "e_offs e' j = e_offs e j" if "j \<in> set (ps_entries q)" for j
      using that \<open>part_ok e q\<close> ent by (auto simp: part_ok_def e')
    have "sorted_wrt (\<lambda>i j. oe_offset (e_offs e i) < oe_offset (e_offs e j)) (ps_entries q)"
      using that by (simp add: part_ok_def)
    then have "sorted_wrt (\<lambda>i j. oe_offset (e_offs e' i) < oe_offset (e_offs e' j)) (ps_entries q)"
      by (rule sorted_wrt_mono_rel [rotated]) (simp add: l(2))
    moreover have "ent < e_nextOff e'" by (simp add: e')
    ultimately show ?thesis using that l unfolding part_ok_def by (metis less_trans)
  qed
  have "part_ok e' ps'"
  proof -
    have "part_ok e' ps" by (rule old [OF po])
    moreover have "oe_offset (e_offs e' j) \<le> ps_lastSeen ps" if "j \<in> set (ps_entries ps)" for j
      using \<open>part_ok e' ps\<close> that by (simp add: part_ok_def)
    moreover have "oe_offset (e_offs e' ent) = so_offset src" by (simp add: e' x_def)
    moreover have "ent < e_nextOff e'" by (simp add: e')
    ultimately show ?thesis using o unfolding part_ok_def ps'_def by (fastforce simp: sorted_wrt_append)
  qed
  moreover have "owner_ok (received ent src req h) e'"
    unfolding owner_ok_def
  proof (intro allI impI)
    fix j k assume j: "h_owner (received ent src req h) j = Some k"
    show "j < e_nextOff e' \<and> (\<exists>ps. map_of (e_parts e') k = Some ps \<and> (j \<in> set (ps_entries ps) \<or> oe_refs (e_offs e' j) = 0))"
    proof (cases "j = ent")
      case True
      then show ?thesis using j by (auto simp: received_def e' AList.update_conv' ps'_def)
    next
      case False
      then have "h_owner h j = Some k" using j by (simp add: received_def)
      then obtain q where "j < e_nextOff e" "map_of (e_parts e) k = Some q" "j \<in> set (ps_entries q) \<or> oe_refs (e_offs e j) = 0"
        using p unfolding parts_ok_def owner_ok_def by blast
      then show ?thesis using False ps by (auto simp: e' ent AList.update_conv' ps'_def)
    qed
  qed
  moreover have "adds_ok (received ent src req h) e'"
    using p by (auto simp: parts_ok_def adds_ok_def received_def e' ent x_def less_SucI)
  moreover have "part_ok e' q" if "q \<in> snd ` set (e_parts e')" for q
  proof -
    have "q = ps' \<or> q \<in> snd ` set (e_parts e)" using that by (intro update_ran) (simp add: e')
    then show ?thesis using p old \<open>part_ok e' ps'\<close> unfolding parts_ok_def by blast
  qed
  moreover have "distinct (map fst (e_parts e'))" using p by (simp add: parts_ok_def e' distinct_update)
  ultimately have "parts_ok (received ent src req h) e'" unfolding parts_ok_def by blast
  moreover have "refs_ok leak [] e'"
  proof -
    have "oe_refs (e_offs e ent) = 0" using r ent unfolding refs_ok_def by blast
    then have "oe_refs (e_offs e' q) = oe_refs (e_offs e q)" for q by (simp add: e' x_def)
    moreover have "buf_refs e' q = buf_refs e q" for q by (simp add: e' buf_refs_def)
    moreover have "e_out e' = e_out e" "e_nextOff e \<le> e_nextOff e'" by (simp_all add: e' ent)
    ultimately show ?thesis using r unfolding refs_ok_def by (metis le_trans)
  qed
  moreover have "sources_ok (received ent src req h) [] e'"
    using i by (auto simp: inv_def sources_ok_def e' intro: received_sourced)
  ultimately show "inv v (received ent src req h) leak [] {} e'"
    by (intro inv_records [OF i]) (simp_all add: e')
  show "current (received ent src req h) ent src req e'"
    by (simp add: current_def received_def e' AList.update_conv' ps'_def)
qed

text \<open>A record that was already seen changes nothing; a new one joins the history.\<close>

definition added :: "source_rec \<Rightarrow> trace_request \<Rightarrow> engine \<Rightarrow> history \<Rightarrow> history" where
  "added src req e h =
     (case map_of (e_parts e) (src_part src) of
        Some ps \<Rightarrow> if so_offset src \<le> ps_lastSeen ps then h else received (e_nextOff e) src req h
      | None \<Rightarrow> if so_offset src \<le> - 1 then h else received (e_nextOff e) src req h)"

text \<open>The state of the engine before \<open>Add\<close> sheds what is over the bound.\<close>

definition unshed :: "env \<Rightarrow> (tail_output list \<Rightarrow> tail_output list) \<Rightarrow> source_rec \<Rightarrow> trace_request \<Rightarrow> engine \<Rightarrow> engine" where
  "unshed v ord src req e =
     (let (ps, e1) = part src e; (ent, e2) = new_entry src ps e1; (now, e3) = read_now e2;
          (e4, late, touched) = fold (add_span v src ent now) (request_spans req) (e3, [], [])
      in e4\<lparr>e_out := e_out e4 @ ord (map snd late)\<rparr>)"

lemma Add_unshed:
  "part src e = (ps, e1) \<Longrightarrow> Add v ord src req e =
     (if so_offset src \<le> ps_lastSeen ps then e1 else gauges (shed v (unshed v ord src req e)))"
  by (simp add: Add_def unshed_def Let_def split: prod.splits)

lemma adding_start:
  assumes i: "inv v h leak [] {} e" and p: "part src e = (ps, e1)" and new: "\<not> so_offset src \<le> ps_lastSeen ps"
    and n: "new_entry src ps e1 = (ent, e2)" and rn: "read_now e2 = (now, e3)"
  shows "adding v (received (e_nextOff e) src req h) leak ent src req (e3, [], [])"
proof -
  note pi = part_inv [OF i p]
  let ?h = "received (e_nextOff e) src req h"
  have "e_nextOff e1 = e_nextOff e" using p by (auto simp: TailEngine.part_def split: option.splits)
  then have "ent = e_nextOff e" using n by (simp add: new_entry_def Let_def)
  then have ne: "inv v ?h leak [] {} e2" "current ?h ent src req e2"
    using new_entry_inv [OF pi _ n, of req] new by auto
  have "inv v ?h leak [] {} e3" using read_now_inv [OF ne(1)] rn by simp
  moreover have "current ?h ent src req e3" using ne(2) rn by (auto simp: current_def read_now_def)
  ultimately show ?thesis by (simp add: touched_ok_def late_ok_def)
qed

lemma unshed_inv:
  assumes i: "inv v h leak [] {} e" and ord: "\<And>xs. mset (ord xs) = mset xs"
    and p: "part src e = (ps, e1)" and new: "\<not> so_offset src \<le> ps_lastSeen ps"
  shows "inv v (received (e_nextOff e) src req h) leak [] {} (unshed v ord src req e)"
proof -
  let ?h = "received (e_nextOff e) src req h"
  obtain ent e2 where n: "new_entry src ps e1 = (ent, e2)" by (metis surj_pair)
  obtain now e3 where rn: "read_now e2 = (now, e3)" by (metis surj_pair)
  obtain e4 late touched where f: "fold (add_span v src ent now) (request_spans req) (e3, [], []) = (e4, late, touched)"
    by (metis prod.exhaust)
  from add_spans_adding [OF adding_start [OF i p new n rn, of req] order_refl, of now] have a: "inv v ?h leak (map snd late) {} e4" by (simp add: f)
  let ?e5 = "e4\<lparr>e_out := e_out e4 @ ord (map snd late)\<rparr>"
  have st: "set (ord (map snd late)) = set (map snd late)" using ord by (metis set_mset_mset)
  have "refs_ok leak [] ?e5 = refs_ok leak (map snd late) e4"
    using out_refs_mset [OF ord, of "map snd late"] by (simp add: refs_ok_def buf_refs_def)
  moreover have "sources_ok ?h [] ?e5 = sources_ok ?h (map snd late) e4"
    using st by (auto simp: sources_ok_def)
  moreover have "parts_ok ?h ?e5 = parts_ok ?h e4" by (rule parts_ok_cong) simp_all
  ultimately have "inv v ?h leak [] {} ?e5" using a by (intro inv_records [OF a]) (simp_all add: inv_def)
  then show ?thesis by (simp add: unshed_def p n rn f)
qed

lemma added_part:
  "part src e = (ps, e1) \<Longrightarrow> added src req e h =
     (if so_offset src \<le> ps_lastSeen ps then h else received (e_nextOff e) src req h)"
  by (auto simp: added_def TailEngine.part_def fresh_part_def split: option.splits)

lemma Add_inv:
  assumes i: "inv v h leak [] {} e" and ord: "\<And>xs. mset (ord xs) = mset xs"
  shows "inv v (added src req e h) leak [] {} (Add v ord src req e)"
proof -
  obtain ps e1 where p: "part src e = (ps, e1)" by (metis surj_pair)
  show ?thesis
    using part_inv(1) [OF i p] gauges_inv [OF kept.shed_stable [OF unshed_inv [OF i ord p]]]
    by (simp add: Add_unshed [OF p] added_part [OF p])
qed

section \<open>Time and rebalancing\<close>

lemma Tick_inv: "inv v h leak [] {} e \<Longrightarrow> inv v h leak [] {} (Tick v e)"
  unfolding Tick_def read_now_def Let_def prod.case
  by (intro gauges_inv purge_inv kept.due_stable) (use read_now_inv in \<open>force simp: read_now_def\<close>)

lemma DecideAll_inv: "inv v h leak [] {} e \<Longrightarrow> inv v h leak [] {} (DecideAll v reason e)"
  unfolding DecideAll_def by (intro gauges_inv kept.rest_stable)

lemma DecidePartitions_inv:
  assumes i: "inv v h leak [] {} e"
  shows "inv v h leak [] {} (DecidePartitions v parts e)"
proof -
  from i have "distinct (e_fifo e)" by (simp add: inv_def buffer_ok_def)
  then have "inv v h leak [] {} (fold (\<lambda>i. decide v i ''revoked'') (filter P (e_fifo e)) e)" for P
    by (intro kept.list_stable [OF i]) auto
  then show ?thesis using i by (simp add: DecidePartitions_def Let_def gauges_inv)
qed

definition dropped :: "part_set \<Rightarrow> history \<Rightarrow> history" where
  "dropped parts h =
     h\<lparr>h_owner := (\<lambda>i. case h_owner h i of Some k \<Rightarrow> if k \<in> set (part_keys parts) then None else Some k | None \<Rightarrow> None)\<rparr>"

lemma fold_delete:
  "map_of (fold AList.delete ks xs) k = (if k \<in> set ks then None else map_of xs k)"
  "set (fold AList.delete ks xs) \<subseteq> set xs"
  "distinct (map fst xs) \<Longrightarrow> distinct (map fst (fold AList.delete ks xs))"
proof -
  show "map_of (fold AList.delete ks xs) k = (if k \<in> set ks then None else map_of xs k)"
    by (induction ks arbitrary: xs) (simp_all add: delete_conv)
  show "set (fold AList.delete ks xs) \<subseteq> set xs"
  proof (induction ks arbitrary: xs)
    case (Cons a ks)
    have "set (fold AList.delete (a # ks) xs) \<subseteq> set (AList.delete a xs)" using Cons [of "AList.delete a xs"] by simp
    also have "\<dots> \<subseteq> set xs" by (simp add: AList.delete_eq)
    finally show ?case .
  qed simp
  show "distinct (map fst xs) \<Longrightarrow> distinct (map fst (fold AList.delete ks xs))"
    by (induction ks arbitrary: xs) (simp_all add: distinct_delete)
qed

lemma DropPartitions_inv:
  assumes i: "inv v h leak extra {} e"
  shows "inv v (dropped parts h) leak extra {} (DropPartitions parts e)"
proof -
  let ?h = "dropped parts h" and ?e = "DropPartitions parts e"
  have p: "parts_ok h e" using i by (simp add: inv_def)
  have "h_adds ?h = h_adds h" by (simp add: dropped_def)
  then have "sources_ok ?h extra ?e = sources_ok h extra e"
    by (simp add: sources_ok_def DropPartitions_def trace_sourced_def out_sourced_def)
  moreover have "refs_ok leak extra ?e = refs_ok leak extra e"
    by (rule refs_ok_cong) (simp_all add: DropPartitions_def buf_refs_def)
  moreover have "parts_ok ?h ?e"
    unfolding parts_ok_def
  proof (intro conjI ballI)
    show "distinct (map fst (e_parts ?e))" using p by (simp add: DropPartitions_def fold_delete parts_ok_def)
    show "adds_ok ?h ?e" using p by (simp add: parts_ok_def adds_ok_def dropped_def DropPartitions_def)
    show "part_ok ?e q" if "q \<in> snd ` set (e_parts ?e)" for q
    proof -
      have "part_ok ?e q = part_ok e q" by (simp add: part_ok_def DropPartitions_def)
      moreover have "q \<in> snd ` set (e_parts e)" using that fold_delete(2) by (fastforce simp: DropPartitions_def)
      ultimately show ?thesis using p unfolding parts_ok_def by blast
    qed
    show "owner_ok ?h ?e"
      unfolding owner_ok_def
    proof (intro allI impI)
      fix j k assume "h_owner ?h j = Some k"
      then have k: "h_owner h j = Some k" "k \<notin> set (part_keys parts)"
        by (auto simp: dropped_def split: option.splits if_splits)
      then obtain q where "j < e_nextOff e" "map_of (e_parts e) k = Some q" "j \<in> set (ps_entries q) \<or> oe_refs (e_offs e j) = 0"
        using p unfolding parts_ok_def owner_ok_def by blast
      then show "j < e_nextOff ?e \<and> (\<exists>ps. map_of (e_parts ?e) k = Some ps \<and> (j \<in> set (ps_entries ps) \<or> oe_refs (e_offs ?e j) = 0))"
        using k(2) by (simp add: DropPartitions_def fold_delete)
    qed
  qed
  ultimately show ?thesis using i by (intro inv_records [OF i]) (simp_all add: inv_def DropPartitions_def)
qed

section \<open>Outputs\<close>

text \<open>The outputs of the engine may leave it, come back, be released or be lost.\<close>

lemma refs_ok_eq:
  assumes "\<And>r. buf_refs e' r = buf_refs e r" and "e_offs e' = e_offs e" and "e_nextOff e' = e_nextOff e"
    and "\<And>r. out_refs (e_out e' @ extra') r + leak' r = out_refs (e_out e @ extra) r + leak r"
  shows "refs_ok leak' extra' e' = refs_ok leak extra e"
proof -
  have "buf_refs e' r + out_refs (e_out e' @ extra') r + leak' r = buf_refs e r + out_refs (e_out e @ extra) r + leak r" for r
    by (simp only: add.assoc assms(1,4))
  then show ?thesis by (simp only: refs_ok_def assms(2,3))
qed

lemma TakeOutputs_inv:
  assumes i: "inv v h leak [] {} e" and t: "TakeOutputs e = (outs, e')"
  shows "inv v h leak outs {} e'" and "e_out e' = []"
proof -
  have e': "outs = e_out e" "e' = e\<lparr>e_out := []\<rparr>" using t by (simp_all add: TakeOutputs_def)
  have "refs_ok leak outs e' = refs_ok leak [] e" by (rule refs_ok_eq) (simp_all add: e' buf_refs_def)
  moreover have "sources_ok h outs e' = sources_ok h [] e" by (simp add: sources_ok_def e')
  moreover have "parts_ok h e' = parts_ok h e" by (rule parts_ok_cong) (simp_all add: e')
  ultimately show "inv v h leak outs {} e'" using i by (intro inv_records [OF i]) (simp_all add: inv_def e')
qed (use t in \<open>auto simp: TakeOutputs_def\<close>)

lemma put_back_inv:
  assumes i: "inv v h leak outs {} e"
  shows "inv v h leak [] {} (e\<lparr>e_out := outs @ e_out e\<rparr>)"
proof -
  let ?e = "e\<lparr>e_out := outs @ e_out e\<rparr>"
  have "refs_ok leak [] ?e = refs_ok leak outs e" by (rule refs_ok_eq) (simp_all add: buf_refs_def)
  moreover have "sources_ok h [] ?e = sources_ok h outs e" by (auto simp: sources_ok_def)
  moreover have "parts_ok h ?e = parts_ok h e" by (rule parts_ok_cong) simp_all
  ultimately show ?thesis using i by (intro inv_records [OF i]) (simp_all add: inv_def)
qed

lemma lost_inv:
  assumes i: "inv v h leak outs {} e"
  shows "inv v h (\<lambda>r. leak r + out_refs outs r) [] {} e"
proof -
  have "refs_ok (\<lambda>r. leak r + out_refs outs r) [] e = refs_ok leak outs e" by (rule refs_ok_eq) simp_all
  moreover have "sources_ok h outs e \<Longrightarrow> sources_ok h [] e" by (simp add: sources_ok_def)
  ultimately show ?thesis using i by (intro inv_records [OF i]) (simp_all add: inv_def)
qed

lemma Release_frame:
  "oe_refs (e_offs (Release outs e) r) = oe_refs (e_offs e r) - int (out_refs outs r)"
  "oe_offset (e_offs (Release outs e) r) = oe_offset (e_offs e r)" "oe_epoch (e_offs (Release outs e) r) = oe_epoch (e_offs e r)"
  "e_opts (Release outs e) = e_opts e" "e_heap (Release outs e) = e_heap e" "e_nextTrace (Release outs e) = e_nextTrace e"
  "e_traces (Release outs e) = e_traces e" "e_fifo (Release outs e) = e_fifo e" "e_spans (Release outs e) = e_spans e"
  "e_bytes (Release outs e) = e_bytes e" "e_cache (Release outs e) = e_cache e" "e_cacheOrder (Release outs e) = e_cacheOrder e"
  "e_cacheHead (Release outs e) = e_cacheHead e" "e_nextOff (Release outs e) = e_nextOff e"
  "e_parts (Release outs e) = e_parts e" "e_out (Release outs e) = e_out e" "e_m (Release outs e) = e_m e"
  "e_reads (Release outs e) = e_reads e" "e_clock (Release outs e) = e_clock e"
  by (induction outs arbitrary: e; simp add: Release_def fold_add_ref add_refs_cache)+

lemma parts_ok_less:
  assumes "parts_ok h e" and "e_parts e' = e_parts e" and "e_nextOff e' = e_nextOff e"
    and "\<And>r. oe_offset (e_offs e' r) = oe_offset (e_offs e r)" and "\<And>r. 0 \<le> oe_refs (e_offs e' r)"
    and "\<And>r. oe_refs (e_offs e' r) \<le> oe_refs (e_offs e r)"
  shows "parts_ok h e'"
proof (rule parts_ok_mono [where new = "e_nextOff e"])
  show "\<exists>ps. map_of (e_parts e) k = Some ps \<and> e_nextOff e \<in> set (ps_entries ps)" if "h_owner h (e_nextOff e) = Some k" for k
    using assms(1) that unfolding parts_ok_def owner_ok_def by blast
qed (use assms in auto)

lemma Release_inv:
  assumes i: "inv v h leak outs {} e"
  shows "inv v h leak [] {} (Release outs e)"
proof -
  have r: "refs_ok leak outs e" using i by (simp add: inv_def)
  have b: "buf_refs (Release outs e) q = buf_refs e q" for q by (simp add: buf_refs_def Release_frame)
  have z: "out_refs outs q = 0" if "q \<ge> e_nextOff e" for q
  proof -
    have "oe_refs (e_offs e q) = 0" "oe_refs (e_offs e q) = int (buf_refs e q + out_refs (e_out e @ outs) q + leak q)"
      using r that unfolding refs_ok_def by blast+
    then show ?thesis by simp
  qed
  have r1: "refs_ok leak [] (Release outs e)"
    unfolding refs_ok_def
  proof (intro conjI allI impI)
    fix q
    have "oe_refs (e_offs e q) = int (buf_refs e q + out_refs (e_out e @ outs) q + leak q)"
      using r unfolding refs_ok_def by blast
    then show "oe_refs (e_offs (Release outs e) q) =
        int (buf_refs (Release outs e) q + out_refs (e_out (Release outs e) @ []) q + leak q)"
      by (simp add: Release_frame b)
    assume "e_nextOff (Release outs e) \<le> q"
    then have "oe_refs (e_offs e q) = 0" "out_refs outs q = 0"
      using r z unfolding refs_ok_def Release_frame by blast+
    then show "oe_refs (e_offs (Release outs e) q) = 0" by (simp add: Release_frame)
  qed
  moreover have "parts_ok h (Release outs e)"
  proof (rule parts_ok_less [of h e])
    show "0 \<le> oe_refs (e_offs (Release outs e) q)" for q by (rule refs_nonneg [OF r1])
    show "parts_ok h e" using i by (simp add: inv_def)
  qed (simp_all add: Release_frame)
  moreover have "sources_ok h [] (Release outs e)" using i by (simp add: inv_def sources_ok_def Release_frame)
  ultimately show ?thesis by (intro inv_records [OF i]) (simp_all add: Release_frame)
qed

section \<open>Committing offsets\<close>

lemma commit_part_ok:
  assumes p: "part_ok e ps" and c: "commit_part (e_offs e) ps = (ps', c)"
  shows "part_ok e ps'" and "ps_lastSeen ps' = ps_lastSeen ps" and "ps_committed ps \<le> ps_committed ps'"
    and "i \<in> set (ps_entries ps) \<Longrightarrow> i \<in> set (ps_entries ps') \<or> oe_refs (e_offs e i) \<le> 0"
    and "c = Some (ep, off) \<Longrightarrow> ps_committed ps < off \<and> off = ps_committed ps' \<and> off \<le> ps_lastSeen ps + 1"
    and "c = Some (ep, off) \<Longrightarrow> i \<in> set (ps_entries ps) \<Longrightarrow> oe_offset (e_offs e i) < off \<Longrightarrow> oe_refs (e_offs e i) \<le> 0"
    and "(\<And>i. i \<in> set (ps_entries ps) \<Longrightarrow> oe_refs (e_offs e i) \<le> 0) \<Longrightarrow> 0 \<le> ps_lastSeen ps \<Longrightarrow>
      ps_committed ps' = ps_lastSeen ps + 1"
proof -
  define rest where "rest = dropWhile (\<lambda>i. oe_refs (e_offs e i) \<le> 0) (ps_entries ps)"
  define off1 where "off1 = (case rest of i # _ \<Rightarrow> oe_offset (e_offs e i) | [] \<Rightarrow> ps_lastSeen ps + 1)"
  define late where "late = (off1 \<le> ps_committed ps \<or> ps_lastSeen ps < 0)"
  have ps': "ps_entries ps' = rest" "ps_lastSeen ps' = ps_lastSeen ps" "ps_committed ps' = (if late then ps_committed ps else off1)"
    and c': "c = Some (ep, off) \<Longrightarrow> \<not> late \<and> off = off1" for ep off
    using c unfolding commit_part_def rest_def [symmetric] Let_def late_def off1_def
    by (cases rest; auto split: if_splits)+
  have sp: "ps_entries ps = takeWhile (\<lambda>i. oe_refs (e_offs e i) \<le> 0) (ps_entries ps) @ rest"
    by (simp add: rest_def)
  have st: "set rest \<subseteq> set (ps_entries ps)" by (auto simp: rest_def dest: set_dropWhileD)
  have so: "sorted_wrt (\<lambda>i j. oe_offset (e_offs e i) < oe_offset (e_offs e j)) rest"
    using p sp unfolding part_ok_def by (metis sorted_wrt_append)
  have low: "off1 \<le> oe_offset (e_offs e j)" if "j \<in> set rest" for j
    using so that by (cases rest) (auto simp: off1_def)
  have top: "off1 \<le> ps_lastSeen ps + 1"
    using p st by (cases rest) (auto simp: off1_def part_ok_def)
  show "ps_lastSeen ps' = ps_lastSeen ps" by (rule ps'(2))
  show "ps_committed ps \<le> ps_committed ps'" using p by (auto simp: ps'(3) late_def part_ok_def)
  show "part_ok e ps'"
    using p st so low top by (auto simp: part_ok_def ps' late_def)
  show dr: "i \<in> set (ps_entries ps') \<or> oe_refs (e_offs e i) \<le> 0" if "i \<in> set (ps_entries ps)" for i
    using that sp ps'(1) by (metis (no_types, lifting) Un_iff set_append set_takeWhileD)
  show "c = Some (ep, off) \<Longrightarrow> ps_committed ps < off \<and> off = ps_committed ps' \<and> off \<le> ps_lastSeen ps + 1"
    using c' [of ep off] top by (auto simp: ps'(3) late_def)
  show "oe_refs (e_offs e i) \<le> 0" if "c = Some (ep, off)" "i \<in> set (ps_entries ps)" "oe_offset (e_offs e i) < off"
    using dr [OF that(2)] low [of i] c' [OF that(1)] that(3) by (auto simp: ps'(1))
  show "ps_committed ps' = ps_lastSeen ps + 1"
    if "\<And>i. i \<in> set (ps_entries ps) \<Longrightarrow> oe_refs (e_offs e i) \<le> 0" and "0 \<le> ps_lastSeen ps"
  proof -
    have "rest = []" using that(1) by (simp add: rest_def)
    then show ?thesis using p that(2) by (auto simp: ps'(3) late_def off1_def part_ok_def)
  qed
qed

definition commit_step :: "part_set option \<Rightarrow> engine \<Rightarrow> part_key \<Rightarrow> part_state \<Rightarrow> part_state \<times> (int \<times> int) option" where
  "commit_step only e k ps = (if commit_selected only k then commit_part (e_offs e) ps else (ps, None))"

lemma concat_options:
  "(k, c) \<in> set (concat (map (\<lambda>(k, x). case f k x of Some c \<Rightarrow> [(k, c)] | None \<Rightarrow> []) xs)) \<longleftrightarrow>
     (\<exists>x. (k, x) \<in> set xs \<and> f k x = Some c)"
proof (induction xs)
  case (Cons a xs)
  then show ?case by (cases a) (cases "f (fst a) (snd a)"; fastforce)
qed simp

lemma CommitOffsets_parts:
  assumes "CommitOffsets only e = (cs, e')"
  shows "e' = e\<lparr>e_parts := map (\<lambda>(k, ps). (k, fst (commit_step only e k ps))) (e_parts e)\<rparr>"
    and "(k, c) \<in> set cs \<longleftrightarrow> (\<exists>ps. (k, ps) \<in> set (e_parts e) \<and> snd (commit_step only e k ps) = Some c)"
proof -
  have "cs = concat (map (\<lambda>(k, ps). case snd (commit_step only e k ps) of Some c \<Rightarrow> [(k, c)] | None \<Rightarrow> []) (e_parts e))"
    and e': "e' = e\<lparr>e_parts := map (\<lambda>(k, ps). (k, fst (commit_step only e k ps))) (e_parts e)\<rparr>"
    using assms by (auto simp: CommitOffsets_def commit_step_def Let_def)
  then show "(k, c) \<in> set cs \<longleftrightarrow> (\<exists>ps. (k, ps) \<in> set (e_parts e) \<and> snd (commit_step only e k ps) = Some c)"
    by (simp only: concat_options)
  show "e' = e\<lparr>e_parts := map (\<lambda>(k, ps). (k, fst (commit_step only e k ps))) (e_parts e)\<rparr>" by (rule e')
qed

lemma map_of_map_parts: "map_of (map (\<lambda>(k, x). (k, f k x)) xs) k = map_option (f k) (map_of xs k)"
  by (induction xs) auto

lemma commit_step_ok:
  assumes "part_ok e ps"
  shows "part_ok e (fst (commit_step only e k ps))"
    and "i \<in> set (ps_entries ps) \<Longrightarrow> i \<in> set (ps_entries (fst (commit_step only e k ps))) \<or> oe_refs (e_offs e i) \<le> 0"
proof -
  obtain ps' c where c: "commit_part (e_offs e) ps = (ps', c)" by (metis surj_pair)
  note k = commit_part_ok [OF assms c]
  show "part_ok e (fst (commit_step only e k ps))" using k(1) assms c by (simp add: commit_step_def)
  show "i \<in> set (ps_entries ps) \<Longrightarrow> i \<in> set (ps_entries (fst (commit_step only e k ps))) \<or> oe_refs (e_offs e i) \<le> 0"
    using k(4) c by (auto simp: commit_step_def)
qed

lemma CommitOffsets_inv:
  assumes i: "inv v h leak [] {} e" and c: "CommitOffsets only e = (cs, e')"
  shows "inv v h leak [] {} e'"
proof -
  note e' = CommitOffsets_parts(1) [OF c]
  let ?f = "\<lambda>k ps. fst (commit_step only e k ps)"
  have p: "parts_ok h e" and r: "refs_ok leak [] e" using i by (simp_all add: inv_def)
  have po: "part_ok e q" if "(k, q) \<in> set (e_parts e)" for k q
    using that p unfolding parts_ok_def by (metis imageI snd_conv)
  have "parts_ok h e'"
    unfolding parts_ok_def
  proof (intro conjI ballI)
    show "distinct (map fst (e_parts e'))" using p by (simp add: e' parts_ok_def comp_def split_def)
    show "adds_ok h e'" using p by (simp add: parts_ok_def adds_ok_def e')
    show "part_ok e' q" if q: "q \<in> snd ` set (e_parts e')" for q
    proof -
      obtain k ps where "(k, ps) \<in> set (e_parts e)" "q = ?f k ps" using q by (auto simp: e')
      then have "part_ok e q" using commit_step_ok(1) po by blast
      then show ?thesis by (simp add: part_ok_def e')
    qed
    show "owner_ok h e'"
      unfolding owner_ok_def
    proof (intro allI impI)
      fix j k assume "h_owner h j = Some k"
      then obtain q where q: "j < e_nextOff e" "map_of (e_parts e) k = Some q" "j \<in> set (ps_entries q) \<or> oe_refs (e_offs e j) = 0"
        using p unfolding parts_ok_def owner_ok_def by blast
      have "j \<in> set (ps_entries (?f k q)) \<or> oe_refs (e_offs e j) = 0"
        using q(3) commit_step_ok(2) [OF po [OF map_of_SomeD [OF q(2)]], of j only k] refs_nonneg [OF r, of j] by auto
      then show "j < e_nextOff e' \<and> (\<exists>ps. map_of (e_parts e') k = Some ps \<and> (j \<in> set (ps_entries ps) \<or> oe_refs (e_offs e' j) = 0))"
        using q by (simp add: e' map_of_map_parts)
    qed
  qed
  moreover have "refs_ok leak [] e' = refs_ok leak [] e" by (rule refs_ok_cong) (simp_all add: e' buf_refs_def)
  moreover have "sources_ok h [] e' = sources_ok h [] e" by (simp add: sources_ok_def e')
  ultimately show ?thesis using i r by (intro inv_records [OF i]) (simp_all add: inv_def e')
qed

text \<open>A record below a committed offset of a partition this member owns is referenced by nothing.\<close>

lemma committed_unreferenced:
  assumes i: "inv v h leak [] {} e" and c: "CommitOffsets only e = (cs, e')" and k: "(k, ep, off) \<in> set cs"
    and o: "h_owner h ent = Some k" and a: "(ent, src, req) \<in> set (h_adds h)" and l: "so_offset src < off"
  shows "oe_refs (e_offs e ent) = 0"
proof -
  have p: "parts_ok h e" and r: "refs_ok leak [] e" using i by (simp_all add: inv_def)
  obtain ps where ps: "(k, ps) \<in> set (e_parts e)" "snd (commit_step only e k ps) = Some (ep, off)"
    using k CommitOffsets_parts(2) [OF c, of k "(ep, off)"] by blast
  then have po: "part_ok e ps" and m: "map_of (e_parts e) k = Some ps"
    using p unfolding parts_ok_def by (metis imageI snd_conv, simp)
  obtain ps' where ps': "commit_part (e_offs e) ps = (ps', Some (ep, off))"
    using ps(2) by (cases "commit_part (e_offs e) ps") (auto simp: commit_step_def split: if_splits)
  have "ent \<in> set (ps_entries ps) \<or> oe_refs (e_offs e ent) = 0"
    using p o m unfolding parts_ok_def owner_ok_def by (metis option.inject)
  moreover have "oe_offset (e_offs e ent) = so_offset src" using p a unfolding parts_ok_def adds_ok_def by blast
  ultimately show ?thesis using commit_part_ok(6) [OF po ps' refl, of ent] l refs_nonneg [OF r, of ent] by auto
qed

lemma unreferenced:
  assumes "refs_ok leak extra e" and "oe_refs (e_offs e r) = 0"
  shows "i \<in> set (e_fifo e) \<Longrightarrow> r \<notin> set (tr_refs (e_heap e i))" and "o1 \<in> set (e_out e @ extra) \<Longrightarrow> r \<notin> set (ou_refs o1)"
proof -
  have "oe_refs (e_offs e r) = int (buf_refs e r + out_refs (e_out e @ extra) r + leak r)"
    using assms(1) unfolding refs_ok_def by blast
  then have z: "buf_refs e r = 0" "out_refs (e_out e @ extra) r = 0" using assms(2) by simp_all
  show "i \<in> set (e_fifo e) \<Longrightarrow> r \<notin> set (tr_refs (e_heap e i))" using z(1) by (simp add: buf_refs_def count_list_0_iff)
  show "o1 \<in> set (e_out e @ extra) \<Longrightarrow> r \<notin> set (ou_refs o1)" using z(2) by (auto simp: out_refs_def count_list_0_iff)
qed

end
