(* ===== verification/TailEngineTotals.thy ===== *)
theory TailEngineTotals
  imports TailEngineRuns
begin

text \<open>
  Three more invariants of the tail sampling engine: every received span is buffered, kept or dropped,
  the buffer stays within its bytes, and the queue is ordered by age when the clock does not go back.
\<close>

section \<open>Span accounting\<close>

definition accounted :: "engine \<Rightarrow> int" where
  "accounted e = e_spans e + int (m_spans (e_m e) ''kept'') + int (m_spans (e_m e) ''dropped'')"

lemma accounted_cong:
  "e_spans e' = e_spans e \<Longrightarrow> m_spans (e_m e') = m_spans (e_m e) \<Longrightarrow> accounted e' = accounted e"
  by (simp add: accounted_def)

lemma decide_accounted: "accounted (decide v i reason e) = accounted e"
proof -
  obtain keep where "m_spans (e_m (decide v i reason e)) =
      count_up (m_spans (e_m e)) (outcome keep) (length (tr_spans (e_heap e i)))"
    using decide_ex [of v i reason e] by (elim exE conjE)
  then show ?thesis by (simp add: accounted_def decide_frame count_up_def outcome_def)
qed

interpretation accounting: decision_stable v "\<lambda>e. accounted e = n" for v n
  by unfold_locales (simp add: decide_accounted)

lemmas accounted_loops = accounting.shed_stable [OF refl] accounting.due_stable [OF refl] accounting.rest_stable [OF refl]

lemma gauges_accounted: "accounted (gauges e) = accounted e"
  by (rule accounted_cong) simp_all

lemma buffer_span_accounted:
  assumes "buffer_span v i ent s (e, late, touched) = (e', late', touched')"
  shows "accounted e' = accounted e + 1"
proof -
  obtain t1 e1 where a: "appendSpan v i ent touched s e = (t1, e1)" by (metis surj_pair)
  then have "accounted e1 = accounted e + 1" by (simp add: accounted_def appendSpan_frame(5,16) [OF a])
  moreover have "e' = check_full v i e1" using assms by (simp add: buffer_span_def a)
  ultimately show ?thesis by (simp add: check_full_def decide_accounted)
qed

lemma late_span_accounted:
  "late_span src ent key d s (e, late, touched) = (e', late', touched') \<Longrightarrow> accounted e' = accounted e + 1"
  by (cases s) (auto simp: late_span_def Let_def accounted_def count_up_def outcome_def split: if_splits option.splits)

lemma new_trace_accounted:
  assumes "new_trace src key now (make_room v e) = (i, e1)"
  shows "accounted e1 = accounted e"
proof -
  have "accounted e1 = accounted (make_room v e)" using assms by (auto simp: new_trace_def Let_def accounted_def)
  then show ?thesis by (simp add: make_room_def decide_accounted)
qed

lemma add_span_accounted:
  assumes "add_span v src ent now (rs, ss, sp) (e, late, touched) = (e', late', touched')"
  shows "accounted e' = accounted e + of_bool (valid_ids sp)"
proof (cases "valid_ids sp")
  case True
  then show ?thesis
    using assms
    by (auto simp: add_span_def Let_def new_trace_accounted split: option.splits prod.splits
        dest: buffer_span_accounted late_span_accounted)
next
  case False
  then show ?thesis using assms by (auto simp: add_span_def accounted_def)
qed

definition valid_spans :: "trace_request \<Rightarrow> nat" where
  "valid_spans req = length (filter (\<lambda>(rs, ss, sp). valid_ids sp) (request_spans req))"

lemma add_spans_accounted:
  "accounted (fst (fold (add_span v src ent now) xs st)) =
     accounted (fst st) + int (length (filter (\<lambda>(rs, ss, sp). valid_ids sp) xs))"
proof (induction xs arbitrary: st)
  case (Cons x xs)
  obtain rs ss sp e late touched where x: "x = (rs, ss, sp)" "st = (e, late, touched)" by (metis prod.exhaust)
  obtain e' late' touched' where a: "add_span v src ent now (rs, ss, sp) (e, late, touched) = (e', late', touched')"
    by (metis prod.exhaust)
  then show ?case using Cons [of "(e', late', touched')"] add_span_accounted [OF a] by (simp add: x)
qed simp

definition history_spans :: "history \<Rightarrow> nat" where
  "history_spans h = sum_list (map (\<lambda>(ent, src, req). valid_spans req) (h_adds h))"

lemma Add_accounted:
  assumes "accounted e = int (history_spans h)"
  shows "accounted (Add v ord src req e) = int (history_spans (added src req e h))"
proof -
  obtain ps e1 where p: "part src e = (ps, e1)" by (metis surj_pair)
  then have e1: "accounted e1 = accounted e"
    by (auto simp: TailEngine.part_def intro!: accounted_cong split: option.splits)
  have h: "added src req e h = (if so_offset src \<le> ps_lastSeen ps then h else received (e_nextOff e) src req h)"
    by (rule added_part [OF p])
  show ?thesis
  proof (cases "so_offset src \<le> ps_lastSeen ps")
    case True
    then show ?thesis using assms e1 by (simp add: Add_def p h)
  next
    case False
    obtain ent e2 where n: "new_entry src ps e1 = (ent, e2)" by (metis surj_pair)
    obtain now e3 where rn: "read_now e2 = (now, e3)" by (metis surj_pair)
    obtain e4 late touched where f: "fold (add_span v src ent now) (request_spans req) (e3, [], []) = (e4, late, touched)"
      by (metis prod.exhaust)
    have "accounted e3 = accounted e"
    proof -
      have "accounted e3 = accounted e1"
        using n rn by (intro accounted_cong) (auto simp: new_entry_def read_now_def Let_def)
      then show ?thesis by (simp add: e1)
    qed
    then have "accounted e4 = accounted e + int (valid_spans req)"
      using add_spans_accounted [of v src ent now "request_spans req" "(e3, [], [])"] by (simp add: f valid_spans_def)
    moreover have "accounted (Add v ord src req e) = accounted e4"
      using False by (simp add: Add_def p n rn f gauges_accounted accounted_loops) (simp add: accounted_def)
    ultimately show ?thesis using False assms by (simp add: h received_def history_spans_def)
  qed
qed

section \<open>Bytes\<close>

definition bytes_ok :: "env \<Rightarrow> engine \<Rightarrow> bool" where
  "bytes_ok v e \<longleftrightarrow> buffer_ok e \<and> totals_ok v e \<and> e_bytes e \<le> to_maxBytes (e_opts e)"

lemma span_bytes_nonneg: "0 \<le> span_bytes v xs"
  by (induction xs) (auto simp: span_bytes_def)

lemma decide_bytes:
  assumes "bytes_ok v e" and "i \<in> set (e_fifo e)"
  shows "bytes_ok v (decide v i reason e)"
proof -
  have b: "buffer_ok e" "totals_ok v e" "e_bytes e \<le> to_maxBytes (e_opts e)" using assms(1) by (simp_all add: bytes_ok_def)
  have "0 \<le> tr_bytes (e_heap e i)" using b(2) assms(2) by (simp add: totals_ok_def span_bytes_nonneg)
  then show ?thesis
    using decide_buffer [OF b(1) assms(2)] decide_totals [OF b(2,1) assms(2)] b(3) by (simp add: bytes_ok_def decide_frame)
qed

interpretation bounded: decision_stable v "bytes_ok v" for v
  by unfold_locales (rule decide_bytes)

lemma shed_bytes:
  "buffer_ok e \<Longrightarrow> totals_ok v e \<Longrightarrow> 0 < to_maxBytes (e_opts e) \<Longrightarrow> bytes_ok v (shed v e)"
proof (induction v e rule: shed.induct)
  case (1 v e)
  show ?case
  proof (cases "e_bytes e > to_maxBytes (e_opts e) \<and> e_fifo e \<noteq> []")
    case True
    then have "hd (e_fifo e) \<in> set (e_fifo e)" by simp
    then have "bytes_ok v (shed v (decide v (hd (e_fifo e)) ''max_bytes'' e))"
      using 1 True by (intro "1.IH") (simp_all add: decide_buffer decide_totals decide_frame)
    then show ?thesis using True by (subst shed.simps) simp
  next
    case False
    moreover have "e_fifo e = [] \<Longrightarrow> e_bytes e = 0" using 1 by (simp add: totals_ok_def)
    ultimately have "e_bytes e \<le> to_maxBytes (e_opts e)" using "1.prems"(3) by auto
    then show ?thesis using 1 False by (subst shed.simps) (auto simp: bytes_ok_def)
  qed
qed

lemma bytes_ok_cong:
  assumes "e_opts e' = e_opts e" "e_heap e' = e_heap e" "e_nextTrace e' = e_nextTrace e" "e_traces e' = e_traces e"
    "e_fifo e' = e_fifo e" "e_spans e' = e_spans e" "e_bytes e' = e_bytes e"
  shows "bytes_ok v e' = bytes_ok v e"
  using buffer_cong(1,2) [OF assms] assms(1,7) by (simp add: bytes_ok_def)

lemma gauges_bytes: "bytes_ok v (gauges e) = bytes_ok v e"
  by (rule bytes_ok_cong) simp_all

lemma Add_bytes:
  assumes i: "inv v h leak [] {} e" and ord: "\<And>xs. mset (ord xs) = mset xs" and b: "bytes_ok v e"
  shows "bytes_ok v (Add v ord src req e)"
proof -
  obtain ps e1 where p: "part src e = (ps, e1)" by (metis surj_pair)
  show ?thesis
  proof (cases "so_offset src \<le> ps_lastSeen ps")
    case True
    have "bytes_ok v e1 = bytes_ok v e"
      using p by (intro bytes_ok_cong) (auto simp: TailEngine.part_def split: option.splits)
    then show ?thesis using b True by (simp add: Add_unshed [OF p])
  next
    case False
    let ?u = "unshed v ord src req e"
    from unshed_inv [OF i ord p] False have "buffer_ok ?u" "totals_ok v ?u" "0 < to_maxBytes (e_opts ?u)"
      by (auto simp: inv_def bounds_but_def)
    then show ?thesis using False by (simp add: Add_unshed [OF p] gauges_bytes shed_bytes)
  qed
qed

section \<open>Ages\<close>

definition aged :: "gtime \<Rightarrow> engine \<Rightarrow> bool" where
  "aged now e \<longleftrightarrow>
     mono (e_clock e) \<and> now \<le> e_clock e (e_reads e) \<and>
     sorted_wrt (\<lambda>i j. tr_first (e_heap e i) \<le> tr_first (e_heap e j)) (e_fifo e) \<and>
     (\<forall>i\<in>set (e_fifo e). i < e_nextTrace e \<and> tr_first (e_heap e i) \<le> now)"

definition clocked :: "engine \<Rightarrow> bool" where
  "clocked e \<longleftrightarrow> aged (e_clock e (e_reads e)) e"

lemma aged_cong:
  assumes "e_clock e' = e_clock e" "e_reads e \<le> e_reads e'" "e_heap e' = e_heap e" "e_nextTrace e' = e_nextTrace e" "e_fifo e' = e_fifo e"
  shows "aged now e \<Longrightarrow> aged now e'"
  using assms unfolding aged_def by (metis monoD order_trans)

lemma aged_clocked: "aged now e \<Longrightarrow> clocked e"
  unfolding clocked_def aged_def by force

lemma sorted_wrt_remove1: "sorted_wrt P xs \<Longrightarrow> sorted_wrt P (remove1 x xs)"
  by (induction xs) (auto dest: subsetD [OF set_remove1_subset])

interpretation aging: decision_stable v "aged now" for v now
proof
  fix e i reason
  assume a: "aged now e"
  then have "mono (e_clock e)" "now \<le> e_clock e (e_reads e)" by (simp_all add: aged_def)
  then have "now \<le> e_clock e (Suc (e_reads e))" by (meson monoD le_SucI order_refl order_trans)
  then show "aged now (decide v i reason e)"
    using a by (auto simp: aged_def decide_frame sorted_wrt_remove1 dest: subsetD [OF set_remove1_subset])
qed

lemma gauges_aged: "aged now e \<Longrightarrow> aged now (gauges e)"
  by (rule aged_cong [rotated 5]) simp_all

lemma aged_upd:
  assumes "aged now e" and "e_heap e' = (e_heap e)(i := t)" "tr_first t = tr_first (e_heap e i)"
    and "e_clock e' = e_clock e" "e_reads e' = e_reads e" "e_nextTrace e' = e_nextTrace e" "e_fifo e' = e_fifo e"
  shows "aged now e'"
proof -
  have "tr_first (e_heap e' j) = tr_first (e_heap e j)" for j using assms(2,3) by simp
  then show ?thesis using assms(1) unfolding aged_def assms(4-7) by simp
qed

lemma buffer_span_aged:
  assumes a: "aged now e" and i: "i \<in> set (e_fifo e)" and b: "buffer_span v i ent s (e, late, touched) = (e', late', touched')"
  shows "aged now e'"
proof -
  obtain t1 e1 where ap: "appendSpan v i ent touched s e = (t1, e1)" by (metis surj_pair)
  note fr = appendSpan_frame [OF ap]
  have "aged now e1"
    by (rule aged_upd [OF a fr(1)]) (simp_all add: fr grown_def Let_def)
  moreover have "e' = check_full v i e1" using b by (simp add: buffer_span_def ap)
  ultimately show ?thesis using i by (auto simp: check_full_def fr intro: aging.decide_stable)
qed

lemma late_span_frame:
  assumes "late_span src ent key d s (e, late, touched) = (e', late', touched')"
  shows "e_clock e' = e_clock e" "e_reads e' = e_reads e" "e_heap e' = e_heap e" "e_nextTrace e' = e_nextTrace e" "e_fifo e' = e_fifo e"
  using assms by (cases s; auto simp: late_span_def Let_def split: if_splits option.splits)+

lemma new_trace_aged:
  assumes a: "aged now e" and n: "new_trace src key now e = (i, e')"
  shows "aged now e'"
proof -
  have e': "e_fifo e' = e_fifo e @ [i]" "i = e_nextTrace e" "e_nextTrace e' = Suc i" "e_clock e' = e_clock e" "e_reads e' = e_reads e"
    "tr_first (e_heap e' i) = now" "\<And>j. j \<noteq> i \<Longrightarrow> e_heap e' j = e_heap e j"
    using n by (auto simp: new_trace_def Let_def)
  have ni: "j \<noteq> i" "tr_first (e_heap e j) \<le> now" "j < i" if "j \<in> set (e_fifo e)" for j
    using a that e'(2) by (auto simp: aged_def)
  have "sorted_wrt (\<lambda>i j. tr_first (e_heap e i) \<le> tr_first (e_heap e j)) (e_fifo e)" using a by (simp add: aged_def)
  then have "sorted_wrt (\<lambda>i j. tr_first (e_heap e' i) \<le> tr_first (e_heap e' j)) (e_fifo e)"
    by (rule sorted_wrt_mono_rel [rotated]) (simp add: e'(7) ni(1))
  moreover have "tr_first (e_heap e' j) \<le> now" "j < Suc i" if "j \<in> set (e_fifo e)" for j
    using ni [OF that] e'(7) by auto
  ultimately show ?thesis using a unfolding aged_def e'(1,3-5) by (auto simp: sorted_wrt_append e'(6))
qed

lemma add_span_aged:
  assumes a: "aged now e" and b: "adding v h leak ent src req (e, late, touched)"
    and r: "add_span v src ent now (rs, ss, sp) (e, late, touched) = (e', late', touched')"
  shows "aged now e'"
proof -
  let ?key = "(so_tenant src, sp_traceId sp)"
  have bo: "buffer_ok e" and mr: "aged now (make_room v e)"
  proof -
    show "buffer_ok e" using b by (simp add: inv_def)
    have "e_traces e \<noteq> []" if "int (length (e_traces e)) \<ge> to_maxTraces (e_opts e)"
      using b that by (auto simp: inv_def bounds_but_def)
    then show "aged now (make_room v e)"
      using a buffer_front(1) [OF \<open>buffer_ok e\<close>] by (auto simp: make_room_def intro: aging.decide_stable)
  qed
  consider (bad) "\<not> valid_ids sp" | (old) i where "valid_ids sp" "map_of (e_traces e) ?key = Some i"
    | (late) d where "valid_ids sp" "map_of (e_traces e) ?key = None" "cached ?key now e = Some d"
    | (new) "valid_ids sp" "map_of (e_traces e) ?key = None" "cached ?key now e = None"
    by (cases "map_of (e_traces e) ?key"; cases "cached ?key now e") auto
  then show ?thesis
  proof cases
    case bad
    then show ?thesis using r by (auto simp: add_span_def intro!: aged_cong [OF _ _ _ _ _ a])
  next
    case (old i)
    then have "i \<in> set (e_fifo e)" using bo unfolding buffer_ok_def by blast
    then show ?thesis using buffer_span_aged [OF a] r old by (simp add: add_span_def)
  next
    case (late d)
    then have "late_span src ent ?key d (rs, ss, sp) (e, late, touched) = (e', late', touched')" using r by (simp add: add_span_def)
    note fr = late_span_frame [OF this]
    show ?thesis by (rule aged_cong [OF _ _ _ _ _ a]) (simp_all add: fr)
  next
    case new
    obtain j e1 where n: "new_trace src ?key now (make_room v e) = (j, e1)" by (metis surj_pair)
    then have "j \<in> set (e_fifo e1)" by (auto simp: new_trace_def Let_def)
    then show ?thesis using buffer_span_aged [OF new_trace_aged [OF mr n]] r new n by (simp add: add_span_def)
  qed
qed

lemma add_spans_aged:
  "aged now (fst st) \<Longrightarrow> adding v h leak ent src req st \<Longrightarrow> set xs \<subseteq> set (request_spans req) \<Longrightarrow>
     aged now (fst (fold (add_span v src ent now) xs st))"
proof (induction xs arbitrary: st)
  case (Cons x xs)
  obtain rs ss sp e late touched where x: "x = (rs, ss, sp)" "st = (e, late, touched)" by (metis prod.exhaust)
  obtain e' late' touched' where a: "add_span v src ent now (rs, ss, sp) (e, late, touched) = (e', late', touched')"
    by (metis prod.exhaust)
  have "aged now e'" by (rule add_span_aged [OF _ _ a, of h leak req]) (use Cons.prems x in auto)
  moreover have "adding v h leak ent src req (e', late', touched')"
    using Cons.prems add_span_adding [of v h leak ent src req e late touched rs ss sp now] x a by simp
  ultimately show ?case using Cons x a by simp
qed simp

lemma Add_clocked:
  assumes i: "inv v h leak [] {} e" and c: "clocked e"
  shows "clocked (Add v ord src req e)"
proof -
  obtain ps e1 where p: "part src e = (ps, e1)" by (metis surj_pair)
  then have f1: "e_clock e1 = e_clock e" "e_reads e1 = e_reads e" "e_heap e1 = e_heap e" "e_nextTrace e1 = e_nextTrace e" "e_fifo e1 = e_fifo e"
    by (auto simp: TailEngine.part_def split: option.splits)
  show ?thesis
  proof (cases "so_offset src \<le> ps_lastSeen ps")
    case True
    have "aged (e_clock e (e_reads e)) e1" by (rule aged_cong [OF _ _ _ _ _ c [unfolded clocked_def]]) (simp_all add: f1)
    then show ?thesis using True by (simp add: Add_unshed [OF p] clocked_def f1)
  next
    case False
    obtain ent e2 where n: "new_entry src ps e1 = (ent, e2)" by (metis surj_pair)
    obtain now e3 where rn: "read_now e2 = (now, e3)" by (metis surj_pair)
    obtain e4 late touched where f: "fold (add_span v src ent now) (request_spans req) (e3, [], []) = (e4, late, touched)"
      by (metis prod.exhaust)
    have f3: "e_clock e3 = e_clock e" "e_reads e3 = Suc (e_reads e)" "e_heap e3 = e_heap e" "e_nextTrace e3 = e_nextTrace e"
      "e_fifo e3 = e_fifo e" "now = e_clock e (e_reads e)"
      using n rn f1 by (auto simp: new_entry_def read_now_def Let_def)
    have "aged now e3" unfolding f3(6) by (rule aged_cong [OF _ _ _ _ _ c [unfolded clocked_def]]) (simp_all add: f3)
    then have "aged now e4"
      using add_spans_aged [of now "(e3, [], [])", OF _ adding_start [OF i p False n rn, of req] order_refl] f by simp
    then have "aged now (unshed v ord src req e)"
      by (rule aged_cong [of _ e4, rotated 5]) (simp_all add: unshed_def p n rn f)
    then show ?thesis
      using False by (auto simp: Add_unshed [OF p] intro!: aged_clocked gauges_aged aging.shed_stable)
  qed
qed

text \<open>What is left in the queue after the due traces are decided is not due.\<close>

lemma due_frame:
  "e_heap (decide_due v now e) = e_heap e \<and> e_opts (decide_due v now e) = e_opts e"
proof (induction v now e rule: decide_due.induct)
  case (1 v now e)
  then show ?case by (subst (1 2) decide_due.simps) (simp add: decide_frame)
qed

lemma due_hd:
  "e_fifo (decide_due v now e) \<noteq> [] \<Longrightarrow>
     time_sub now (tr_first (e_heap e (hd (e_fifo (decide_due v now e))))) < to_wait (e_opts e)"
proof (induction v now e rule: decide_due.induct)
  case (1 v now e)
  show ?case
  proof (cases "e_fifo e \<noteq> [] \<and> \<not> time_sub now (tr_first (e_heap e (hd (e_fifo e)))) < to_wait (e_opts e)")
    case True
    then have "decide_due v now e = decide_due v now (decide v (hd (e_fifo e)) ''timeout'' e)" by (subst decide_due.simps) simp
    then show ?thesis using 1 True by (simp add: decide_frame)
  next
    case False
    then have "decide_due v now e = e" by (subst decide_due.simps) auto
    then show ?thesis using 1 False by auto
  qed
qed

lemma due_all:
  assumes "aged t e" and "i \<in> set (e_fifo (decide_due v now e))"
  shows "time_sub now (tr_first (e_heap e i)) < to_wait (e_opts e)"
proof -
  let ?e = "decide_due v now e"
  have "aged t ?e" by (rule aging.due_stable [OF assms(1)])
  then have "sorted_wrt (\<lambda>i j. tr_first (e_heap e i) \<le> tr_first (e_heap e j)) (e_fifo ?e)"
    using due_frame by (simp add: aged_def)
  then have "tr_first (e_heap e (hd (e_fifo ?e))) \<le> tr_first (e_heap e i)"
    using assms(2) by (cases "e_fifo ?e") auto
  then have "time_sub now (tr_first (e_heap e i)) \<le> time_sub now (tr_first (e_heap e (hd (e_fifo ?e))))" by (rule time_sub_mono)
  moreover have "e_fifo ?e \<noteq> []" using assms(2) by auto
  ultimately show ?thesis using due_hd [of v now e] by linarith
qed

text \<open>Nothing replaces the clock.\<close>

interpretation clocks: decision_stable v "\<lambda>e. e_clock e = c" for v c
  by unfold_locales (simp add: decide_frame)

lemma add_span_clock:
  assumes "add_span v src ent now (rs, ss, sp) (e, late, touched) = (e', late', touched')"
  shows "e_clock e' = e_clock e"
proof -
  have b: "e_clock e3 = e_clock e2" if "buffer_span v i ent s (e2, late, touched) = (e3, l3, t3)" for i s e2 e3 l3 t3
  proof -
    obtain t1 e1 where a: "appendSpan v i ent touched s e2 = (t1, e1)" by (metis surj_pair)
    then show ?thesis using that appendSpan_frame(17) [OF a] by (auto simp: buffer_span_def check_full_def decide_frame split: if_splits)
  qed
  have m: "e_clock (make_room v e) = e_clock e" by (simp add: make_room_def decide_frame)
  have n: "e_clock e1 = e_clock e" if "new_trace src key now (make_room v e) = (i, e1)" for key i e1
    using that m by (auto simp: new_trace_def Let_def)
  show ?thesis
    using assms by (auto simp: add_span_def Let_def n split: if_splits option.splits prod.splits dest: b late_span_frame(1))
qed

lemma add_spans_clock: "e_clock (fst (fold (add_span v src ent now) xs st)) = e_clock (fst st)"
proof (induction xs arbitrary: st)
  case (Cons x xs)
  obtain rs ss sp e late touched where x: "x = (rs, ss, sp)" "st = (e, late, touched)" by (metis prod.exhaust)
  obtain e' late' touched' where a: "add_span v src ent now (rs, ss, sp) (e, late, touched) = (e', late', touched')"
    by (metis prod.exhaust)
  then show ?case using Cons [of "(e', late', touched')"] add_span_clock [OF a] by (simp add: x)
qed simp

lemma Add_clock: "e_clock (Add v ord src req e) = e_clock e"
proof -
  obtain ps e1 where p: "part src e = (ps, e1)" by (metis surj_pair)
  then have c1: "e_clock e1 = e_clock e" by (auto simp: TailEngine.part_def split: option.splits)
  obtain ent e2 where n: "new_entry src ps e1 = (ent, e2)" by (metis surj_pair)
  obtain now e3 where rn: "read_now e2 = (now, e3)" by (metis surj_pair)
  obtain e4 late touched where f: "fold (add_span v src ent now) (request_spans req) (e3, [], []) = (e4, late, touched)"
    by (metis prod.exhaust)
  have "e_clock e3 = e_clock e" using n rn c1 by (auto simp: new_entry_def read_now_def Let_def)
  then have "e_clock e4 = e_clock e" using add_spans_clock [of v src ent now "request_spans req" "(e3, [], [])"] f by simp
  then have "e_clock (unshed v ord src req e) = e_clock e" by (simp add: unshed_def p n rn f)
  then show ?thesis using c1 clocks.shed_stable by (simp add: Add_unshed [OF p])
qed

end
