(* ===== verification/TailRunnerCorrect.thy ===== *)
theory TailRunnerCorrect
  imports TailRunner TailEngineTotals
begin

text \<open>
  Correctness of the tail sampling loop over every sequence of events: what may be committed, what
  stays in memory, what happens to every span, when traces are decided and how records are split.
\<close>

section \<open>The invariant of a run\<close>

definition good :: "env \<Rightarrow> history \<Rightarrow> (nat \<Rightarrow> nat) \<Rightarrow> tail_output list \<Rightarrow> engine \<Rightarrow> bool" where
  "good v h leak extra e \<longleftrightarrow>
     inv v h leak extra {} e \<and> bytes_ok v e \<and> accounted e = int (history_spans h) \<and> (mono (e_clock e) \<longrightarrow> clocked e)"

lemma clocked_mono: "clocked e \<Longrightarrow> mono (e_clock e)"
  by (simp add: clocked_def aged_def)

lemma good_inv: "good v h leak extra e \<Longrightarrow> inv v h leak extra {} e"
  by (simp add: good_def)

lemma good_frame:
  assumes g: "good v h leak extra e" and i: "inv v h' leak' extra' {} e'" and a: "h_adds h' = h_adds h"
    and f: "e_opts e' = e_opts e" "e_heap e' = e_heap e" "e_nextTrace e' = e_nextTrace e" "e_traces e' = e_traces e"
      "e_fifo e' = e_fifo e" "e_spans e' = e_spans e" "e_bytes e' = e_bytes e"
      "e_clock e' = e_clock e" "e_reads e \<le> e_reads e'" "m_spans (e_m e') = m_spans (e_m e)"
  shows "good v h' leak' extra' e'"
proof -
  have "bytes_ok v e' = bytes_ok v e" by (rule bytes_ok_cong [OF f(1-7)])
  moreover have "accounted e' = accounted e" by (rule accounted_cong [OF f(6,10)])
  moreover have "history_spans h' = history_spans h" by (simp add: history_spans_def a)
  moreover have "clocked e'" if "clocked e"
    using aged_clocked [OF aged_cong [OF f(8,9,2,3,5)]] that unfolding clocked_def by blast
  ultimately show ?thesis using g i by (auto simp: good_def f(8))
qed

lemma good_NewEngine: "good v \<lparr>h_adds = [], h_owner = (\<lambda>_. None)\<rparr> (\<lambda>_. 0) [] (NewEngine opts clock)"
proof -
  let ?e = "NewEngine opts clock" and ?h = "\<lparr>h_adds = [], h_owner = (\<lambda>_. None)\<rparr>"
  have "0 < to_maxTraces (e_opts ?e)" "0 < to_maxSpans (e_opts ?e)" "0 < to_maxBytes (e_opts ?e)" "0 < to_cacheSize (e_opts ?e)"
    by (simp_all add: NewEngine_def defaults_def)
  moreover have "e_fifo ?e = []" "e_traces ?e = []" "e_spans ?e = 0" "e_bytes ?e = 0" "e_cache ?e = []" "e_parts ?e = []" "e_out ?e = []"
    "e_cacheOrder ?e = []" "e_cacheHead ?e = 0" "e_clock ?e = clock" "m_spans (e_m ?e) = (\<lambda>_. 0)" "oe_refs (e_offs ?e r) = 0" for r
    by (simp_all add: NewEngine_def zero_metrics_def)
  ultimately show ?thesis
    by (simp add: good_def inv_def buffer_ok_def totals_ok_def bounds_but_def cache_ok_def refs_ok_def buf_refs_def parts_ok_def
        owner_ok_def adds_ok_def sources_ok_def bytes_ok_def accounted_def history_spans_def clocked_def aged_def)
qed

lemma good_Add:
  assumes g: "good v h leak [] e" and ord: "\<And>xs. mset (ord xs) = mset xs"
  shows "good v (added src req e h) leak [] (Add v ord src req e)"
proof -
  have i: "inv v h leak [] {} e" and b: "bytes_ok v e" and a: "accounted e = int (history_spans h)"
    using g by (simp_all add: good_def)
  show ?thesis
    using Add_inv [OF i ord] Add_bytes [where ord = ord, OF i ord b] Add_accounted [OF a] Add_clocked [OF i] g
    by (auto simp: good_def Add_clock)
qed

lemma good_Tick: "good v h leak [] e \<Longrightarrow> good v h leak [] (Tick v e)"
proof -
  assume g: "good v h leak [] e"
  define e1 where "e1 = snd (read_now e)"
  define now where "now = e_clock e (e_reads e)"
  have t: "Tick v e = gauges (purgeCache now (decide_due v now e1))"
    by (simp add: Tick_def read_now_def Let_def e1_def now_def)
  have "good v h leak [] e1"
    unfolding e1_def by (rule good_frame [OF g read_now_inv [OF good_inv [OF g]]]) (simp_all add: read_now_def)
  then have g1: "inv v h leak [] {} e1" "bytes_ok v e1" "accounted e1 = int (history_spans h)" "mono (e_clock e1) \<longrightarrow> clocked e1"
    by (simp_all add: good_def)
  let ?d = "decide_due v now e1"
  have "inv v h leak [] {} ?d" "bytes_ok v ?d" "accounted ?d = int (history_spans h)" "e_clock ?d = e_clock e1"
    using g1 by (auto intro: kept.due_stable bounded.due_stable accounting.due_stable clocks.due_stable)
  moreover have "clocked ?d" if "clocked e1"
    using that aging.due_stable aged_clocked unfolding clocked_def by blast
  ultimately have d: "good v h leak [] ?d" using g1(4) by (auto simp: good_def)
  show ?thesis
    unfolding t by (rule good_frame [OF d]) (auto intro: gauges_inv purge_inv good_inv [OF d])
qed

lemma good_DecideAll: "good v h leak [] e \<Longrightarrow> good v h leak [] (DecideAll v reason e)"
proof -
  assume g: "good v h leak [] e"
  let ?d = "decide_rest v reason e"
  have "inv v h leak [] {} ?d" "bytes_ok v ?d" "accounted ?d = int (history_spans h)" "e_clock ?d = e_clock e"
    using g by (auto simp: good_def intro: kept.rest_stable bounded.rest_stable accounting.rest_stable clocks.rest_stable)
  moreover have "clocked ?d" if "clocked e"
    using that aging.rest_stable aged_clocked unfolding clocked_def by blast
  ultimately have d: "good v h leak [] ?d" using g by (auto simp: good_def)
  show ?thesis
    unfolding DecideAll_def by (rule good_frame [OF d]) (auto intro: gauges_inv good_inv [OF d])
qed

lemma good_DecidePartitions: "good v h leak [] e \<Longrightarrow> good v h leak [] (DecidePartitions v parts e)"
proof (cases "gone_entries parts e = []")
  case False
  assume g: "good v h leak [] e"
  define xs where "xs = filter (\<lambda>i. list_ex (\<lambda>r. r \<in> set (gone_entries parts e)) (tr_refs (e_heap e i))) (e_fifo e)"
  let ?d = "fold (\<lambda>i. decide v i ''revoked'') xs e"
  have xs: "distinct xs" "set xs \<subseteq> set (e_fifo e)" using good_inv [OF g] by (auto simp: xs_def inv_def buffer_ok_def)
  have "inv v h leak [] {} ?d" "bytes_ok v ?d" "accounted ?d = int (history_spans h)" "e_clock ?d = e_clock e"
    using g xs by (auto simp: good_def intro: kept.list_stable bounded.list_stable accounting.list_stable clocks.list_stable)
  moreover have "clocked ?d" if "clocked e"
    using that aging.list_stable [OF _ xs] aged_clocked unfolding clocked_def by blast
  ultimately have d: "good v h leak [] ?d" using g by (auto simp: good_def)
  have "DecidePartitions v parts e = gauges ?d" using False by (simp add: DecidePartitions_def Let_def xs_def)
  then show ?thesis using good_frame [OF d gauges_inv [OF good_inv [OF d]]] by simp
qed (simp add: DecidePartitions_def)

lemma good_DropPartitions: "good v h leak extra e \<Longrightarrow> good v (dropped parts h) leak extra (DropPartitions parts e)"
  by (rule good_frame, assumption, rule DropPartitions_inv, erule good_inv)
     (simp_all add: dropped_def DropPartitions_def)

lemma good_TakeOutputs: "good v h leak [] e \<Longrightarrow> TakeOutputs e = (outs, e') \<Longrightarrow> good v h leak outs e'"
  by (rule good_frame, assumption, rule TakeOutputs_inv, erule good_inv) (auto simp: TakeOutputs_def)

lemma good_put_back: "good v h leak outs e \<Longrightarrow> good v h leak [] (e\<lparr>e_out := outs @ e_out e\<rparr>)"
  by (rule good_frame, assumption, rule put_back_inv, erule good_inv) simp_all

lemma good_lost: "good v h leak outs e \<Longrightarrow> good v h (\<lambda>r. leak r + out_refs outs r) [] e"
  by (rule good_frame, assumption, rule lost_inv, erule good_inv) simp_all

lemma good_Release: "good v h leak outs e \<Longrightarrow> good v h leak [] (Release outs e)"
  by (rule good_frame, assumption, rule Release_inv, erule good_inv) (simp_all add: Release_frame)

lemma good_CommitOffsets: "good v h leak [] e \<Longrightarrow> CommitOffsets only e = (cs, e') \<Longrightarrow> good v h leak [] e'"
  by (rule good_frame, assumption, rule CommitOffsets_inv, erule good_inv) (auto dest!: CommitOffsets_parts(1))

section \<open>Steps of the loop\<close>

lemma produce_frame: "produce rv outs r = (err, r1) \<Longrightarrow> rn_eng r1 = rn_eng r \<and> rn_commits r1 = rn_commits r"
  by (auto simp: produce_def Let_def split: if_splits option.splits prod.splits)

lemma release_commit_good:
  assumes g: "good v h leak outs (rn_eng r)"
  shows "good v h leak [] (rn_eng (release_commit only report outs r))"
proof -
  obtain cs e where c: "CommitOffsets only (Release outs (rn_eng r)) = (cs, e)" by (metis surj_pair)
  have "good v h leak [] e" by (rule good_CommitOffsets [OF good_Release [OF g] c])
  then show ?thesis by (simp add: release_commit_def c Let_def commit_def)
qed

lemma flush_good:
  assumes g: "good v h leak [] (rn_eng r)"
  shows "good v h leak [] (rn_eng (snd (flush rv r)))"
proof -
  obtain outs e where t: "TakeOutputs (rn_eng r) = (outs, e)" by (metis surj_pair)
  obtain err r1 where p: "produce rv outs (r\<lparr>rn_eng := e\<rparr>) = (err, r1)" by (metis surj_pair)
  have g1: "good v h leak outs (rn_eng r1)" using good_TakeOutputs [OF g t] produce_frame [OF p] by simp
  show ?thesis
    using release_commit_good [OF g1] good_put_back [OF g1] by (cases err) (simp_all add: flush_def t p)
qed

text \<open>The references that a rebalance loses when it cannot produce.\<close>

definition lost_refs :: "runner_env \<Rightarrow> part_set \<Rightarrow> runner \<Rightarrow> nat \<Rightarrow> nat" where
  "lost_refs rv m r =
     (case TakeOutputs (DecidePartitions (rv_env rv) m (rn_eng r)) of (outs, e) \<Rightarrow>
        case fst (produce rv outs (r\<lparr>rn_eng := e\<rparr>)) of None \<Rightarrow> (\<lambda>_. 0) | Some _ \<Rightarrow> out_refs outs)"

lemma onGone_good:
  assumes g: "good (rv_env rv) h leak [] (rn_eng r)" and m: "m \<noteq> []"
  shows "good (rv_env rv) (dropped m h) (\<lambda>q. leak q + lost_refs rv m r q) [] (rn_eng (onGone rv m how r))"
proof -
  obtain outs e where t: "TakeOutputs (DecidePartitions (rv_env rv) m (rn_eng r)) = (outs, e)" by (metis surj_pair)
  obtain err r1 where p: "produce rv outs (r\<lparr>rn_eng := e\<rparr>) = (err, r1)" by (metis surj_pair)
  have g1: "good (rv_env rv) h leak outs (rn_eng r1)"
    using good_TakeOutputs [OF good_DecidePartitions [OF g] t] produce_frame [OF p] by simp
  show ?thesis
    using good_DropPartitions [OF release_commit_good [OF g1]] good_DropPartitions [OF good_lost [OF g1]] m
    by (cases err) (simp_all add: onGone_def lost_refs_def t p Let_def)
qed

text \<open>What \<open>addRecord\<close> gives to the engine.\<close>

definition record_data :: "runner_env \<Rightarrow> kafka_record \<Rightarrow> source_rec \<times> trace_request" where
  "record_data rv rec =
     (let src = record_source rec; src1 = src\<lparr>so_tenant := fst (HeaderValue rec HeaderTenantID)\<rparr>;
          src2 = src1\<lparr>so_requestID := fst (HeaderValue rec HeaderRequestID), so_receivedAt := received_at rec\<rparr>
      in if fst (HeaderValue rec HeaderSchemaVersion) \<noteq> SchemaVersion then (src, [])
         else if so_tenant src1 = [] then (src1, [])
         else (src2, case rv_unmarshal rv (kr_value rec) of None \<Rightarrow> [] | Some req \<Rightarrow> req))"

lemma addRecord_eng:
  "record_data rv rec = (src, req) \<Longrightarrow> rn_eng (addRecord rv rec r) = Add (rv_env rv) (rv_order rv) src req (rn_eng r)"
  by (auto simp: record_data_def addRecord_def reject_def eng_add_def Let_def split: if_splits option.splits)

text \<open>The states a run goes through, each with the history of the run and the references it has lost.\<close>

definition at_policy :: "(string \<Rightarrow> policy) \<Rightarrow> runner_env \<Rightarrow> runner_env" where
  "at_policy p rv = rv\<lparr>rv_env := (rv_env rv)\<lparr>en_policy := p\<rparr>\<rparr>"

inductive reaches :: "runner_env \<Rightarrow> history \<Rightarrow> (nat \<Rightarrow> nat) \<Rightarrow> runner \<Rightarrow> bool" for rv where
  start: "reaches rv \<lparr>h_adds = [], h_owner = (\<lambda>_. None)\<rparr> (\<lambda>_. 0) (NewRunner (NewEngine opts clock))"
| record_step: "reaches rv h leak r \<Longrightarrow> record_data rv rec = (src, req) \<Longrightarrow>
    reaches rv (added src req (rn_eng r) h) leak (addRecord (at_policy p rv) rec r)"
| tick_step: "reaches rv h leak r \<Longrightarrow> reaches rv h leak (r\<lparr>rn_eng := Tick (rv_env (at_policy p rv)) (rn_eng r)\<rparr>)"
| decide_step: "reaches rv h leak r \<Longrightarrow>
    reaches rv h leak (r\<lparr>rn_eng := DecideAll (rv_env (at_policy p rv)) reason (rn_eng r)\<rparr>)"
| flush_step: "reaches rv h leak r \<Longrightarrow> reaches rv h leak (snd (flush (at_policy p rv) r))"
| gone_step: "reaches rv h leak r \<Longrightarrow> m \<noteq> [] \<Longrightarrow>
    reaches rv (dropped m h) (\<lambda>q. leak q + lost_refs (at_policy p rv) m r q) (onGone (at_policy p rv) m how r)"

definition permutes :: "runner_env \<Rightarrow> bool" where
  "permutes rv \<longleftrightarrow> (\<forall>xs. mset (rv_order rv xs) = mset xs)"

lemma good_policy: "good (v\<lparr>en_policy := p\<rparr>) h leak extra e = good v h leak extra e"
  by (simp add: good_def inv_def bytes_ok_def totals_ok_def span_bytes_def)

lemma record_data_policy: "record_data (at_policy p rv) rec = record_data rv rec"
  by (simp add: record_data_def at_policy_def Let_def)

lemma reaches_good: "reaches rv h leak r \<Longrightarrow> permutes rv \<Longrightarrow> good (rv_env rv) h leak [] (rn_eng r)"
proof (induction rule: reaches.induct)
  case (start opts clock)
  then show ?case by (simp add: NewRunner_def good_NewEngine)
next
  case (record_step h leak r rec src req p)
  then have g: "good (rv_env (at_policy p rv)) h leak [] (rn_eng r)" by (simp add: at_policy_def good_policy)
  have "record_data (at_policy p rv) rec = (src, req)"
    using record_step.hyps(2) by (simp add: record_data_policy)
  moreover have "\<And>xs. mset (rv_order (at_policy p rv) xs) = mset xs" using record_step by (simp add: permutes_def at_policy_def)
  ultimately have "good (rv_env (at_policy p rv)) (added src req (rn_eng r) h) leak [] (rn_eng (addRecord (at_policy p rv) rec r))"
    using good_Add [OF g] by (simp add: addRecord_eng)
  then show ?case by (simp add: at_policy_def good_policy)
next
  case (tick_step h leak r p)
  then have "good (rv_env (at_policy p rv)) h leak [] (rn_eng r)" by (simp add: at_policy_def good_policy)
  from good_Tick [OF this] show ?case by (simp add: at_policy_def good_policy)
next
  case (decide_step h leak r p reason)
  then have "good (rv_env (at_policy p rv)) h leak [] (rn_eng r)" by (simp add: at_policy_def good_policy)
  from good_DecideAll [OF this] show ?case by (simp add: at_policy_def good_policy)
next
  case (flush_step h leak r p)
  then show ?case by (intro flush_good)
next
  case (gone_step h leak r m p how)
  then have "good (rv_env (at_policy p rv)) h leak [] (rn_eng r)" by (simp add: at_policy_def good_policy)
  from onGone_good [OF this gone_step.hyps(2)] show ?case by (simp add: at_policy_def good_policy)
qed

text \<open>Every state of \<open>Run\<close> is reached by such steps.\<close>

lemma at_policy_self: "at_policy (en_policy (rv_env rv)) rv = rv"
  by (simp add: at_policy_def)

lemma reaches_steps:
  assumes "reaches rv h leak r"
  shows "\<exists>h. reaches rv h leak (addRecord rv rec r)" and "reaches rv h leak (r\<lparr>rn_eng := Tick (rv_env rv) (rn_eng r)\<rparr>)"
    and "reaches rv h leak (r\<lparr>rn_eng := DecideAll (rv_env rv) reason (rn_eng r)\<rparr>)" and "reaches rv h leak (snd (flush rv r))"
    and "\<exists>h leak. reaches rv h leak (onGone rv m how r)"
proof -
  obtain src req where d: "record_data rv rec = (src, req)" by (metis surj_pair)
  show "\<exists>h. reaches rv h leak (addRecord rv rec r)"
    using reaches.record_step [OF assms d, of "en_policy (rv_env rv)"] by (auto simp: at_policy_self)
  show "reaches rv h leak (r\<lparr>rn_eng := Tick (rv_env rv) (rn_eng r)\<rparr>)"
    using reaches.tick_step [OF assms, of "en_policy (rv_env rv)"] by (simp add: at_policy_self)
  show "reaches rv h leak (r\<lparr>rn_eng := DecideAll (rv_env rv) reason (rn_eng r)\<rparr>)"
    using reaches.decide_step [OF assms, of "en_policy (rv_env rv)"] by (simp add: at_policy_self)
  show "reaches rv h leak (snd (flush rv r))"
    using reaches.flush_step [OF assms, of "en_policy (rv_env rv)"] by (simp add: at_policy_self)
  show "\<exists>h leak. reaches rv h leak (onGone rv m how r)"
  proof (cases "m = []")
    case True
    then show ?thesis using assms by (auto simp: onGone_def)
  next
    case False
    then show ?thesis
      using reaches.gone_step [OF assms False, of "en_policy (rv_env rv)" how] unfolding at_policy_self by blast
  qed
qed

lemma add_records_reaches: "reaches rv h leak r \<Longrightarrow> \<exists>h. reaches rv h leak (snd (add_records rv recs r))"
proof (induction rv recs r arbitrary: h rule: add_records.induct)
  case (1 rv r)
  then show ?case by auto
next
  case (2 rv rec recs r)
  obtain h1 where h1: "reaches rv h1 leak (addRecord rv rec r)" using reaches_steps(1) [OF "2.prems"] by blast
  show ?case
  proof (cases "length (e_out (rn_eng (addRecord rv rec r))) \<ge> flushOutputs")
    case True
    obtain err r2 where f: "flush rv (addRecord rv rec r) = (err, r2)" by (metis surj_pair)
    have "reaches rv h1 leak r2" using reaches_steps(4) [OF h1] f by simp
    then show ?thesis using 2(1) [OF refl True f [symmetric]] f True by (cases err) (auto simp: Let_def)
  next
    case False
    then show ?thesis using 2(2) [OF refl False h1] by (simp add: Let_def)
  qed
qed

lemma Run_reaches: "reaches rv h leak r \<Longrightarrow> \<exists>h leak. reaches rv h leak (snd (Run rv evs r))"
proof (induction rv evs r arbitrary: h leak rule: Run.induct)
  case (3 rv m how evs r)
  obtain h1 leak1 where "reaches rv h1 leak1 (onGone rv m how r)" using reaches_steps(5) [OF "3.prems"] by blast
  then show ?case using "3.IH" by simp
next
  case (4 rv recs cancelled evs r)
  obtain err r1 where a: "add_records rv recs r = (err, r1)" by (metis surj_pair)
  obtain h1 where h1: "reaches rv h1 leak r1" using add_records_reaches [OF "4.prems"] a by (metis snd_conv)
  obtain failed r2 where p: "poll_round rv recs r = (failed, r2)" by (metis surj_pair)
  have "r2 = r1 \<or> r2 = snd (flush rv (r1\<lparr>rn_eng := Tick (rv_env rv) (rn_eng r1)\<rparr>))"
    using p a by (cases err) (auto simp: poll_round_def)
  then have h2: "reaches rv h1 leak r2" using h1 reaches_steps(4) [OF reaches_steps(2) [OF h1]] by auto
  have "reaches rv h1 leak (snd (shutdown rv r2))"
    unfolding shutdown_def by (rule reaches_steps(4) [OF reaches_steps(3) [OF h2]])
  then show ?case using 4(1) [OF p [symmetric]] h2 p by (cases "shutdown rv r2") auto
qed auto

section \<open>Safety of commits\<close>

text \<open>No output waits, and what is buffered comes from records that were given up or are not below \<open>off\<close>.\<close>

definition memory_above :: "history \<Rightarrow> part_key \<Rightarrow> int \<Rightarrow> engine \<Rightarrow> bool" where
  "memory_above h k off e \<longleftrightarrow>
     e_out e = [] \<and>
     (\<forall>i\<in>set (e_fifo e). \<forall>s\<in>set (tr_spans (e_heap e i)).
        \<exists>ent src req. (ent, src, req) \<in> set (h_adds h) \<and> s \<in> set (request_spans req) \<and>
          (h_owner h ent = Some k \<longrightarrow> off \<le> so_offset src))"

lemma release_commit_safe:
  assumes g: "good v h leak outs (rn_eng r)" and o: "e_out (rn_eng r) = []"
    and c: "rn_commits (release_commit only rep outs r) = rn_commits r @ [cs]" and k: "(k, ep, off) \<in> set cs"
  shows "memory_above h k off (rn_eng (release_commit only rep outs r))"
proof -
  let ?e = "Release outs (rn_eng r)"
  obtain cs' e' where co: "CommitOffsets only ?e = (cs', e')" by (metis surj_pair)
  have cs: "cs' = cs" and e': "rn_eng (release_commit only rep outs r) = e'"
    using c by (auto simp: release_commit_def co Let_def commit_def split: if_splits)
  have i: "inv v h leak [] {} ?e" by (rule good_inv [OF good_Release [OF g]])
  have f: "e_fifo e' = e_fifo ?e" "e_heap e' = e_heap ?e" "e_out e' = e_out ?e" using CommitOffsets_parts(1) [OF co] by simp_all
  have "\<exists>ent src req. (ent, src, req) \<in> set (h_adds h) \<and> s \<in> set (request_spans req) \<and>
          (h_owner h ent = Some k \<longrightarrow> off \<le> so_offset src)"
    if j: "j \<in> set (e_fifo ?e)" and s: "s \<in> set (tr_spans (e_heap ?e j))" for j s
  proof -
    have "trace_sourced h (e_heap ?e j)" using i j by (simp add: inv_def sources_ok_def)
    then obtain ent src req where a: "ent \<in> set (tr_refs (e_heap ?e j))" "(ent, src, req) \<in> set (h_adds h)" "s \<in> set (request_spans req)"
      using s unfolding trace_sourced_def by blast
    have "off \<le> so_offset src" if "h_owner h ent = Some k"
    proof (rule ccontr)
      assume "\<not> ?thesis"
      then have "oe_refs (e_offs ?e ent) = 0"
        using committed_unreferenced [OF i co _ that a(2)] k cs by auto
      moreover have "refs_ok leak [] ?e" using i by (simp add: inv_def)
      ultimately show False using unreferenced(1) [of leak "[]" ?e ent j] j a(1) by simp
    qed
    then show ?thesis using a by blast
  qed
  then show ?thesis unfolding memory_above_def e' f by (simp add: Release_frame o)
qed

lemma commit_cases:
  assumes g: "good (rv_env rv) h leak [] (rn_eng r)" and s: "r' = snd (flush rv r) \<or> r' = onGone rv m how r"
    and c: "rn_commits r' = rn_commits r @ [cs]"
  shows "\<exists>only outs r1 e1. good (rv_env rv) h leak outs (rn_eng r1) \<and> e_out (rn_eng r1) = [] \<and>
    rn_commits (release_commit only True outs r1) = rn_commits r1 @ [cs] \<and>
    e1 = rn_eng (release_commit only True outs r1) \<and>
    e_fifo (rn_eng r') = e_fifo e1 \<and> e_heap (rn_eng r') = e_heap e1 \<and> e_out (rn_eng r') = e_out e1"
  using s
proof
  assume r': "r' = snd (flush rv r)"
  obtain outs e where t: "TakeOutputs (rn_eng r) = (outs, e)" by (metis surj_pair)
  obtain err r1 where p: "produce rv outs (r\<lparr>rn_eng := e\<rparr>) = (err, r1)" by (metis surj_pair)
  note f = produce_frame [OF p]
  have "err = None" using c r' f by (cases err) (auto simp: flush_def t p)
  then have "r' = release_commit None True outs r1" using r' by (simp add: flush_def t p)
  moreover have "good (rv_env rv) h leak outs (rn_eng r1)" "e_out (rn_eng r1) = []"
    using good_TakeOutputs [OF g t] TakeOutputs_inv(2) [OF good_inv [OF g] t] f by simp_all
  ultimately show ?thesis using c f by (intro exI [of _ None] exI [of _ outs] exI [of _ r1]) simp
next
  assume r': "r' = onGone rv m how r"
  obtain outs e where t: "TakeOutputs (DecidePartitions (rv_env rv) m (rn_eng r)) = (outs, e)" by (metis surj_pair)
  obtain err r1 where p: "produce rv outs (r\<lparr>rn_eng := e\<rparr>) = (err, r1)" by (metis surj_pair)
  note f = produce_frame [OF p] and g1 = good_DecidePartitions [OF g]
  have "m \<noteq> []" using c r' by (auto simp: onGone_def)
  have "err = None" using c r' f \<open>m \<noteq> []\<close> by (cases err) (auto simp: onGone_def t p Let_def)
  then have r'': "r' = (let r2 = release_commit (Some m) (how = ''revoked'') outs r1 in r2\<lparr>rn_eng := DropPartitions m (rn_eng r2)\<rparr>)"
    using r' \<open>m \<noteq> []\<close> by (simp add: onGone_def t p)
  then have "how = ''revoked''" using c f by (auto simp: release_commit_def commit_def Let_def split: prod.splits if_splits)
  moreover have "good (rv_env rv) h leak outs (rn_eng r1)" "e_out (rn_eng r1) = []"
    using good_TakeOutputs [OF g1 t] TakeOutputs_inv(2) [OF good_inv [OF g1] t] f by simp_all
  ultimately show ?thesis
    using c f r'' by (intro exI [of _ "Some m"] exI [of _ outs] exI [of _ r1]) (simp add: Let_def DropPartitions_def)
qed

text \<open>
  C3: an offset is committed only when nothing of the records below it is in memory. In every state that
  a run reaches, after a flush or a rebalance that commits an offset of a partition, no output waits to be
  produced and every span that is still buffered comes from a record of another partition, from a record
  of a partition that was given up, or from a record at or above the committed offset.
\<close>

theorem commits_are_safe:
  assumes "reaches rv h leak r" and "permutes rv" and "r' = snd (flush rv r) \<or> r' = onGone rv m how r"
    and "rn_commits r' = rn_commits r @ [cs]" and "(k, ep, off) \<in> set cs"
  shows "memory_above h k off (rn_eng r')"
proof -
  obtain only outs r1 e1 where c: "good (rv_env rv) h leak outs (rn_eng r1)" "e_out (rn_eng r1) = []"
    "rn_commits (release_commit only True outs r1) = rn_commits r1 @ [cs]" "e1 = rn_eng (release_commit only True outs r1)"
    and f: "e_fifo (rn_eng r') = e_fifo e1" "e_heap (rn_eng r') = e_heap e1" "e_out (rn_eng r') = e_out e1"
    using commit_cases [OF reaches_good [OF assms(1,2)] assms(3,4)] by blast
  have "memory_above h k off e1" using release_commit_safe [OF c(1-3) assms(5)] c(4) by simp
  then show ?thesis unfolding memory_above_def f .
qed

section \<open>Bounds and accounting\<close>

text \<open>
  C7: the memory of the engine is bounded and its totals are exact. In every state that a run reaches,
  the number of buffered traces, the spans of each of them, their bytes and the number of remembered
  decisions are within the configured limits, and the counters of spans and bytes are the sums over the
  buffered traces.
\<close>

theorem memory_bounded:
  assumes "reaches rv h leak r" and "permutes rv" and "e = rn_eng r"
  shows "int (length (e_traces e)) \<le> to_maxTraces (e_opts e) \<and>
    (\<forall>i\<in>set (e_fifo e). int (length (tr_spans (e_heap e i))) < to_maxSpans (e_opts e)) \<and>
    e_bytes e \<le> to_maxBytes (e_opts e) \<and> int (length (e_cache e)) \<le> to_cacheSize (e_opts e) \<and>
    e_spans e = (\<Sum>i\<in>set (e_fifo e). int (length (tr_spans (e_heap e i)))) \<and>
    e_bytes e = (\<Sum>i\<in>set (e_fifo e). span_bytes (rv_env rv) (tr_spans (e_heap e i)))"
proof -
  have b: "bounds_but {} e" "totals_ok (rv_env rv) e" "e_bytes e \<le> to_maxBytes (e_opts e)"
    "int (length (e_cache e)) \<le> to_cacheSize (e_opts e)"
    using reaches_good [OF assms(1,2)] assms(3) by (simp_all add: good_def inv_def bytes_ok_def)
  have "(\<Sum>i\<in>set (e_fifo e). tr_bytes (e_heap e i)) = (\<Sum>i\<in>set (e_fifo e). span_bytes (rv_env rv) (tr_spans (e_heap e i)))"
    using b(2) by (intro sum.cong) (simp_all add: totals_ok_def)
  then have "e_bytes e = (\<Sum>i\<in>set (e_fifo e). span_bytes (rv_env rv) (tr_spans (e_heap e i)))"
    using b(2) unfolding totals_ok_def by metis
  then show ?thesis using b unfolding bounds_but_def totals_ok_def by blast
qed


section \<open>Progress\<close>

text \<open>
  C17: a tick decides every trace that is due. When the clock does not go back, every trace that is still
  buffered after a tick has waited less than the decision wait.
\<close>

theorem tick_decides_due:
  assumes "reaches rv h leak r" and "permutes rv" and "mono (e_clock (rn_eng r))" and "e = Tick (rv_env rv) (rn_eng r)"
    and "i \<in> set (e_fifo e)"
  shows "time_sub (e_clock e (e_reads (rn_eng r))) (tr_first (e_heap e i)) < to_wait (e_opts e)"
proof -
  let ?e0 = "rn_eng r" and ?e1 = "snd (read_now (rn_eng r))"
  let ?now = "e_clock ?e0 (e_reads ?e0)" and ?d = "decide_due (rv_env rv) (e_clock ?e0 (e_reads ?e0)) (snd (read_now (rn_eng r)))"
  have e: "e = gauges (purgeCache ?now ?d)" using assms(4) by (simp add: Tick_def read_now_def Let_def)
  have "clocked ?e0" using reaches_good [OF assms(1,2)] assms(3) by (simp add: good_def)
  then have "aged ?now ?e1" unfolding clocked_def by (rule aged_cong [rotated 5]) (simp_all add: read_now_def)
  from due_all [OF this, of i "rv_env rv" ?now] have "time_sub ?now (tr_first (e_heap ?e1 i)) < to_wait (e_opts ?e1)"
    using assms(5) e by simp
  moreover have "e_clock e = e_clock ?e1" using e clocks.due_stable [of ?e1 "e_clock ?e1"] by simp
  ultimately show ?thesis using e due_frame [of "rv_env rv" ?now ?e1] by (simp add: read_now_def)
qed

lemma rest_empty: "e_fifo (decide_rest v reason e) = []"
proof (induction v reason e rule: decide_rest.induct)
  case (1 v reason e)
  then show ?case by (subst decide_rest.simps) auto
qed


section \<open>Lost outputs\<close>

text \<open>
  C18: outputs that a rebalance loses hold back their partition. When producing fails in \<open>onGone\<close>, the
  outputs it took are neither released nor put back, so an entry of a partition that this member still owns
  keeps a reference that nobody holds; from then on no commit of that partition passes the record.
\<close>

theorem lost_outputs_block_commits:
  assumes "reaches rv h leak r" and "permutes rv" and "r' = snd (flush rv r) \<or> r' = onGone rv m how r"
    and "rn_commits r' = rn_commits r @ [cs]" and "(k, ep, off) \<in> set cs"
    and "0 < leak ent" and "h_owner h ent = Some k" and "(ent, src, req) \<in> set (h_adds h)"
  shows "off \<le> so_offset src"
proof (rule ccontr)
  assume l: "\<not> ?thesis"
  obtain only outs r1 where c: "good (rv_env rv) h leak outs (rn_eng r1)"
    "rn_commits (release_commit only True outs r1) = rn_commits r1 @ [cs]"
    using commit_cases [OF reaches_good [OF assms(1,2)] assms(3,4)] by blast
  let ?e = "Release outs (rn_eng r1)"
  obtain cs' e' where co: "CommitOffsets only ?e = (cs', e')" by (metis surj_pair)
  have "cs' = cs" using c(2) by (auto simp: release_commit_def co Let_def commit_def split: if_splits)
  have i: "inv (rv_env rv) h leak [] {} ?e" by (rule good_inv [OF good_Release [OF c(1)]])
  have "oe_refs (e_offs ?e ent) = 0"
    using committed_unreferenced [OF i co _ assms(7,8)] assms(5) l \<open>cs' = cs\<close> by auto
  moreover have "oe_refs (e_offs ?e ent) = int (buf_refs ?e ent + out_refs (e_out ?e @ []) ent + leak ent)"
    using i unfolding inv_def refs_ok_def by blast
  ultimately show False using assms(6) by simp
qed

section \<open>Splitting records\<close>

definition part_size :: "runner_env \<Rightarrow> trace_request \<Rightarrow> int" where
  "part_size rv p =
     int (rv_resourceSize rv (rs_resource (hd p))) + 64 + sum_list (map (\<lambda>sp. int (en_size (rv_env rv) sp) + 64) (spans_of p))"

definition part_good :: "runner_env \<Rightarrow> trace_request \<Rightarrow> bool" where
  "part_good rv p \<longleftrightarrow> spans_of p \<noteq> [] \<and> (length (spans_of p) = 1 \<or> part_size rv p \<le> rv_maxRecordBytes rv)"

fun split_ok :: "runner_env \<Rightarrow> span_msg list \<Rightarrow> trace_request list \<times> trace_request \<times> int \<Rightarrow> bool" where
  "split_ok rv xs (done1, cur, size1) \<longleftrightarrow>
     concat (map spans_of done1) @ spans_of cur = xs \<and> (\<forall>p\<in>set done1. part_good rv p) \<and>
     (if cur = [] then size1 = 0 else part_good rv cur \<and> size1 = part_size rv cur)"

lemma spans_of_nil: "spans_of [] = []"
  by (simp add: spans_of_def request_spans_def)

lemma appendToRequest_hd:
  "appendToRequest p (rs, ss, sp) \<noteq> []"
  "rs_resource (hd (appendToRequest p (rs, ss, sp))) = (if p = [] then rs_resource rs else rs_resource (hd p))"
proof -
  show "appendToRequest p (rs, ss, sp) \<noteq> []" by (simp add: appendToRequest_def)
  show "rs_resource (hd (appendToRequest p (rs, ss, sp))) = (if p = [] then rs_resource rs else rs_resource (hd p))"
    by (cases p rule: rev_cases; cases "butlast p") (auto simp: appendToRequest_def hd_append)
qed

lemma part_size_pos: "0 < part_size rv p"
proof -
  have "0 \<le> sum_list (map (\<lambda>sp. int (en_size (rv_env rv) sp) + 64) xs)" for xs by (induction xs) auto
  then show ?thesis by (simp add: part_size_def add_pos_nonneg)
qed

lemma split_span_ok:
  assumes "split_ok rv xs st"
  shows "split_ok rv (xs @ [sp]) (split_span rv (rs, ss, sp) st)"
proof -
  obtain done1 cur size1 where st: "st = (done1, cur, size1)" by (metis prod.exhaust)
  let ?n = "int (en_size (rv_env rv) sp) + 64"
  let ?cut = "size1 > 0 \<and> size1 + ?n > rv_maxRecordBytes rv"
  let ?new = "\<lambda>c. appendToRequest c (rs, ss, sp)"
  have new: "spans_of (?new c) = spans_of c @ [sp]" "?new c \<noteq> []" for c
    by (simp_all add: appendToRequest_spans appendToRequest_hd)
  have sz: "part_size rv (?new c) = (if c = [] then int (rv_resourceSize rv (rs_resource rs)) + 64 else part_size rv c) + ?n" for c
    by (simp add: part_size_def new appendToRequest_hd spans_of_nil)
  have fresh: "part_good rv (?new [])" by (simp add: part_good_def new spans_of_nil)
  show ?thesis
  proof (cases ?cut)
    case True
    then have "split_span rv (rs, ss, sp) st = (done1 @ [cur], ?new [], int (rv_resourceSize rv (rs_resource rs)) + 64 + ?n)"
      by (simp add: split_span_def st Let_def)
    moreover have "cur \<noteq> []" using assms True by (auto simp: st split: if_splits)
    ultimately show ?thesis using assms fresh sz [of "[]"] by (simp add: st new spans_of_nil)
  next
    case False
    then have r: "split_span rv (rs, ss, sp) st =
        (done1, ?new cur, (if size1 = 0 then int (rv_resourceSize rv (rs_resource rs)) + 64 else size1) + ?n)"
      by (auto simp: split_span_def st Let_def)
    show ?thesis
    proof (cases "cur = []")
      case True
      then show ?thesis using assms fresh sz [of "[]"] unfolding r by (auto simp: st new spans_of_nil)
    next
      case f: False
      then have "size1 = part_size rv cur" using assms by (simp add: st)
      then have "part_good rv (?new cur)" "0 < size1" using False part_size_pos [of rv cur] sz [of cur] f by (auto simp: part_good_def new)
      then show ?thesis using assms f sz [of cur] unfolding r by (auto simp: st new)
    qed
  qed
qed

lemma split_spans_ok:
  "split_ok rv xs st \<Longrightarrow> split_ok rv (xs @ map (\<lambda>(rs, ss, sp). sp) ys) (fold (split_span rv) ys st)"
proof (induction ys arbitrary: xs st)
  case (Cons y ys)
  obtain rs ss sp where y: "y = (rs, ss, sp)" by (metis prod.exhaust)
  show ?case using Cons.IH [OF split_span_ok [OF Cons.prems, of sp rs ss]] by (simp add: y)
qed simp


end
