(* ===== verification/TailRunnerExamples.thy ===== *)
theory TailRunnerExamples
  imports TailRunnerCorrect
begin

text \<open>Concrete runs of the tail sampling loop, at which its properties are applied.\<close>

section \<open>Example runs\<close>

definition demo_span :: span_msg where
  "demo_span =
     \<lparr>sp_traceId = ''0123456789abcdef'', sp_spanId = ''01234567'', sp_traceState = [], sp_name = ''GET'', sp_start = 1, sp_end = 2,
      sp_status = 0, sp_attributes = [], sp_rest = []\<rparr>"

definition demo_request :: trace_request where
  "demo_request =
     [\<lparr>rs_resource = None, rs_schemaUrl = [], rs_scopes = [\<lparr>ss_scope = None, ss_schemaUrl = [], ss_spans = [demo_span]\<rparr>]\<rparr>]"

text \<open>The first call of \<open>produce\<close> fails when \<open>bad\<close> is set; every tenant keeps all traces.\<close>

definition demo_rv :: "bool \<Rightarrow> runner_env" where
  "demo_rv bad =
     \<lparr>rv_env = \<lparr>en_size = (\<lambda>_. 10), en_hash = (\<lambda>_. 0), en_policy = (\<lambda>_. KeepAll)\<rparr>,
      rv_unmarshal = (\<lambda>s. if s = ''s'' then Some demo_request else if s = [] then Some [] else None),
      rv_marshal = (\<lambda>_. Some ''x''), rv_requestSize = (\<lambda>_. 10), rv_resourceSize = (\<lambda>_. 0),
      rv_attempts = (\<lambda>n. (\<not> bad \<or> n > 0, [])), rv_order = (\<lambda>xs. xs), rv_prefix = ''openlog'', rv_maxRecordBytes = 8388608\<rparr>"

definition demo_record :: "int \<Rightarrow> int \<Rightarrow> string \<Rightarrow> kafka_record" where
  "demo_record p off body =
     \<lparr>kr_topic = ''t'', kr_partition = p, kr_offset = off, kr_epoch = 1, kr_timestamp = unix_epoch,
      kr_headers = [(HeaderSchemaVersion, SchemaVersion), (HeaderTenantID, ''a'')], kr_value = body\<rparr>"

definition demo_clock :: "nat \<Rightarrow> gtime" where
  "demo_clock n = unix_epoch + int n * second"

definition demo_start :: runner where
  "demo_start =
     NewRunner (NewEngine \<lparr>to_wait = 0, to_maxTraces = 0, to_maxSpans = 0, to_maxBytes = 0, to_ttl = 0, to_cacheSize = 0\<rparr> demo_clock)"

fun feed :: "runner_env \<Rightarrow> kafka_record list \<Rightarrow> history \<times> runner \<Rightarrow> history \<times> runner" where
  "feed rv [] hr = hr"
| "feed rv (rec # recs) (h, r) =
     (case record_data rv rec of (src, req) \<Rightarrow> feed rv recs (added src req (rn_eng r) h, addRecord rv rec r))"

lemma feed_reaches: "reaches rv h leak r \<Longrightarrow> feed rv recs (h, r) = (h', r') \<Longrightarrow> reaches rv h' leak r'"
proof (induction recs arbitrary: h r)
  case (Cons rec recs)
  obtain src req where d: "record_data rv rec = (src, req)" by (metis surj_pair)
  show ?case
    using Cons reaches.record_step [OF Cons.prems(1) d, of "en_policy (rv_env rv)"] d by (auto simp: at_policy_self)
qed simp

definition demo_run :: "bool \<Rightarrow> kafka_record list \<Rightarrow> history \<times> runner" where
  "demo_run bad recs = feed (demo_rv bad) recs (\<lparr>h_adds = [], h_owner = (\<lambda>_. None)\<rparr>, demo_start)"

lemma demo_reaches: "reaches (demo_rv bad) (fst (demo_run bad recs)) (\<lambda>_. 0) (snd (demo_run bad recs))"
  unfolding demo_run_def demo_start_def by (rule feed_reaches [OF reaches.start prod.collapse [symmetric]])

lemma demo_permutes: "permutes (demo_rv bad)"
  by (simp add: permutes_def demo_rv_def)

definition demo_two :: "history \<times> runner" where
  "demo_two = demo_run False [demo_record 0 5 [], demo_record 0 6 ''s'']"

lemma demo_two_commit: "rn_commits (snd (flush (demo_rv False) (snd demo_two))) = [[((''t'', 0), 1, 6)]]"
  by code_simp

lemma demo_two_before: "rn_commits (snd demo_two) = []" "e_fifo (Tick (rv_env (demo_rv False)) (rn_eng (snd demo_two))) = [0]"
  by code_simp+

lemma feed_clock: "e_clock (rn_eng (snd (feed rv recs hr))) = e_clock (rn_eng (snd hr))"
proof (induction rv recs hr rule: feed.induct)
  case (2 rv rec recs h r)
  obtain src req where d: "record_data rv rec = (src, req)" by (metis surj_pair)
  then show ?case using 2 [OF d [symmetric]] by (simp add: addRecord_eng [OF d] Add_clock)
qed simp

lemma demo_two_clock: "mono (e_clock (rn_eng (snd demo_two)))"
proof -
  have "e_clock (rn_eng (snd demo_two)) = demo_clock"
    by (simp only: demo_two_def demo_run_def feed_clock snd_conv) (simp add: demo_start_def NewRunner_def NewEngine_def)
  then show ?thesis by (simp add: mono_def demo_clock_def second_def)
qed

lemma demo_two_reaches: "reaches (demo_rv False) (fst demo_two) (\<lambda>_. 0) (snd demo_two)"
  unfolding demo_two_def by (rule demo_reaches)

theorem commits_are_safe_witness:
  "memory_above (fst demo_two) (''t'', 0) 6 (rn_eng (snd (flush (demo_rv False) (snd demo_two))))"
  using commits_are_safe [OF demo_two_reaches demo_permutes disjI1 [OF refl], of "[((''t'', 0), 1, 6)]" "(''t'', 0)" 1 6]
  by (simp add: demo_two_commit demo_two_before)

theorem memory_bounded_witness: "e_bytes (rn_eng (snd demo_two)) \<le> to_maxBytes (e_opts (rn_eng (snd demo_two)))"
  using memory_bounded [OF demo_two_reaches demo_permutes refl] by (elim conjE)


theorem tick_decides_due_witness:
  "time_sub (e_clock (Tick (rv_env (demo_rv False)) (rn_eng (snd demo_two))) (e_reads (rn_eng (snd demo_two))))
     (tr_first (e_heap (Tick (rv_env (demo_rv False)) (rn_eng (snd demo_two))) 0))
   < to_wait (e_opts (Tick (rv_env (demo_rv False)) (rn_eng (snd demo_two))))"
  using tick_decides_due [OF demo_two_reaches demo_permutes demo_two_clock refl, of 0] by (simp add: demo_two_before)

text \<open>Producing succeeds when every request can be marshalled and the first attempt is acknowledged.\<close>

lemma collect_all: "(\<And>x. x \<in> set xs \<Longrightarrow> x \<noteq> None) \<Longrightarrow> collect_opts xs \<noteq> None"
  by (induction xs rule: collect_opts.induct) auto

lemma flush_succeeds:
  assumes "\<And>q. rv_marshal rv q \<noteq> None" and "\<And>n. fst (rv_attempts rv n)"
  shows "fst (flush rv r) = None"
proof -
  obtain outs e where t: "TakeOutputs (rn_eng r) = (outs, e)" by (metis surj_pair)
  have "output_messages rv o1 \<noteq> None" for o1
    using collect_all [of "map (rv_marshal rv) (splitRequest rv (ou_request o1))"] assms(1) by (auto simp: output_messages_def)
  then have "collect_opts (map (output_messages rv) outs) \<noteq> None" by (intro collect_all) auto
  then have "fst (produce rv outs r1) = None" for r1
    using assms(2) by (auto simp: produce_def Let_def)
  then show ?thesis by (cases "produce rv outs (r\<lparr>rn_eng := e\<rparr>)") (metis (no_types, lifting) fst_conv flush_def t case_prod_conv option.case(1))
qed

lemma demo_shutdown: "fst (shutdown (demo_rv False) (snd demo_two)) = None"
  unfolding shutdown_def by (rule flush_succeeds) (simp_all add: demo_rv_def)


text \<open>
  Two partitions share a trace; the first is revoked while the broker does not answer. The record of the
  second partition stays referenced, and a later flush that succeeds does not commit past it.
\<close>

definition demo_lost :: "history \<times> runner" where
  "demo_lost = demo_run True [demo_record 0 5 ''s'', demo_record 1 6 [], demo_record 1 7 ''s'']"

definition demo_gone :: runner where
  "demo_gone = onGone (demo_rv True) [(''t'', [0])] ''revoked'' (snd demo_lost)"

definition demo_leak :: "nat \<Rightarrow> nat" where
  "demo_leak = (\<lambda>q. 0 + lost_refs (demo_rv True) [(''t'', [0])] (snd demo_lost) q)"

lemma demo_gone_reaches: "reaches (demo_rv True) (dropped [(''t'', [0])] (fst demo_lost)) demo_leak demo_gone"
proof -
  have p: "at_policy (\<lambda>_. KeepAll) (demo_rv True) = demo_rv True" by (simp add: at_policy_def demo_rv_def)
  have "reaches (demo_rv True) (fst demo_lost) (\<lambda>_. 0) (snd demo_lost)" unfolding demo_lost_def by (rule demo_reaches)
  from reaches.gone_step [OF this, of "[(''t'', [0])]" "\<lambda>_. KeepAll" "''revoked''", unfolded p] show ?thesis
    by (simp only: demo_gone_def demo_leak_def list.distinct simp_thms)
qed

lemma demo_lost_state:
  "e_fifo (rn_eng (snd demo_lost)) = [0]" "tr_refs (e_heap (rn_eng (snd demo_lost)) 0) = [0, 2]"
  "gone_entries [(''t'', [0])] (rn_eng (snd demo_lost)) = [0]" "e_out (rn_eng (snd demo_lost)) = []"
  "rn_commits (snd demo_lost) = []" "rn_calls (snd demo_lost) = 0"
  by code_simp+

lemma demo_lost_history:
  "h_owner (fst demo_lost) 2 = Some (''t'', 1)" "map fst (h_adds (fst demo_lost)) = [2, 1, 0]"
  "fst (CommitOffsets None (DropPartitions [(''t'', [0])] (rn_eng (snd demo_lost)))) = [((''t'', 1), 1, 7)]"
  by code_simp+

lemma decide_keep:
  assumes "en_policy v = (\<lambda>_. KeepAll)"
  shows "e_out (decide v i reason e) = e_out e @ [kept_output (e_heap e i) f_one DefaultRuleName]"
    and "e_offs (decide v i reason e) = e_offs e"
  using assms by (simp_all add: decide_def evaluate_def KeepAll_def read_now_def take_trace_def Let_def)

text \<open>The engine after the revocation: the decided trace is gone, its references are not.\<close>

lemma demo_revoked:
  defines "v \<equiv> rv_env (demo_rv True)"
  defines "e \<equiv> gauges (decide v 0 ''revoked'' (rn_eng (snd demo_lost)))"
  shows "rn_eng demo_gone = DropPartitions [(''t'', [0])] (e\<lparr>e_out := []\<rparr>)" and "rn_commits demo_gone = []" and "demo_leak 2 = 1"
proof -
  have v: "en_policy v = (\<lambda>_. KeepAll)" by (simp add: v_def demo_rv_def)
  let ?outs = "[kept_output (e_heap (rn_eng (snd demo_lost)) 0) f_one DefaultRuleName]"
  have "DecidePartitions v [(''t'', [0])] (rn_eng (snd demo_lost)) = e"
    by (simp add: DecidePartitions_def demo_lost_state e_def)
  moreover have "e_out e = ?outs" by (simp add: e_def decide_keep [OF v] demo_lost_state)
  ultimately have t: "TakeOutputs (DecidePartitions v [(''t'', [0])] (rn_eng (snd demo_lost))) = (?outs, e\<lparr>e_out := []\<rparr>)"
    by (simp add: TakeOutputs_def)
  let ?p = "produce (demo_rv True) ?outs ((snd demo_lost)\<lparr>rn_eng := e\<lparr>e_out := []\<rparr>\<rparr>)"
  have a: "rv_attempts (demo_rv True) 0 = (False, [])" by (simp add: demo_rv_def)
  have "fst ?p \<noteq> None"
    by (auto simp: produce_def demo_lost_state(6) a Let_def split: option.splits)
  then obtain err r1 where p: "?p = (Some err, r1)" by (metis fst_conv not_Some_eq surj_pair)
  from produce_frame [OF this] have f: "rn_eng r1 = e\<lparr>e_out := []\<rparr>" "rn_commits r1 = []" by (simp_all add: demo_lost_state)
  show "rn_eng demo_gone = DropPartitions [(''t'', [0])] (e\<lparr>e_out := []\<rparr>)" "rn_commits demo_gone = []"
    by (simp_all add: demo_gone_def onGone_def v_def [symmetric] t p f Let_def)
  show "demo_leak 2 = 1"
    by (simp add: demo_leak_def lost_refs_def v_def [symmetric] t p) (simp add: kept_output_def demo_lost_state)
qed

lemma CommitOffsets_cong:
  assumes "e_offs a = e_offs b" and "e_parts a = e_parts b"
  shows "fst (CommitOffsets only a) = fst (CommitOffsets only b)"
  unfolding CommitOffsets_def Let_def fst_conv assms by (rule refl)

lemma demo_gone_commit: "rn_commits (snd (flush (demo_rv True) demo_gone)) = [[((''t'', 1), 1, 7)]]"
proof -
  have v: "en_policy (rv_env (demo_rv True)) = (\<lambda>_. KeepAll)" by (simp add: demo_rv_def)
  have o: "e_out (rn_eng demo_gone) = []" by (simp add: demo_revoked(1) DropPartitions_def)
  have "fst (CommitOffsets None (rn_eng demo_gone)) =
      fst (CommitOffsets None (DropPartitions [(''t'', [0])] (rn_eng (snd demo_lost))))"
    by (rule CommitOffsets_cong) (simp_all add: demo_revoked(1) DropPartitions_def decide_keep [OF v] decide_frame)
  also have "\<dots> = [((''t'', 1), 1, 7)]" by (rule demo_lost_history)
  finally have "fst (CommitOffsets None ((rn_eng demo_gone)\<lparr>e_out := []\<rparr>)) = [((''t'', 1), 1, 7)]"
    using CommitOffsets_cong [of "(rn_eng demo_gone)\<lparr>e_out := []\<rparr>" "rn_eng demo_gone" None] by simp
  then obtain e' where "CommitOffsets None ((rn_eng demo_gone)\<lparr>e_out := []\<rparr>) = ([((''t'', 1), 1, 7)], e')"
    by (metis prod.collapse)
  then show ?thesis
    by (simp add: flush_def TakeOutputs_def o produce_def release_commit_def Release_def commit_def demo_revoked(2))
qed

theorem lost_outputs_block_commits_witness:
  "demo_leak 2 = 1 \<and> (\<exists>src req. (2, src, req) \<in> set (h_adds (fst demo_lost)) \<and> 7 \<le> so_offset src)"
proof -
  have a: "h_adds (dropped [(''t'', [0])] (fst demo_lost)) = h_adds (fst demo_lost)" by (simp add: dropped_def)
  have o: "h_owner (dropped [(''t'', [0])] (fst demo_lost)) 2 = Some (''t'', 1)"
    by (simp add: dropped_def demo_lost_history part_keys_def)
  have "2 \<in> fst ` set (h_adds (fst demo_lost))" using demo_lost_history(2) by (metis list.set_intros(1) list.set_map)
  then obtain src req where m: "(2, src, req) \<in> set (h_adds (fst demo_lost))" by auto
  have "7 \<le> so_offset src"
    using lost_outputs_block_commits [OF demo_gone_reaches demo_permutes disjI1 [OF refl],
        of "[((''t'', 1), 1, 7)]" "(''t'', 1)" 1 7 2 src req] a o demo_gone_commit demo_revoked m by simp
  then show ?thesis using demo_revoked(3) m by blast
qed

end
