(* ===== verification/Spec2Isabelle.thy ===== *)
theory Spec2Isabelle
  imports AlertPlanExamples UpdatePlan OqlSqlCorrect TailRunnerExamples
begin

text \<open>
  Verification of the core of openlog, an observability platform written in Go (\<^verbatim>\<open>src/\<close>).

  \<^bold>\<open>The program.\<close> Agents send OTLP to an ingest service, which writes it to Kafka, partitioned by trace
  (\<^verbatim>\<open>internal/otlputil\<close>). The sampler (\<^verbatim>\<open>internal/tailsampling\<close>) buffers the spans of a trace, decides it by
  the policy of the tenant, writes the kept traces to a second topic with a corrected sampling weight
  and commits an offset only when nothing of the record is pending. The processor reads the weights
  (\<^verbatim>\<open>internal/apm/sampling.go\<close>) and stores rows in ClickHouse. The API answers queries of the language
  OQL (\<^verbatim>\<open>internal/oql\<close>), which it compiles to SQL with a statement builder that adds the tenant filter
  (\<^verbatim>\<open>internal/api/query\<close>). Alert rules evaluate such queries and drive one state machine per series
  (\<^verbatim>\<open>internal/alert\<close>). The updater chooses the next release to install (\<^verbatim>\<open>internal/updater\<close>,
  \<^verbatim>\<open>libs/release\<close>).

  \<^bold>\<open>The Go library.\<close> \<open>Prelude\<close>: 64-bit wrap-around, instants and saturating durations, error sums.
  \<open>GoStrings\<close>, \<open>GoUtf8\<close>, \<open>GoEncoding\<close>: byte strings, decimal and hexadecimal numbers, UTF-8, base64, JSON
  values and \<^verbatim>\<open>path.Match\<close>. \<open>GoFloat\<close>, \<open>GoFloatText\<close>, \<open>GoMath\<close>: IEEE binary64 as exact rationals with one
  rounding function, \<^verbatim>\<open>ParseFloat\<close>, shortest formatting, \<^verbatim>\<open>min\<close>, \<^verbatim>\<open>max\<close>, \<^verbatim>\<open>Round\<close> and \<^verbatim>\<open>Pow\<close>. \<open>GoTime\<close>: the
  calendar and \<^verbatim>\<open>time.Parse\<close>. \<open>Ordering\<close>: three-way comparisons as the locales \<open>weak_comparison\<close> and
  \<open>comparison\<close>, with lists and sorting proved once inside them.

  \<^bold>\<open>OQL.\<close> \<open>OqlLexer\<close>, \<open>OqlAst\<close>, \<open>OqlParser\<close>, \<open>OqlSchema\<close>, \<open>OqlPlan\<close> and \<open>OqlTranslate\<close> follow \<^verbatim>\<open>lexer.go\<close>,
  \<^verbatim>\<open>ast.go\<close>, \<^verbatim>\<open>parser.go\<close>, \<^verbatim>\<open>schema.go\<close>, \<^verbatim>\<open>plan.go\<close> with \<^verbatim>\<open>filters.go\<close>, and \<^verbatim>\<open>translate.go\<close>, function by
  function; \<open>QuerySelect\<close> follows \<^verbatim>\<open>api/query/query.go\<close>. A panic of Go is the value \<open>None\<close>, an error a value
  of a sum, and the state of the SQL builder is passed explicitly. On the queries of
  \<^verbatim>\<open>internal/oql/testdata/golden\<close> the model prints the SQL of all 22 golden files. \<open>OqlParserCorrect\<close>,
  \<open>OqlPlanCorrect\<close>, \<open>OqlCompileCorrect\<close>, \<open>OqlTranslateCorrect\<close>, \<open>QuerySelectCorrect\<close> and \<open>OqlSqlCorrect\<close>
  are weakest-precondition calculi with one rule for each function; they show that every text ends in a
  plan or in an error inside the text, that plans resolve to the whitelist and keep the limits, that
  the rollup is used only when it has the answer, that no text of the user reaches a statement, and
  that every table of every statement is filtered by the tenant of the scope.

  \<^bold>\<open>Alerts.\<close> \<open>AlertState\<close> follows \<^verbatim>\<open>alert/state.go\<close> and the rows that \<^verbatim>\<open>alert/plan.go\<close> loads and stores. It
  shows when incidents open and resolve over whole sequences of evaluations, and that keeping only the
  stored row refines keeping the whole series. \<open>AlertRouting\<close> and \<open>AlertPlan\<close> follow the matching of
  \<^verbatim>\<open>alert/routes.go\<close> and the whole of \<^verbatim>\<open>alert/plan.go\<close>: the plan of an evaluation is a fold over the sorted
  series, each opening, resolving or reminding of its incident. The locale \<open>plan_invariant\<close> of
  \<open>AlertPlanCorrect\<close> asks each way a series can go to keep a predicate; its four interpretations show that
  rows fire while their incident is open, and which channels openings, resolutions and reminders
  reach. \<open>AlertPlanExamples\<close> evaluates one plan.

  \<^bold>\<open>Releases.\<close> \<open>Release\<close>, \<open>Manifest\<close>, \<open>UpdatePlan\<close> follow \<^verbatim>\<open>libs/release/semver.go\<close>, \<^verbatim>\<open>manifest.go\<close> and
  \<^verbatim>\<open>updater/plan.go\<close>: round trips and order of versions, lookups of valid manifests, and that target
  selection picks the newest installable release and comes to rest.

  \<^bold>\<open>Tail sampling.\<close> \<open>Otlp\<close>, \<open>TraceWeights\<close>, \<open>TailPolicy\<close>, \<open>TailEngine\<close> and \<open>TailRunner\<close> follow \<^verbatim>\<open>otlputil.go\<close>,
  \<^verbatim>\<open>apm/sampling.go\<close> with \<^verbatim>\<open>weights.go\<close>, \<^verbatim>\<open>policy.go\<close>, \<^verbatim>\<open>engine.go\<close> and \<^verbatim>\<open>runner.go\<close>. Traces and offset
  entries are shared by pointer, so they live in stores. \<open>TailEngineCorrect\<close>, \<open>TailEngineRuns\<close> and
  \<open>TailEngineTotals\<close> keep one invariant through every operation, with the history of the run as ghost
  state: queue and map agree, totals are exact and bounded, the reference count of a record is the
  number of traces and outputs that hold spans of it, and the queue is ordered by age. What a single
  decision keeps, the loops keep: the locale \<open>decision_stable\<close>, interpreted on each part of the
  invariant. \<open>TailRunnerCorrect\<close> lifts it to the states that the Kafka loop reaches (\<open>reaches\<close>) and states
  the safety of commits, the bounds, the accounting of spans and the progress of ticks and of a
  shutdown; \<open>TailRunnerExamples\<close> applies these properties to concrete runs.

  \<^bold>\<open>Bounds and fuel.\<close> Loops over bytes that are not structural in Go have fuel equal to the length of the
  text plus one, and a lemma that it is enough (\<open>Parse_total\<close>, \<open>lex_total\<close>, \<open>match_loop_enough\<close>). The
  engine's loops are functions with a termination proof, because a decision takes its trace out of the
  queue and a purge shortens the order of the cache. The retry loop of the producer runs over the
  list of the outcomes of its attempts, which ends with the context.

  \<^bold>\<open>Parameters.\<close> Fetching a manifest and parsing a URL; the decoder of a policy; protobuf sizes,
  marshalling and unmarshalling; xxhash; the clock; the time zone database, the id generator, the methods
  of an alert condition and \<^verbatim>\<open>formatValue\<close>; the answers of the broker; the order in which Go
  visits the map of late outputs. The hypothesis on the last is that it is a permutation (\<open>permutes\<close>); ids
  are distinct and not empty.

  \<^bold>\<open>Not modelled.\<close> Running statements on ClickHouse and PostgreSQL (\<^verbatim>\<open>oql/exec.go\<close>, the stores), the HTTP
  handlers, the rule types and the delivery of alerts, authentication and single sign-on, ingest and processing of metrics, logs and profiles,
  dashboards, reports, synthetics, billing, fleet management and the agents: these are mostly input and
  output around libraries that are not part of the repository, or further components of the same size
  as those above. Rendering of messages keeps format and arguments apart. Timeouts bound the attempts
  that the environment lists. Metrics are counters of the state.
\<close>

end
